(* ===== verification/Prelude.thy ===== *)
theory Prelude
  imports Main "HOL-Library.Word" "HOL-Library.Signed_Division"
begin

text \<open>
  Shared vocabulary of the development: the fixed-width integer types of
  \<^verbatim>\<open>mp3/student-distrib/types.h\<close> and \<^verbatim>\<open>mp2/types.h\<close>, flat byte memory, results that may be
  a fault, and the generic list, word and memory lemmas that the component theories use.

  \<^item> A C \<open>uint8_t\<close>, \<open>uint16_t\<close>, \<open>uint32_t\<close> is a word of that width. A C \<open>int\<close> whose values
    stay far from the ends of its range is an HOL \<open>int\<close>; where a signed 32-bit value is
    stored in memory or can wrap it is a \<open>32 word\<close> read with \<open>sint\<close>.
  \<^item> Memory is a function from integer addresses to bytes; pointer arithmetic is exact.
  \<^item> A C access that leaves its array, or that touches a page that is not present, is a
    \<open>fault\<close>: the operation returns \<open>Inl\<close> and no state.
  \<^item> Generic transition systems: reachable states, and invariants by rule induction.
\<close>

unbundle bit_operations_syntax

section \<open>Types\<close>

type_synonym u8 = "8 word"
type_synonym u16 = "16 word"
type_synonym u32 = "32 word"
type_synonym addr = int
type_synonym mem = "addr \<Rightarrow> u8"

text \<open>Rewrite rules that say which parts of the state an operation leaves alone.\<close>

named_theorems frame

text \<open>Unfolding equations of the state-passing operations, for whole-handler proofs.\<close>

named_theorems op_defs

section \<open>Results that may be a fault\<close>

datatype fault = PageFault | OutOfBounds | Diverges

type_synonym 'a res = "fault + 'a"

definition and_then :: "'a res \<Rightarrow> ('a \<Rightarrow> 'b res) \<Rightarrow> 'b res" where
  "and_then m f = (case m of Inl e \<Rightarrow> Inl e | Inr x \<Rightarrow> f x)"

definition check :: "bool \<Rightarrow> fault \<Rightarrow> 's \<Rightarrow> 's res" where
  "check b e s = (if b then Inr s else Inl e)"

definition is_ok :: "'a res \<Rightarrow> bool" where
  "is_ok r \<longleftrightarrow> (\<exists>x. r = Inr x)"

lemma and_then_simps [simp]:
  "and_then (Inr x) f = f x"
  "and_then (Inl e) f = Inl e"
  by (simp_all add: and_then_def)

lemma and_then_assoc: "and_then (and_then m f) g = and_then m (\<lambda>x. and_then (f x) g)"
  by (cases m) auto

lemma and_then_Inr_iff: "and_then m f = Inr y \<longleftrightarrow> (\<exists>x. m = Inr x \<and> f x = Inr y)"
  by (cases m) auto

lemma and_then_InrE:
  assumes "and_then m f = Inr y"
  obtains x where "m = Inr x" and "f x = Inr y"
  using assms by (auto simp: and_then_Inr_iff)

lemma check_Inr_iff [simp]: "check b e s = Inr t \<longleftrightarrow> b \<and> t = s"
  by (auto simp: check_def)

lemma check_True [simp]: "check True e s = Inr s"
  by (simp add: check_def)

lemma check_False [simp]: "check False e s = Inl e"
  by (simp add: check_def)

lemma is_ok_simps [simp]: "is_ok (Inr x)" "\<not> is_ok (Inl e)"
  by (auto simp: is_ok_def)

text \<open>A C \<open>for\<close> loop over a known index range whose body may fault.\<close>

fun fold_res :: "('i \<Rightarrow> 's \<Rightarrow> 's res) \<Rightarrow> 'i list \<Rightarrow> 's \<Rightarrow> 's res" where
  "fold_res f [] s = Inr s"
| "fold_res f (i # is) s = and_then (f i s) (fold_res f is)"

lemma and_then_Inr [simp]: "and_then m Inr = m"
  by (cases m) auto

lemma fold_res_Nil [simp]: "fold_res f [] = Inr"
  by (rule ext) simp

lemma fold_res_append: "fold_res f (xs @ ys) s = and_then (fold_res f xs s) (fold_res f ys)"
  by (induction xs arbitrary: s) (auto simp: and_then_def split: sum.splits)

text \<open>
  What a fallible operation promises: if it returns, the invariant is kept. A loop over
  such an operation, and two in sequence, keep the promise.
\<close>

locale keeps =
  fixes inv :: "'s \<Rightarrow> bool" and op :: "'i \<Rightarrow> 's \<Rightarrow> 's res"
  assumes keeps_inv: "inv s \<Longrightarrow> op i s = Inr t \<Longrightarrow> inv t"
begin

lemma loop_inv: "inv s \<Longrightarrow> fold_res op is s = Inr t \<Longrightarrow> inv t"
  by (induction "is" arbitrary: s) (auto simp: and_then_Inr_iff intro: keeps_inv)

lemma then_inv:
  "inv s \<Longrightarrow> and_then (op i s) g = Inr t \<Longrightarrow> (\<And>u. inv u \<Longrightarrow> g u = Inr t \<Longrightarrow> inv t) \<Longrightarrow> inv t"
  by (auto simp: and_then_Inr_iff intro: keeps_inv)

end

text \<open>Every result that a fallible operation can return satisfies \<open>P\<close>.\<close>

definition post :: "'a res \<Rightarrow> ('a \<Rightarrow> bool) \<Rightarrow> bool" where
  "post r P \<longleftrightarrow> (\<forall>x. r = Inr x \<longrightarrow> P x)"

lemma post_simps [simp]: "post (Inr x) P = P x" "post (Inl e) P" "post (check b e s) P = (b \<longrightarrow> P s)"
  by (auto simp: post_def)

lemma post_seq: "post m Q \<Longrightarrow> (\<And>x. Q x \<Longrightarrow> post (f x) P) \<Longrightarrow> post (and_then m f) P"
  by (auto simp: post_def and_then_Inr_iff)

lemma post_any: "(\<And>x. post (f x) P) \<Longrightarrow> post (and_then m f) P"
  by (auto simp: post_def and_then_Inr_iff)

lemma postD: "post r P \<Longrightarrow> r = Inr x \<Longrightarrow> P x"
  by (simp add: post_def)

lemma postI: "(\<And>x. r = Inr x \<Longrightarrow> P x) \<Longrightarrow> post r P"
  by (simp add: post_def)

section \<open>Lists as C arrays\<close>

lemma nth_upd_eq [simp]: "i < length xs \<Longrightarrow> (xs[i := v]) ! i = v"
  by simp

lemma upd_upd_same [simp]: "(xs[i := v])[i := w] = xs[i := w]"
  by simp

lemma all_nth_update: "(\<And>j. j < n \<Longrightarrow> P (xs ! j)) \<Longrightarrow> length xs = n \<Longrightarrow> P v \<Longrightarrow> \<forall>j < n. P (xs[k := v] ! j)"
  by (metis nth_list_update_eq nth_list_update_neq)

text \<open>A C \<open>for\<close> loop that updates every element of a range of an array.\<close>

lemma fold_update_nth:
  assumes "b \<le> length xs"
  shows "length (fold (\<lambda>i t. t[i := f i (t ! i)]) [a..<b] xs) = length xs"
    and "fold (\<lambda>i t. t[i := f i (t ! i)]) [a..<b] xs ! v = (if a \<le> v \<and> v < b then f v (xs ! v) else xs ! v)"
  using assms
proof (induction b)
  case 0
  { case 1 then show ?case by simp }
  { case 2 then show ?case by simp }
next
  case (Suc b)
  { case 1 then show ?case using Suc(1) by (cases "a \<le> b") simp_all }
  { case 2 then show ?case using Suc(1,2) by (cases "a \<le> b") (auto simp: nth_list_update less_Suc_eq) }
qed

lemma sum_list_update_nat:
  fixes xs :: "nat list"
  assumes "i < length xs"
  shows "sum_list (xs[i := v]) + xs ! i = sum_list xs + v"
  using assms
proof (induction xs arbitrary: i)
  case Nil
  then show ?case by simp
next
  case (Cons x xs)
  then show ?case by (cases i) auto
qed

lemma count_list_update:
  assumes "i < length xs" and "xs ! i = a" and "a \<noteq> b"
  shows "count_list (xs[i := b]) a + 1 = count_list xs a"
  using assms
proof (induction xs arbitrary: i)
  case Nil
  then show ?case by simp
next
  case (Cons x xs)
  then show ?case by (cases i) auto
qed

lemma count_list_update_other:
  assumes "i < length xs" and "xs ! i = a" and "a \<noteq> b"
  shows "count_list (xs[i := b]) b = count_list xs b + 1"
  using assms
proof (induction xs arbitrary: i)
  case Nil
  then show ?case by simp
next
  case (Cons x xs)
  then show ?case by (cases i) auto
qed

section \<open>Bits\<close>

lemma bit_255 [simp]: "bit (255 :: int) n \<longleftrightarrow> n < 8"
  using bit_mask_iff [of 8 n, where 'a = int] by (simp add: mask_eq_exp_minus_1)

lemma sint_small: "uint (w :: u32) < 2 ^ 31 \<Longrightarrow> sint w = uint w"
proof -
  assume "uint w < 2 ^ 31"
  moreover have "- (2 ^ 31) \<le> uint w" by (rule order_trans [OF _ uint_ge_0]) simp
  ultimately have "signed_take_bit 31 (uint w) = uint w" by (intro signed_take_bit_int_eq_self)
  then show "sint w = uint w" by (simp add: sint_uint)
qed

lemma sint_unat:
  fixes w :: u32
  assumes "unat w < 2 ^ 31"
  shows "sint w = int (unat w)"
proof -
  have "int (unat w) < int (2 ^ 31)" using assms by (rule of_nat_less_iff [THEN iffD2])
  then have "uint w < 2 ^ 31" by simp
  then show ?thesis by (simp add: sint_small)
qed

lemma sdiv_nonneg: "0 \<le> p \<Longrightarrow> 0 < d \<Longrightarrow> p sdiv d = p div d" for p d :: int
  by (cases "p = 0") (simp_all add: signed_divide_int_def)

lemma smod_nonneg: "0 \<le> p \<Longrightarrow> 0 < d \<Longrightarrow> p smod d = p mod d" for p d :: int
  by (cases "p = 0") (simp_all add: signed_modulo_int_def)

section \<open>Flat memory\<close>

text \<open>\<open>mread m a n\<close> is the \<open>n\<close> bytes at \<open>a\<close>; \<open>mwrite m a bs\<close> stores \<open>bs\<close> at \<open>a\<close>.\<close>

definition mread :: "mem \<Rightarrow> addr \<Rightarrow> nat \<Rightarrow> u8 list" where
  "mread m a n = map (\<lambda>i. m (a + int i)) [0..<n]"

fun mwrite :: "mem \<Rightarrow> addr \<Rightarrow> u8 list \<Rightarrow> mem" where
  "mwrite m a [] = m"
| "mwrite m a (b # bs) = mwrite (m(a := b)) (a + 1) bs"

text \<open>A little-endian 32-bit load, as the i386 does it.\<close>

definition load32 :: "mem \<Rightarrow> addr \<Rightarrow> u32" where
  "load32 m a = ucast (m a) OR push_bit 8 (ucast (m (a + 1)))
     OR push_bit 16 (ucast (m (a + 2))) OR push_bit 24 (ucast (m (a + 3)))"

lemma length_mread [simp]: "length (mread m a n) = n"
  by (simp add: mread_def)

lemma nth_mread [simp]: "i < n \<Longrightarrow> mread m a n ! i = m (a + int i)"
  by (simp add: mread_def)

lemma mwrite_outside: "x < a \<or> a + int (length bs) \<le> x \<Longrightarrow> mwrite m a bs x = m x"
  by (induction bs arbitrary: m a) auto

lemma mwrite_inside: "i < length bs \<Longrightarrow> mwrite m a bs (a + int i) = bs ! i"
proof (induction bs arbitrary: m a i)
  case Nil
  then show ?case by simp
next
  case (Cons b bs)
  show ?case
  proof (cases i)
    case 0
    then show ?thesis by (simp add: mwrite_outside)
  next
    case (Suc j)
    have "mwrite (m(a := b)) (a + 1) bs (a + 1 + int j) = bs ! j"
      using Cons.prems Suc by (intro Cons.IH) simp
    then show ?thesis by (simp add: Suc add.assoc)
  qed
qed

lemma mwrite_apply:
  "mwrite m a bs x = (if a \<le> x \<and> x < a + int (length bs) then bs ! nat (x - a) else m x)"
proof (cases "a \<le> x \<and> x < a + int (length bs)")
  case True
  then obtain i where i: "x = a + int i" and "i < length bs"
    using zle_iff_zadd [of a x] by auto
  then show ?thesis by (simp add: mwrite_inside)
next
  case False
  then show ?thesis by (auto simp: mwrite_outside)
qed

lemma mwrite_append: "mwrite m a (xs @ ys) = mwrite (mwrite m a xs) (a + int (length xs)) ys"
  by (induction xs arbitrary: m a) (auto simp: algebra_simps)

lemma mread_mwrite [simp]: "mread (mwrite m a bs) a (length bs) = bs"
  by (rule nth_equalityI) (auto simp: mwrite_inside)

lemma mread_cong: "(\<And>i. i < n \<Longrightarrow> m (a + int i) = m' (a + int i)) \<Longrightarrow> mread m a n = mread m' a n"
  by (simp add: mread_def)

lemma load32_cong:
  "m' a = m a \<Longrightarrow> m' (a + 1) = m (a + 1) \<Longrightarrow> m' (a + 2) = m (a + 2) \<Longrightarrow> m' (a + 3) = m (a + 3) \<Longrightarrow>
     load32 m' a = load32 m a"
  by (simp add: load32_def)

section \<open>Transition systems\<close>

inductive reach :: "('s \<Rightarrow> bool) \<Rightarrow> ('s \<Rightarrow> 's \<Rightarrow> bool) \<Rightarrow> 's \<Rightarrow> bool"
  for init :: "'s \<Rightarrow> bool" and step :: "'s \<Rightarrow> 's \<Rightarrow> bool" where
  reach_init: "init s \<Longrightarrow> reach init step s"
| reach_step: "reach init step s \<Longrightarrow> step s t \<Longrightarrow> reach init step t"

text \<open>
  What a component promises about its runs: an invariant that holds at the start and that
  every step keeps. The client of the interface gets it in every reachable state.
\<close>

locale inv_system =
  fixes init :: "'s \<Rightarrow> bool" and step :: "'s \<Rightarrow> 's \<Rightarrow> bool" and inv :: "'s \<Rightarrow> bool"
  assumes inv_init: "init s \<Longrightarrow> inv s"
    and inv_step: "inv s \<Longrightarrow> step s t \<Longrightarrow> inv t"
begin

lemma reach_inv: "reach init step s \<Longrightarrow> inv s"
proof (induction rule: reach.induct)
  case (reach_init s)
  then show ?case by (rule inv_init)
next
  case (reach_step s t)
  then show ?case by (blast intro: inv_step)
qed

lemma steps_inv: "step\<^sup>*\<^sup>* s t \<Longrightarrow> inv s \<Longrightarrow> inv t"
  by (induction rule: rtranclp.induct) (auto intro: inv_step)

end

end
