(* ===== verification/Machine.thy ===== *)
theory Machine
  imports Prelude
begin

text \<open>
  The machine under the kernel of \<^verbatim>\<open>mp3/student-distrib\<close>: port input and output, the interrupt
  flag and physical memory. It models the port macros and the \<open>cli\<close>/\<open>sti\<close> macros of
  \<^verbatim>\<open>lib.h\<close>. The devices behind the ports are hardware: an answer of \<open>inb\<close> is a parameter
  \<open>dev\<close>, a function of everything that went over the ports before. What the code relies on
  about a device is a named hypothesis of the theorems that need it.
\<close>

datatype io_event = Out u16 u8 | In u16

type_synonym device = "io_event list \<Rightarrow> u16 \<Rightarrow> u8"

record machine =
  io_hist :: "io_event list"
  int_flag :: bool
  phys :: mem

definition outb :: "u8 \<Rightarrow> u16 \<Rightarrow> 'a machine_scheme \<Rightarrow> 'a machine_scheme" where
  "outb data port s = s\<lparr>io_hist := io_hist s @ [Out port data]\<rparr>"

definition inb :: "device \<Rightarrow> u16 \<Rightarrow> 'a machine_scheme \<Rightarrow> u8 \<times> 'a machine_scheme" where
  "inb dev port s = (dev (io_hist s) port, s\<lparr>io_hist := io_hist s @ [In port]\<rparr>)"

definition cli :: "'a machine_scheme \<Rightarrow> 'a machine_scheme" where
  "cli s = s\<lparr>int_flag := False\<rparr>"

definition sti :: "'a machine_scheme \<Rightarrow> 'a machine_scheme" where
  "sti s = s\<lparr>int_flag := True\<rparr>"

lemma outb_frame [frame, simp]:
  "io_hist (outb v p s) = io_hist s @ [Out p v]"
  "int_flag (outb v p s) = int_flag s"
  "phys (outb v p s) = phys s"
  "machine.more (outb v p s) = machine.more s"
  by (simp_all add: outb_def)

lemma cli_frame [frame, simp]:
  "io_hist (cli s) = io_hist s" "phys (cli s) = phys s" "\<not> int_flag (cli s)"
  "machine.more (cli s) = machine.more s"
  by (simp_all add: cli_def)

lemma sti_frame [frame, simp]:
  "io_hist (sti s) = io_hist s" "phys (sti s) = phys s" "int_flag (sti s)"
  "machine.more (sti s) = machine.more s"
  by (simp_all add: sti_def)

end
