(* ===== verification/PIC.thy ===== *)
theory PIC
  imports Machine
begin

text \<open>
  The 8259 interrupt controller driver, \<^verbatim>\<open>mp3/student-distrib/i8259.c\<close>: initialisation of the
  master and the slave, masking and unmasking of one interrupt line, end of interrupt.
  The controller itself is hardware. \<open>pic_feed\<close> is what its data sheet says of the
  command and data ports (initialisation words, then the interrupt mask register), and the
  hypothesis \<open>pic_readback\<close> says that the device behind \<open>inb\<close> answers a data port with that
  mask register. The main result is a refinement: the driver's three operations act on the
  set of enabled lines as assignment, insertion and removal.
\<close>

section \<open>The driver\<close>

abbreviation MASTER_8259_PORT :: u16 where "MASTER_8259_PORT \<equiv> 0x20"
abbreviation SLAVE_8259_PORT :: u16 where "SLAVE_8259_PORT \<equiv> 0xA0"
abbreviation MASTER_8259_PORT_DATA :: u16 where "MASTER_8259_PORT_DATA \<equiv> 0x21"
abbreviation SLAVE_8259_PORT_DATA :: u16 where "SLAVE_8259_PORT_DATA \<equiv> 0xA1"

record pic = machine +
  master_mask :: u8
  slave_mask :: u8

definition io_wait :: "'a machine_scheme \<Rightarrow> 'a machine_scheme" where
  "io_wait s = outb 0 0x80 s"

definition enable_irq :: "device \<Rightarrow> u32 \<Rightarrow> 'a machine_scheme \<Rightarrow> 'a machine_scheme" where
  "enable_irq dev irq_num s =
     (if irq_num > 15 then s
      else let (port, num) = (if irq_num \<le> 7 then (MASTER_8259_PORT_DATA, irq_num)
                              else (SLAVE_8259_PORT_DATA, irq_num - 8));
               (v, s1) = inb dev port s;
               value = v AND NOT (push_bit (unat num) 1)
           in outb value port s1)"

definition disable_irq :: "device \<Rightarrow> u32 \<Rightarrow> 'a machine_scheme \<Rightarrow> 'a machine_scheme" where
  "disable_irq dev irq_num s =
     (if irq_num > 15 then s
      else let (port, num) = (if irq_num \<le> 7 then (MASTER_8259_PORT_DATA, irq_num)
                              else (SLAVE_8259_PORT_DATA, irq_num - 8));
               (v, s1) = inb dev port s;
               value = v OR push_bit (unat num) 1
           in outb value port s1)"

definition send_eoi :: "u32 \<Rightarrow> 'a machine_scheme \<Rightarrow> 'a machine_scheme" where
  "send_eoi irq_num s =
     (if irq_num > 15 then s
      else if irq_num \<le> 7 then outb (0x60 OR ucast irq_num) MASTER_8259_PORT s
      else outb (0x60 OR 2) MASTER_8259_PORT
             (outb (0x60 OR ucast (irq_num - 8)) SLAVE_8259_PORT s))"

definition i8259_init :: "device \<Rightarrow> 'a pic_scheme \<Rightarrow> 'a pic_scheme" where
  "i8259_init dev s =
     (let s = s\<lparr>master_mask := 0xFF, slave_mask := 0xFF\<rparr>;
          s = outb (master_mask s) MASTER_8259_PORT_DATA s;
          s = outb (slave_mask s) SLAVE_8259_PORT_DATA s;
          s = io_wait (outb 0x11 MASTER_8259_PORT s);
          s = io_wait (outb 0x11 SLAVE_8259_PORT s);
          s = io_wait (outb 0x20 MASTER_8259_PORT_DATA s);
          s = io_wait (outb 0x28 SLAVE_8259_PORT_DATA s);
          s = io_wait (outb 0x04 MASTER_8259_PORT_DATA s);
          s = io_wait (outb 0x02 SLAVE_8259_PORT_DATA s);
          s = io_wait (outb 0x01 MASTER_8259_PORT_DATA s);
          s = io_wait (outb 0x01 SLAVE_8259_PORT_DATA s);
          s = outb (master_mask s) MASTER_8259_PORT_DATA s;
          s = outb (slave_mask s) SLAVE_8259_PORT_DATA s
      in enable_irq dev 2 s)"

section \<open>The controller, from its data sheet\<close>

text \<open>
  One controller: how many initialisation words it still expects, the vector base, the
  mask register and the lines whose end of interrupt it received (specific EOI, 0x60 to 0x67).
\<close>

record pic_chip =
  icw_left :: nat
  vector_base :: u8
  imr :: u8
  eois :: "u8 list"

definition pic_feed :: "u16 \<Rightarrow> u16 \<Rightarrow> io_event \<Rightarrow> pic_chip \<Rightarrow> pic_chip" where
  "pic_feed cmd data e c =
     (case e of
        In _ \<Rightarrow> c
      | Out p v \<Rightarrow>
          if p = cmd then
            (if bit v 4 then c\<lparr>icw_left := 3, imr := 0\<rparr>
             else if v AND 0xF8 = 0x60 then c\<lparr>eois := eois c @ [v AND 7]\<rparr>
             else c)
          else if p = data then
            (if icw_left c = 3 then c\<lparr>icw_left := 2, vector_base := v\<rparr>
             else if icw_left c > 0 then c\<lparr>icw_left := icw_left c - 1\<rparr>
             else c\<lparr>imr := v\<rparr>)
          else c)"

definition power_on :: pic_chip where
  "power_on = \<lparr>icw_left = 0, vector_base = 0, imr = 0, eois = []\<rparr>"

definition master_chip :: "io_event list \<Rightarrow> pic_chip" where
  "master_chip h = fold (pic_feed MASTER_8259_PORT MASTER_8259_PORT_DATA) h power_on"

definition slave_chip :: "io_event list \<Rightarrow> pic_chip" where
  "slave_chip h = fold (pic_feed SLAVE_8259_PORT SLAVE_8259_PORT_DATA) h power_on"

definition pic_readback :: "device \<Rightarrow> bool" where
  "pic_readback dev \<longleftrightarrow>
     (\<forall>h. dev h MASTER_8259_PORT_DATA = imr (master_chip h)
        \<and> dev h SLAVE_8259_PORT_DATA = imr (slave_chip h))"

text \<open>A device for evaluation: the two controllers, and 0 on every other port.\<close>

definition pic_device :: device where
  "pic_device h p =
     (if p = MASTER_8259_PORT_DATA then imr (master_chip h)
      else if p = SLAVE_8259_PORT_DATA then imr (slave_chip h) else 0)"

definition operational :: "io_event list \<Rightarrow> bool" where
  "operational h \<longleftrightarrow> icw_left (master_chip h) = 0 \<and> icw_left (slave_chip h) = 0"

definition line_enabled :: "io_event list \<Rightarrow> nat \<Rightarrow> bool" where
  "line_enabled h n =
     (if n \<le> 7 then \<not> bit (imr (master_chip h)) n
      else n \<le> 15 \<and> \<not> bit (imr (slave_chip h)) (n - 8))"

definition enabled :: "io_event list \<Rightarrow> nat set" where
  "enabled h = {n. line_enabled h n}"

section \<open>Lemmas\<close>

lemma pic_device_readback: "pic_readback pic_device"
  by (simp add: pic_readback_def pic_device_def)

lemma io_wait_frame [frame, simp]: "io_hist (io_wait s) = io_hist s @ [Out 0x80 0]"
  by (simp add: io_wait_def)

lemma pic_frame [frame, simp]:
  "master_mask (outb v p s) = master_mask s" "slave_mask (outb v p s) = slave_mask s"
  "master_mask (io_wait s) = master_mask s" "slave_mask (io_wait s) = slave_mask s"
  by (simp_all add: outb_def io_wait_def)

lemma chip_append [simp]:
  "master_chip (h @ es) = fold (pic_feed MASTER_8259_PORT MASTER_8259_PORT_DATA) es (master_chip h)"
  "slave_chip (h @ es) = fold (pic_feed SLAVE_8259_PORT SLAVE_8259_PORT_DATA) es (slave_chip h)"
  by (simp_all add: master_chip_def slave_chip_def)

lemma pic_feed_In [simp]: "pic_feed cmd data (In p) c = c"
  by (simp add: pic_feed_def)

lemma bit_unset_u8:
  fixes v :: u8
  assumes "n < 8" and "k < 8"
  shows "bit (v AND NOT (2 ^ k)) n \<longleftrightarrow> bit v n \<and> n \<noteq> k"
  using assms by (auto simp: bit_simps)

lemma bit_set_u8:
  fixes v :: u8
  assumes "n < 8" and "k < 8"
  shows "bit (v OR 2 ^ k) n \<longleftrightarrow> bit v n \<or> n = k"
  using assms by (auto simp: bit_simps)

text \<open>One masked write: the chip that owns the port gets a new mask, the other is untouched.\<close>

lemma pic_feed_data:
  "icw_left c = 0 \<Longrightarrow> cmd \<noteq> data \<Longrightarrow> pic_feed cmd data (Out data v) c = c\<lparr>imr := v\<rparr>"
  by (simp add: pic_feed_def)

lemma pic_feed_other: "p \<noteq> cmd \<Longrightarrow> p \<noteq> data \<Longrightarrow> pic_feed cmd data (Out p v) c = c"
  by (simp add: pic_feed_def)

lemma irq_low: "n \<le> (7 :: u32) \<Longrightarrow> unat n \<le> 7"
  by (simp add: word_le_nat_alt)

lemma irq_high: "n \<le> (15 :: u32) \<Longrightarrow> \<not> n \<le> 7 \<Longrightarrow>
    unat (n - 8) = unat n - 8 \<and> 8 \<le> unat n \<and> unat n \<le> 15"
  by (simp add: word_le_nat_alt unat_sub_if' not_le)

lemma io_hist_enable_irq:
  "n \<le> 7 \<Longrightarrow> io_hist (enable_irq dev n s) = io_hist s @ [In MASTER_8259_PORT_DATA,
     Out MASTER_8259_PORT_DATA (dev (io_hist s) MASTER_8259_PORT_DATA AND NOT (push_bit (unat n) 1))]"
  "\<not> n \<le> 7 \<Longrightarrow> n \<le> 15 \<Longrightarrow> io_hist (enable_irq dev n s) = io_hist s @ [In SLAVE_8259_PORT_DATA,
     Out SLAVE_8259_PORT_DATA (dev (io_hist s) SLAVE_8259_PORT_DATA AND NOT (push_bit (unat n - 8) 1))]"
  using irq_high [of n] order_trans [of n 7 15] by (auto simp: enable_irq_def inb_def Let_def not_le)

lemma io_hist_disable_irq:
  "n \<le> 7 \<Longrightarrow> io_hist (disable_irq dev n s) = io_hist s @ [In MASTER_8259_PORT_DATA,
     Out MASTER_8259_PORT_DATA (dev (io_hist s) MASTER_8259_PORT_DATA OR push_bit (unat n) 1)]"
  "\<not> n \<le> 7 \<Longrightarrow> n \<le> 15 \<Longrightarrow> io_hist (disable_irq dev n s) = io_hist s @ [In SLAVE_8259_PORT_DATA,
     Out SLAVE_8259_PORT_DATA (dev (io_hist s) SLAVE_8259_PORT_DATA OR push_bit (unat n - 8) 1)]"
  using irq_high [of n] order_trans [of n 7 15] by (auto simp: disable_irq_def inb_def Let_def not_le)

lemma enable_irq_line:
  assumes dev: "pic_readback dev" and op: "operational (io_hist s)" and irq: "irq \<le> 15"
  shows "line_enabled (io_hist (enable_irq dev irq s)) n \<longleftrightarrow>
           line_enabled (io_hist s) n \<or> n = unat irq"
    and "operational (io_hist (enable_irq dev irq s))"
proof -
  let ?h = "io_hist s"
  have "(line_enabled (io_hist (enable_irq dev irq s)) n \<longleftrightarrow> line_enabled ?h n \<or> n = unat irq)
      \<and> operational (io_hist (enable_irq dev irq s))"
  proof (cases "irq \<le> 7")
    case True
    from irq_low [OF this] dev op show ?thesis
      by (auto simp: io_hist_enable_irq(1) [OF True] pic_feed_data pic_feed_other
          operational_def pic_readback_def line_enabled_def bit_unset_u8)
  next
    case False
    from irq_high [OF irq False] dev op show ?thesis
      by (auto simp: io_hist_enable_irq(2) [OF False irq] pic_feed_data pic_feed_other
          operational_def pic_readback_def line_enabled_def bit_unset_u8)
  qed
  then show "line_enabled (io_hist (enable_irq dev irq s)) n \<longleftrightarrow> line_enabled ?h n \<or> n = unat irq"
    and "operational (io_hist (enable_irq dev irq s))" by auto
qed

lemma disable_irq_line:
  assumes dev: "pic_readback dev" and op: "operational (io_hist s)" and irq: "irq \<le> 15"
  shows "line_enabled (io_hist (disable_irq dev irq s)) n \<longleftrightarrow>
           line_enabled (io_hist s) n \<and> n \<noteq> unat irq"
    and "operational (io_hist (disable_irq dev irq s))"
proof -
  let ?h = "io_hist s"
  have "(line_enabled (io_hist (disable_irq dev irq s)) n \<longleftrightarrow> line_enabled ?h n \<and> n \<noteq> unat irq)
      \<and> operational (io_hist (disable_irq dev irq s))"
  proof (cases "irq \<le> 7")
    case True
    from irq_low [OF this] dev op show ?thesis
      by (auto simp: io_hist_disable_irq(1) [OF True] pic_feed_data pic_feed_other
          operational_def pic_readback_def line_enabled_def bit_set_u8)
  next
    case False
    from irq_high [OF irq False] dev op show ?thesis
      by (auto simp: io_hist_disable_irq(2) [OF False irq] pic_feed_data pic_feed_other
          operational_def pic_readback_def line_enabled_def bit_set_u8)
  qed
  then show "line_enabled (io_hist (disable_irq dev irq s)) n \<longleftrightarrow> line_enabled ?h n \<and> n \<noteq> unat irq"
    and "operational (io_hist (disable_irq dev irq s))" by auto
qed

text \<open>The initialisation sequence leaves every line masked but the cascade line 2.\<close>

lemma i8259_init_chips:
  fixes s :: "'a pic_scheme"
  assumes "pic_readback dev"
  defines "h \<equiv> io_hist (i8259_init dev s)"
  shows "imr (master_chip h) = 0xFB" and "imr (slave_chip h) = 0xFF"
    and "icw_left (master_chip h) = 0" and "icw_left (slave_chip h) = 0"
    and "vector_base (master_chip h) = 0x20" and "vector_base (slave_chip h) = 0x28"
  unfolding h_def using assms(1)
  by (simp_all add: i8259_init_def Let_def io_hist_enable_irq pic_feed_def pic_readback_def)

lemma i8259_init_line:
  assumes "pic_readback dev"
  shows "line_enabled (io_hist (i8259_init dev s)) n \<longleftrightarrow> n = 2"
proof (cases "n \<le> 7")
  case True
  then consider "n = 0" | "n = 1" | "n = 2" | "n = 3" | "n = 4" | "n = 5" | "n = 6" | "n = 7"
    by linarith
  then show ?thesis
    by cases (simp_all add: line_enabled_def i8259_init_chips [OF assms])
next
  case False
  then show ?thesis
    by (auto simp: line_enabled_def i8259_init_chips [OF assms])
qed

section \<open>Properties\<close>

text \<open>
  C27. Masking: on controllers that have been initialised and that read their mask register
  back, \<open>enable_irq\<close> adds exactly the given line to the set of enabled lines, \<open>disable_irq\<close>
  removes exactly it, and both keep the controllers out of the initialisation sequence. A
  line number above 15 changes nothing and touches no port.
\<close>

theorem irq_mask_refines_set:
  assumes "pic_readback dev" and "operational (io_hist s)"
  shows "enabled (io_hist (enable_irq dev irq s)) =
           (if irq \<le> 15 then insert (unat irq) (enabled (io_hist s)) else enabled (io_hist s))
       \<and> enabled (io_hist (disable_irq dev irq s)) =
           (if irq \<le> 15 then enabled (io_hist s) - {unat irq} else enabled (io_hist s))
       \<and> operational (io_hist (enable_irq dev irq s))
       \<and> operational (io_hist (disable_irq dev irq s))
       \<and> (irq > 15 \<longrightarrow> enable_irq dev irq s = s \<and> disable_irq dev irq s = s)"
proof (cases "irq \<le> 15")
  case True
  with enable_irq_line [OF assms True] disable_irq_line [OF assms True] show ?thesis
    by (auto simp: enabled_def)
next
  case False
  then have "enable_irq dev irq s = s" "disable_irq dev irq s = s"
    by (simp_all add: enable_irq_def disable_irq_def not_le)
  with False assms(2) show ?thesis by simp
qed

theorem irq_mask_refines_set_witness:
  "enabled (io_hist (enable_irq pic_device 8
     (i8259_init pic_device \<lparr>io_hist = [], int_flag = False, phys = (\<lambda>_. 0),
        master_mask = 0, slave_mask = 0\<rparr>))) = {2, 8}"
proof -
  let ?s = "i8259_init pic_device \<lparr>io_hist = [], int_flag = False, phys = (\<lambda>_. 0),
        master_mask = 0, slave_mask = 0\<rparr>"
  note chips = i8259_init_chips [OF pic_device_readback]
  have op: "operational (io_hist ?s)"
    by (simp add: operational_def chips)
  have "enabled (io_hist ?s) = {2}"
    by (simp add: enabled_def i8259_init_line [OF pic_device_readback])
  with irq_mask_refines_set [OF pic_device_readback op, of 8] show ?thesis
    by (auto simp: insert_commute)
qed

text \<open>
  Initialisation: from any port history, \<open>i8259_init\<close> leaves both controllers
  operational with the vector bases 0x20 and 0x28 that \<open>idt_init\<close> uses, and with every line
  masked except the cascade line 2.
\<close>

theorem i8259_init_state:
  assumes "pic_readback dev"
  shows "operational (io_hist (i8259_init dev s))
       \<and> enabled (io_hist (i8259_init dev s)) = {2}
       \<and> vector_base (master_chip (io_hist (i8259_init dev s))) = 0x20
       \<and> vector_base (slave_chip (io_hist (i8259_init dev s))) = 0x28"
  by (simp_all add: operational_def enabled_def i8259_init_chips [OF assms]
      i8259_init_line [OF assms])

theorem i8259_init_state_witness:
  "enabled (io_hist (i8259_init pic_device \<lparr>io_hist = [Out 0x20 0x11], int_flag = True,
      phys = (\<lambda>_. 0), master_mask = 7, slave_mask = 9\<rparr>)) = {2}"
  using i8259_init_state [OF pic_device_readback] by blast

end
