(* ===== verification/KLib.thy ===== *)
theory KLib
  imports Prelude
begin

text \<open>
  The string, number and memory routines of \<^verbatim>\<open>mp3/student-distrib/lib.c\<close>: \<open>strlen\<close>,
  \<open>strncmp\<close>, \<open>strcpy\<close>, \<open>strncpy\<close>, \<open>strrev\<close>, \<open>itoa\<close>, \<open>memset\<close>, \<open>memset_word\<close>,
  \<open>memset_dword\<close>, \<open>memcpy\<close> and \<open>memmove\<close>, on flat memory. The last five are inline assembly
  in the source; the model follows the instructions (byte head, four-byte middle, byte tail,
  direction flag). A loop that need not end is \<open>partial_function (option)\<close>, and \<open>None\<close> is
  ``does not return''.

  The lemmas relate each routine to a reference on lists of bytes: C strings (\<open>cstr\<close>),
  digits in positional notation, and block reads and writes.
\<close>

section \<open>Strings\<close>

partial_function (option) strlen_loop :: "mem \<Rightarrow> addr \<Rightarrow> nat \<Rightarrow> nat option" where
  "strlen_loop m s len =
     (if m (s + int len) \<noteq> 0 then strlen_loop m s (Suc len) else Some len)"

definition strlen :: "mem \<Rightarrow> addr \<Rightarrow> nat option" where
  "strlen m s = strlen_loop m s 0"

text \<open>\<open>int8_t\<close> is \<open>char\<close>, which is signed on this target: the result is a difference of
  signed bytes. The second argument of the loop is \<open>i\<close>, the last one \<open>n - i\<close>.\<close>

fun strncmp_loop :: "mem \<Rightarrow> addr \<Rightarrow> addr \<Rightarrow> nat \<Rightarrow> nat \<Rightarrow> int" where
  "strncmp_loop m s1 s2 i 0 = 0"
| "strncmp_loop m s1 s2 i (Suc k) =
     (if m (s1 + int i) \<noteq> m (s2 + int i) \<or> m (s1 + int i) = 0
      then sint (m (s1 + int i)) - sint (m (s2 + int i))
      else strncmp_loop m s1 s2 (Suc i) k)"

definition strncmp :: "mem \<Rightarrow> addr \<Rightarrow> addr \<Rightarrow> nat \<Rightarrow> int" where
  "strncmp m s1 s2 n = strncmp_loop m s1 s2 0 n"

partial_function (option) strcpy_loop :: "mem \<Rightarrow> addr \<Rightarrow> addr \<Rightarrow> nat \<Rightarrow> mem option" where
  "strcpy_loop m dest src i =
     (if m (src + int i) \<noteq> 0
      then strcpy_loop (m(dest + int i := m (src + int i))) dest src (Suc i)
      else Some (m(dest + int i := 0)))"

definition strcpy :: "mem \<Rightarrow> addr \<Rightarrow> addr \<Rightarrow> mem option" where
  "strcpy m dest src = strcpy_loop m dest src 0"

function strncpy_copy :: "mem \<Rightarrow> addr \<Rightarrow> addr \<Rightarrow> nat \<Rightarrow> nat \<Rightarrow> mem \<times> nat" where
  "strncpy_copy m dest src n i =
     (if m (src + int i) \<noteq> 0 \<and> i < n
      then strncpy_copy (m(dest + int i := m (src + int i))) dest src n (Suc i)
      else (m, i))"
  by pat_completeness auto
termination
  by (relation "measure (\<lambda>(m, dest, src, n, i). n - i)") auto

function strncpy_pad :: "mem \<Rightarrow> addr \<Rightarrow> nat \<Rightarrow> nat \<Rightarrow> mem" where
  "strncpy_pad m dest n i =
     (if i < n then strncpy_pad (m(dest + int i := 0)) dest n (Suc i) else m)"
  by pat_completeness auto
termination
  by (relation "measure (\<lambda>(m, dest, n, i). n - i)") auto

definition strncpy :: "mem \<Rightarrow> addr \<Rightarrow> addr \<Rightarrow> nat \<Rightarrow> mem" where
  "strncpy m dest src n = (let (m, i) = strncpy_copy m dest src n 0 in strncpy_pad m dest n i)"

declare strncpy_copy.simps [simp del] strncpy_pad.simps [simp del]

function strrev_loop :: "mem \<Rightarrow> addr \<Rightarrow> int \<Rightarrow> int \<Rightarrow> mem" where
  "strrev_loop m s beg end =
     (if beg < end
      then strrev_loop (m(s + end := m (s + beg), s + beg := m (s + end))) s (beg + 1) (end - 1)
      else m)"
  by pat_completeness auto
termination
  by (relation "measure (\<lambda>(m, s, beg, end). nat (end - beg))") auto

declare strrev_loop.simps [simp del]

definition strrev :: "mem \<Rightarrow> addr \<Rightarrow> mem option" where
  "strrev m s = map_option (\<lambda>n. strrev_loop m s 0 (int n - 1)) (strlen m s)"

section \<open>Numbers\<close>

definition itoa_lookup :: "u8 list" where
  "itoa_lookup = map (of_nat \<circ> of_char) ''0123456789ABCDEFGHIJKLMNOPQRSTUVWXYZ''"

text \<open>
  \<open>radix\<close> is an \<open>int32_t\<close>, converted to unsigned by the arithmetic with \<open>newval\<close>. Radix 0
  divides by zero and radix 1 never ends: \<open>None\<close>. A digit outside the lookup table is a read
  past it, which has no defined result: also \<open>None\<close>.
\<close>

partial_function (option) itoa_loop :: "mem \<Rightarrow> addr \<Rightarrow> u32 \<Rightarrow> u32 \<Rightarrow> (mem \<times> addr) option" where
  "itoa_loop m newbuf newval radix =
     (if newval > 0
      then if radix = 0 \<or> unat (newval mod radix) \<ge> length itoa_lookup then None
           else itoa_loop (m(newbuf := itoa_lookup ! unat (newval mod radix)))
                  (newbuf + 1) (newval div radix) radix
      else Some (m, newbuf))"

definition itoa :: "mem \<Rightarrow> u32 \<Rightarrow> addr \<Rightarrow> u32 \<Rightarrow> mem option" where
  "itoa m value buf radix =
     (if value = 0 then Some (m(buf := 0x30, buf + 1 := 0))
      else Option.bind (itoa_loop m buf value radix)
             (\<lambda>(m, newbuf). strrev (m(newbuf := 0)) buf))"

section \<open>Memory blocks\<close>

text \<open>\<open>rep stosl\<close> and \<open>rep stosw\<close> with the direction flag clear; \<open>ecx\<close> counts down.\<close>

definition store32 :: "mem \<Rightarrow> addr \<Rightarrow> u32 \<Rightarrow> mem" where
  "store32 m a v = m(a := ucast v, a + 1 := ucast (drop_bit 8 v),
                     a + 2 := ucast (drop_bit 16 v), a + 3 := ucast (drop_bit 24 v))"

definition store16 :: "mem \<Rightarrow> addr \<Rightarrow> u32 \<Rightarrow> mem" where
  "store16 m a v = m(a := ucast v, a + 1 := ucast (drop_bit 8 v))"

fun rep_stosl :: "mem \<Rightarrow> addr \<Rightarrow> u32 \<Rightarrow> nat \<Rightarrow> mem \<times> addr" where
  "rep_stosl m edi eax 0 = (m, edi)"
| "rep_stosl m edi eax (Suc ecx) = rep_stosl (store32 m edi eax) (edi + 4) eax ecx"

fun rep_stosw :: "mem \<Rightarrow> addr \<Rightarrow> u32 \<Rightarrow> nat \<Rightarrow> mem \<times> addr" where
  "rep_stosw m edi eax 0 = (m, edi)"
| "rep_stosw m edi eax (Suc ecx) = rep_stosw (store16 m edi eax) (edi + 2) eax ecx"

fun memset_bottom :: "mem \<Rightarrow> addr \<Rightarrow> u32 \<Rightarrow> nat \<Rightarrow> mem" where
  "memset_bottom m edi eax 0 = m"
| "memset_bottom m edi eax (Suc edx) = memset_bottom (m(edi := ucast eax)) (edi + 1) eax edx"

fun memset_top :: "mem \<Rightarrow> addr \<Rightarrow> u32 \<Rightarrow> nat \<Rightarrow> mem" where
  "memset_top m edi eax 0 = m"
| "memset_top m edi eax (Suc k) =
     (if edi mod 4 = 0
      then let ecx = Suc k; edx = ecx mod 4; (m, edi) = rep_stosl m edi eax (ecx div 4)
           in memset_bottom m edi eax edx
      else memset_top (m(edi := ucast eax)) (edi + 1) eax k)"

definition memset :: "mem \<Rightarrow> addr \<Rightarrow> u32 \<Rightarrow> nat \<Rightarrow> mem" where
  "memset m s c n =
     (let c = c AND 0xFF
      in memset_top m s (push_bit 24 c OR push_bit 16 c OR push_bit 8 c OR c) n)"

definition memset_word :: "mem \<Rightarrow> addr \<Rightarrow> u32 \<Rightarrow> nat \<Rightarrow> mem" where
  "memset_word m s c n = fst (rep_stosw m s c n)"

definition memset_dword :: "mem \<Rightarrow> addr \<Rightarrow> u32 \<Rightarrow> nat \<Rightarrow> mem" where
  "memset_dword m s c n = fst (rep_stosl m s c n)"

text \<open>\<open>rep movsl\<close> moves four bytes at a time: it reads all four before it writes them.\<close>

fun rep_movsl :: "mem \<Rightarrow> addr \<Rightarrow> addr \<Rightarrow> nat \<Rightarrow> mem \<times> addr \<times> addr" where
  "rep_movsl m edi esi 0 = (m, edi, esi)"
| "rep_movsl m edi esi (Suc ecx) =
     rep_movsl (mwrite m edi (mread m esi 4)) (edi + 4) (esi + 4) ecx"

fun memcpy_bottom :: "mem \<Rightarrow> addr \<Rightarrow> addr \<Rightarrow> nat \<Rightarrow> mem" where
  "memcpy_bottom m edi esi 0 = m"
| "memcpy_bottom m edi esi (Suc edx) = memcpy_bottom (m(edi := m esi)) (edi + 1) (esi + 1) edx"

fun memcpy_top :: "mem \<Rightarrow> addr \<Rightarrow> addr \<Rightarrow> nat \<Rightarrow> mem" where
  "memcpy_top m edi esi 0 = m"
| "memcpy_top m edi esi (Suc k) =
     (if edi mod 4 = 0
      then let ecx = Suc k; edx = ecx mod 4; (m, edi, esi) = rep_movsl m edi esi (ecx div 4)
           in memcpy_bottom m edi esi edx
      else memcpy_top (m(edi := m esi)) (edi + 1) (esi + 1) k)"

definition memcpy :: "mem \<Rightarrow> addr \<Rightarrow> addr \<Rightarrow> nat \<Rightarrow> mem" where
  "memcpy m dest src n = memcpy_top m dest src n"

text \<open>\<open>rep movsb\<close> under the direction flag \<open>df\<close>.\<close>

fun rep_movsb :: "mem \<Rightarrow> bool \<Rightarrow> addr \<Rightarrow> addr \<Rightarrow> nat \<Rightarrow> mem" where
  "rep_movsb m df edi esi 0 = m"
| "rep_movsb m df edi esi (Suc ecx) =
     (let d = (if df then -1 else 1)
      in rep_movsb (m(edi := m esi)) df (edi + d) (esi + d) ecx)"

text \<open>The result carries the direction flag with which \<open>memmove\<close> returns.\<close>

definition memmove :: "mem \<Rightarrow> addr \<Rightarrow> addr \<Rightarrow> nat \<Rightarrow> mem \<times> bool" where
  "memmove m dest src n =
     (if src \<ge> dest then (rep_movsb m False dest src n, False)
      else (rep_movsb m True (dest + int n - 1) (src + int n - 1) n, True))"

section \<open>C strings\<close>

text \<open>\<open>cstr m a xs\<close>: the NUL-terminated string at \<open>a\<close> is \<open>xs\<close>.\<close>

fun cstr :: "mem \<Rightarrow> addr \<Rightarrow> u8 list \<Rightarrow> bool" where
  "cstr m a [] \<longleftrightarrow> m a = 0"
| "cstr m a (x # xs) \<longleftrightarrow> m a = x \<and> x \<noteq> 0 \<and> cstr m (a + 1) xs"

lemma cstr_iff:
  "cstr m a xs \<longleftrightarrow> (\<forall>i < length xs. m (a + int i) = xs ! i) \<and> 0 \<notin> set xs
     \<and> m (a + int (length xs)) = 0"
proof (induction xs arbitrary: a)
  case Nil
  then show ?case by simp
next
  case (Cons x xs)
  have "(\<forall>i < length (x # xs). m (a + int i) = (x # xs) ! i) \<longleftrightarrow>
      m a = x \<and> (\<forall>i < length xs. m (a + 1 + int i) = xs ! i)"
    by (auto simp: less_Suc_eq_0_disj add.assoc)
  with Cons.IH [of "a + 1"] show ?case by (auto simp: add.assoc add.commute add.left_commute)
qed

lemma cstr_mwrite: "0 \<notin> set xs \<Longrightarrow> cstr (mwrite m a (xs @ [0])) a xs"
  by (simp add: cstr_iff mwrite_apply nth_append)

lemma strlen_loop_eq:
  "cstr m (s + int k) xs \<Longrightarrow> strlen_loop m s k = Some (k + length xs)"
proof (induction xs arbitrary: k)
  case Nil
  then show ?case by (simp add: strlen_loop.simps)
next
  case (Cons x xs)
  then have "strlen_loop m s (Suc k) = Some (Suc k + length xs)"
    by (intro Cons.IH) (simp add: ac_simps)
  with Cons.prems show ?case by (subst strlen_loop.simps) simp
qed

lemma strlen_cstr: "cstr m s xs \<Longrightarrow> strlen m s = Some (length xs)"
  using strlen_loop_eq [of m s 0 xs] by (simp add: strlen_def)

section \<open>Comparison\<close>

definition cprefix :: "mem \<Rightarrow> addr \<Rightarrow> nat \<Rightarrow> u8 list" where
  "cprefix m a n = takeWhile (\<lambda>b. b \<noteq> 0) (mread m a n)"

lemma mread_Suc: "mread m a (Suc n) = m a # mread m (a + 1) n"
  by (simp add: mread_def upt_conv_Cons map_Suc_upt [symmetric] del: upt_Suc)
     (simp add: add.assoc)

lemma cprefix_0 [simp]: "cprefix m a 0 = []"
  by (simp add: cprefix_def mread_def)

lemma cprefix_Suc: "cprefix m a (Suc n) = (if m a = 0 then [] else m a # cprefix m (a + 1) n)"
  by (simp add: cprefix_def mread_Suc)

lemma sint_eq_iff: "sint (a :: u8) = sint b \<longleftrightarrow> a = b"
  by (auto intro: signed_word_eqI)

lemma strncmp_loop_zero_iff:
  "strncmp_loop m s1 s2 i k = 0 \<longleftrightarrow> cprefix m (s1 + int i) k = cprefix m (s2 + int i) k"
proof (induction k arbitrary: i)
  case 0
  then show ?case by simp
next
  case (Suc k)
  have "sint (m (s1 + int i)) - sint (m (s2 + int i)) = 0 \<longleftrightarrow> m (s1 + int i) = m (s2 + int i)"
    by (simp add: sint_eq_iff)
  with Suc [of "Suc i"] show ?case by (auto simp: cprefix_Suc ac_simps)
qed

lemma strncmp_loop_less_iff:
  "strncmp_loop m s1 s2 i k < 0 \<longleftrightarrow>
     (\<exists>j < k. (\<forall>l < j. m (s1 + int (i + l)) = m (s2 + int (i + l)) \<and> m (s1 + int (i + l)) \<noteq> 0)
        \<and> sint (m (s1 + int (i + j))) < sint (m (s2 + int (i + j))))"
proof (induction k arbitrary: i)
  case 0
  then show ?case by simp
next
  case (Suc k)
  show ?case
    by (auto simp: Suc.IH Ex_less_Suc2 All_less_Suc2 ac_simps)
qed

section \<open>Reversal and digits\<close>

lemma strrev_loop_apply:
  "strrev_loop m s b e x =
     (if s + b \<le> x \<and> x \<le> s + e then m (2 * s + b + e - x) else m x)"
proof (induction m s b e rule: strrev_loop.induct)
  case (1 m s b e)
  show ?case
  proof (cases "b < e")
    case True
    let ?m = "m(s + e := m (s + b), s + b := m (s + e))"
    have "strrev_loop m s b e x = strrev_loop ?m s (b + 1) (e - 1) x"
      by (subst strrev_loop.simps) (simp add: True)
    also have "\<dots> = (if s + (b + 1) \<le> x \<and> x \<le> s + (e - 1)
        then ?m (2 * s + (b + 1) + (e - 1) - x) else ?m x)"
      by (rule 1 [OF True])
    also have "\<dots> = (if s + b \<le> x \<and> x \<le> s + e then m (2 * s + b + e - x) else m x)"
      using True by (auto simp: add.assoc)
    finally show ?thesis .
  next
    case False
    then show ?thesis
      by (auto simp: strrev_loop.simps [of m s b e] intro: arg_cong [where f = m])
  qed
qed

lemma strrev_cstr:
  assumes "cstr m s xs"
  shows "strrev m s = Some (mwrite m s (rev xs))"
proof -
  have "strrev_loop m s 0 (int (length xs) - 1) x = mwrite m s (rev xs) x" for x
  proof (cases "s \<le> x \<and> x < s + int (length xs)")
    case True
    then obtain i where i: "x = s + int i" "i < length xs"
      using zle_iff_zadd [of s x] by auto
    then have "2 * s + 0 + (int (length xs) - 1) - x = s + int (length xs - Suc i)" by auto
    with i assms show ?thesis
      by (auto simp: strrev_loop_apply mwrite_inside rev_nth cstr_iff simp flip: of_nat_diff)
  next
    case False
    then show ?thesis by (auto simp: strrev_loop_apply mwrite_outside)
  qed
  then show ?thesis by (auto simp: strrev_def strlen_cstr [OF assms])
qed

text \<open>The digits of a number, least significant first, as the loop produces them.\<close>

fun ldigits :: "nat \<Rightarrow> nat \<Rightarrow> nat list" where
  "ldigits r v = (if v = 0 \<or> r < 2 then [] else v mod r # ldigits r (v div r))"

declare ldigits.simps [simp del]

text \<open>Reading a numeral back: most significant digit first.\<close>

definition numeral_value :: "nat \<Rightarrow> nat list \<Rightarrow> nat" where
  "numeral_value r ds = foldl (\<lambda>acc d. acc * r + d) 0 ds"

definition itoa_digits :: "nat \<Rightarrow> nat \<Rightarrow> nat list" where
  "itoa_digits r v = (if v = 0 then [0] else rev (ldigits r v))"

lemma length_itoa_lookup [simp]: "length itoa_lookup = 36"
  by (simp add: itoa_lookup_def)

lemma itoa_lookup_nonzero: "d < 36 \<Longrightarrow> itoa_lookup ! d \<noteq> 0"
proof -
  have "0 \<notin> set itoa_lookup" by (simp add: itoa_lookup_def)
  then show "d < 36 \<Longrightarrow> itoa_lookup ! d \<noteq> 0" by (metis length_itoa_lookup nth_mem)
qed

lemma itoa_lookup_inj: "inj_on ((!) itoa_lookup) {..<36}"
proof -
  have "distinct itoa_lookup" by (simp add: itoa_lookup_def)
  then show ?thesis by (auto simp: inj_on_def nth_eq_iff_index_eq)
qed

lemma ldigits_less: "d \<in> set (ldigits r v) \<Longrightarrow> d < r"
proof (induction r v rule: ldigits.induct)
  case (1 r v)
  then show ?case by (subst (asm) (2) ldigits.simps) (auto split: if_splits)
qed

lemma numeral_value_rev_ldigits: "2 \<le> r \<Longrightarrow> numeral_value r (rev (ldigits r v)) = v"
proof (induction r v rule: ldigits.induct)
  case (1 r v)
  then show ?case by (subst ldigits.simps) (auto simp: numeral_value_def)
qed

lemma length_ldigits: "v < r ^ k \<Longrightarrow> length (ldigits r v) \<le> k"
proof (induction k arbitrary: v)
  case 0
  then show ?case by (simp add: ldigits.simps)
next
  case (Suc k)
  then have "v div r < r ^ k" by (simp add: less_mult_imp_div_less mult.commute)
  with Suc.IH show ?case by (subst ldigits.simps) auto
qed

lemma unat_div_u32: "unat ((a :: u32) div b) = unat a div unat b"
  by (simp add: unat_div)

lemma unat_mod_u32: "unat ((a :: u32) mod b) = unat a mod unat b"
  by (simp add: unat_mod)

lemma itoa_loop_eq:
  assumes "2 \<le> unat radix" and "unat radix \<le> 36"
  shows "itoa_loop m nb v radix =
     Some (mwrite m nb (map ((!) itoa_lookup) (ldigits (unat radix) (unat v))),
           nb + int (length (ldigits (unat radix) (unat v))))"
proof (induction "unat v" arbitrary: v m nb rule: less_induct)
  case less
  show ?case
  proof (cases "v = 0")
    case True
    then show ?thesis by (simp add: itoa_loop.simps ldigits.simps)
  next
    case False
    then have pos: "0 < unat v" by (simp add: unat_gt_0)
    have dec: "unat (v div radix) < unat v"
      using assms pos by (simp add: unat_div_u32)
    have idx: "unat (v mod radix) < 36"
    proof -
      have "unat v mod unat radix < unat radix" using assms(1) by (intro mod_less_divisor) simp
      with assms(2) show ?thesis by (simp add: unat_mod_u32)
    qed
    have "itoa_loop m nb v radix =
        itoa_loop (m(nb := itoa_lookup ! unat (v mod radix))) (nb + 1) (v div radix) radix"
      using False idx assms by (subst itoa_loop.simps) (auto simp: word_gt_0)
    also have "\<dots> = Some (mwrite (m(nb := itoa_lookup ! unat (v mod radix))) (nb + 1)
          (map ((!) itoa_lookup) (ldigits (unat radix) (unat (v div radix)))),
        nb + 1 + int (length (ldigits (unat radix) (unat (v div radix)))))"
      by (rule less.hyps [OF dec])
    finally show ?thesis
      using pos assms by (simp add: ldigits.simps [of _ "unat v"] unat_div_u32 unat_mod_u32)
  qed
qed

lemma itoa_digits_less: "2 \<le> r \<Longrightarrow> d \<in> set (itoa_digits r v) \<Longrightarrow> d < r"
  by (auto simp: itoa_digits_def split: if_splits dest: ldigits_less)

lemma itoa_digits_nonzero:
  assumes "2 \<le> r" and "r \<le> 36"
  shows "0 \<notin> set (map ((!) itoa_lookup) (itoa_digits r v))"
proof -
  have "itoa_lookup ! d \<noteq> 0" if "d \<in> set (itoa_digits r v)" for d
    using itoa_digits_less [OF assms(1) that] assms(2) by (intro itoa_lookup_nonzero) simp
  then show ?thesis by force
qed

lemma itoa_eq:
  assumes "2 \<le> unat radix" and "unat radix \<le> 36"
  shows "itoa m v buf radix =
     Some (mwrite m buf (map ((!) itoa_lookup) (itoa_digits (unat radix) (unat v)) @ [0]))"
proof (cases "v = 0")
  case True
  have "itoa_lookup ! 0 = 0x30" by (simp add: itoa_lookup_def)
  with True show ?thesis by (simp add: itoa_def itoa_digits_def)
next
  case False
  let ?ds = "map ((!) itoa_lookup) (ldigits (unat radix) (unat v))"
  let ?m = "mwrite m buf (?ds @ [0])"
  have nz: "0 \<notin> set ?ds"
    using itoa_digits_nonzero [OF assms, of "unat v"] False
    by (simp add: itoa_digits_def unat_eq_zero)
  have "strrev ?m buf = Some (mwrite ?m buf (rev ?ds))"
    by (rule strrev_cstr [OF cstr_mwrite [OF nz]])
  moreover have "mwrite ?m buf (rev ?ds) = mwrite m buf (rev ?ds @ [0])"
    by (rule ext) (auto simp: mwrite_apply nth_append)
  ultimately show ?thesis
    using False by (simp add: itoa_def itoa_loop_eq [OF assms] mwrite_append
        itoa_digits_def unat_eq_zero rev_map)
qed

section \<open>Block operations\<close>

lemma mwrite_replicate_Suc: "mwrite m a (replicate (Suc n) b) = mwrite (m(a := b)) (a + 1) (replicate n b)"
  by simp

lemma memset_bottom_eq: "memset_bottom m a eax n = mwrite m a (replicate n (ucast eax))"
  by (induction n arbitrary: m a) auto

lemma rep_stosl_eq:
  "rep_stosl m a v n = (mwrite m a (concat (replicate n
     [ucast v, ucast (drop_bit 8 v), ucast (drop_bit 16 v), ucast (drop_bit 24 v)])), a + 4 * int n)"
  by (induction n arbitrary: m a) (auto simp: store32_def add.assoc)

lemma rep_stosw_eq:
  "rep_stosw m a v n =
     (mwrite m a (concat (replicate n [ucast v, ucast (drop_bit 8 v)])), a + 2 * int n)"
  by (induction n arbitrary: m a) (auto simp: store16_def add.assoc)

lemma concat_replicate4: "concat (replicate n [b, b, b, b]) = replicate (4 * n) b"
  by (induction n) (auto simp: numeral_eq_Suc)

lemma memset_top_eq:
  assumes "ucast (drop_bit 8 eax) = (ucast eax :: u8)" and "ucast (drop_bit 16 eax) = (ucast eax :: u8)"
    and "ucast (drop_bit 24 eax) = (ucast eax :: u8)"
  shows "memset_top m a eax n = mwrite m a (replicate n (ucast eax))"
proof (induction n arbitrary: m a)
  case 0
  then show ?case by simp
next
  case (Suc k)
  show ?case
  proof (cases "a mod 4 = 0")
    case True
    let ?q = "Suc k div 4" and ?r = "Suc k mod 4" and ?b = "ucast eax :: u8"
    have n: "replicate (Suc k) ?b = replicate (4 * ?q) ?b @ replicate ?r ?b"
      by (simp only: mult_div_mod_eq flip: replicate_add)
    have "memset_top m a eax (Suc k) =
        memset_bottom (mwrite m a (replicate (4 * ?q) ?b)) (a + 4 * int ?q) eax ?r"
      using True assms by (simp add: rep_stosl_eq concat_replicate4 Let_def)
    then show ?thesis
      by (simp only: n memset_bottom_eq mwrite_append length_replicate) (simp only: of_nat_mult of_nat_numeral)
  next
    case False
    with Suc.IH [of "m(a := ucast eax)" "a + 1"] show ?thesis by (simp del: fun_upd_apply)
  qed
qed

lemma memset_eq: "memset m s c n = mwrite m s (replicate n (ucast c))"
proof -
  let ?c = "c AND 0xFF"
  let ?e = "push_bit 24 ?c OR push_bit 16 ?c OR push_bit 8 ?c OR ?c"
  have e: "ucast ?e = (ucast c :: u8)"
    by (rule bit_word_eqI) (auto simp: bit_simps)
  have "ucast (drop_bit 8 ?e) = (ucast c :: u8)" "ucast (drop_bit 16 ?e) = (ucast c :: u8)"
    "ucast (drop_bit 24 ?e) = (ucast c :: u8)"
    by (rule bit_word_eqI; auto simp: bit_simps)+
  then have "memset_top m s ?e n = mwrite m s (replicate n (ucast ?e))"
    by (intro memset_top_eq) (simp_all only: e)
  then show ?thesis by (simp only: memset_def Let_def e)
qed

text \<open>Copying forward in two blocks is copying in one, when no source byte is overwritten
  before it is read.\<close>

definition copy_safe :: "addr \<Rightarrow> addr \<Rightarrow> nat \<Rightarrow> bool" where
  "copy_safe d s n \<longleftrightarrow> d \<le> s \<or> s + int n \<le> d"

lemma copy_split:
  assumes "copy_safe d s (c + k)"
  shows "mwrite (mwrite m d (mread m s c)) (d + int c)
           (mread (mwrite m d (mread m s c)) (s + int c) k) = mwrite m d (mread m s (c + k))"
proof -
  have "mread (mwrite m d (mread m s c)) (s + int c) k = mread m (s + int c) k"
    using assms by (intro mread_cong) (auto simp: copy_safe_def mwrite_apply)
  moreover have "mread m s (c + k) = mread m s c @ mread m (s + int c) k"
    by (rule nth_equalityI) (auto simp: nth_append add.assoc)
  ultimately show ?thesis by (simp add: mwrite_append)
qed

lemma mread_1: "mread m s 1 = [m s]"
  by (simp add: mread_def)

lemma copy_safe_shift: "copy_safe d s (c + k) \<Longrightarrow> copy_safe (d + int c) (s + int c) k"
  by (auto simp: copy_safe_def)

lemma copy_split_Suc:
  "copy_safe d s (Suc n) \<Longrightarrow>
     mwrite (m(d := m s)) (d + 1) (mread (m(d := m s)) (s + 1) n) = mwrite m d (mread m s (Suc n))"
  using copy_split [of d s 1 n m] by (simp add: mread_1 del: fun_upd_apply One_nat_def) simp

lemma copy_safe_Suc: "copy_safe d s (Suc n) \<Longrightarrow> copy_safe (d + 1) (s + 1) n"
  by (auto simp: copy_safe_def)

lemma memcpy_bottom_eq: "copy_safe d s n \<Longrightarrow> memcpy_bottom m d s n = mwrite m d (mread m s n)"
proof (induction n arbitrary: m d s)
  case 0
  then show ?case by (simp add: mread_def)
next
  case (Suc n)
  with Suc.IH [of "d + 1" "s + 1" "m(d := m s)"] copy_split_Suc [of d s n m] copy_safe_Suc
  show ?case by (simp del: fun_upd_apply)
qed

lemma rep_movsl_eq:
  "copy_safe d s (4 * n) \<Longrightarrow>
     rep_movsl m d s n = (mwrite m d (mread m s (4 * n)), d + 4 * int n, s + 4 * int n)"
proof (induction n arbitrary: m d s)
  case 0
  then show ?case by (simp add: mread_def)
next
  case (Suc n)
  with copy_safe_shift [of d s 4 "4 * n"] copy_split [of d s 4 "4 * n" m] show ?case
    by (simp add: add.assoc)
qed

lemma memcpy_top_eq: "copy_safe d s n \<Longrightarrow> memcpy_top m d s n = mwrite m d (mread m s n)"
proof (induction n arbitrary: m d s)
  case 0
  then show ?case by (simp add: mread_def)
next
  case (Suc k)
  show ?case
  proof (cases "d mod 4 = 0")
    case True
    let ?q = "Suc k div 4" and ?r = "Suc k mod 4"
    have n: "4 * ?q + ?r = Suc k" by simp
    have safe: "copy_safe d s (4 * ?q + ?r)" by (simp only: n Suc.prems)
    then have "copy_safe d s (4 * ?q)" "copy_safe (d + 4 * int ?q) (s + 4 * int ?q) ?r"
      by (auto simp: copy_safe_def)
    then have "memcpy_top m d s (Suc k) =
        mwrite (mwrite m d (mread m s (4 * ?q))) (d + 4 * int ?q)
          (mread (mwrite m d (mread m s (4 * ?q))) (s + 4 * int ?q) ?r)"
      using True by (simp add: rep_movsl_eq memcpy_bottom_eq Let_def)
    also have "\<dots> = mwrite m d (mread m s (4 * ?q + ?r))"
      using copy_split [OF safe, of m] by (simp only: of_nat_mult of_nat_numeral)
    finally show ?thesis by (simp only: n)
  next
    case False
    with Suc.IH [of "d + 1" "s + 1" "m(d := m s)"] Suc.prems copy_split_Suc [of d s k m] copy_safe_Suc
    show ?thesis by (simp del: fun_upd_apply)
  qed
qed

lemma rep_movsb_forward:
  "d \<le> s \<Longrightarrow> rep_movsb m False d s n = mwrite m d (mread m s n)"
proof (induction n arbitrary: m d s)
  case 0
  then show ?case by (simp add: mread_def)
next
  case (Suc n)
  then have "copy_safe d s (Suc n)" by (simp add: copy_safe_def)
  with Suc.IH [of "d + 1" "s + 1" "m(d := m s)"] Suc.prems copy_split_Suc [of d s n m]
  show ?case by (simp add: Let_def del: fun_upd_apply)
qed

lemma rep_movsb_backward:
  "s < d \<Longrightarrow> rep_movsb m True (d + int n - 1) (s + int n - 1) n x =
     (if d \<le> x \<and> x < d + int n then m (s + (x - d)) else m x)"
proof (induction n arbitrary: m)
  case 0
  then show ?case by auto
next
  case (Suc n)
  let ?m = "m(d + int n := m (s + int n))"
  have "rep_movsb m True (d + int (Suc n) - 1) (s + int (Suc n) - 1) (Suc n) x =
      rep_movsb ?m True (d + int n - 1) (s + int n - 1) n x"
    by (simp add: Let_def del: fun_upd_apply)
  also have "\<dots> = (if d \<le> x \<and> x < d + int n then ?m (s + (x - d)) else ?m x)"
    by (rule Suc.IH [OF Suc.prems])
  also have "\<dots> = (if d \<le> x \<and> x < d + int (Suc n) then m (s + (x - d)) else m x)"
    using Suc.prems by auto
  finally show ?case .
qed

lemma memmove_eq: "fst (memmove m d s n) = mwrite m d (mread m s n)"
proof (cases "d \<le> s")
  case True
  then show ?thesis by (simp add: memmove_def rep_movsb_forward)
next
  case False
  have "rep_movsb m True (d + int n - 1) (s + int n - 1) n x = mwrite m d (mread m s n) x" for x
  proof (cases "d \<le> x \<and> x < d + int n")
    case True
    then obtain i where "x = d + int i" "i < n" using zle_iff_zadd [of d x] by auto
    with False show ?thesis by (simp add: rep_movsb_backward mwrite_inside)
  next
    case outside: False
    with False show ?thesis by (auto simp: rep_movsb_backward mwrite_outside)
  qed
  with False show ?thesis by (auto simp: memmove_def)
qed

section \<open>String copies\<close>

lemma cstr_upd_outside:
  "x < a \<or> a + int (length xs) < x \<Longrightarrow> cstr (m(x := v)) a xs \<longleftrightarrow> cstr m a xs"
  by (induction xs arbitrary: a) auto

lemma strcpy_loop_eq:
  "cstr m (src + int i) xs \<Longrightarrow> copy_safe dest src (i + length xs + 1) \<Longrightarrow>
     strcpy_loop m dest src i = Some (mwrite m (dest + int i) (xs @ [0]))"
proof (induction xs arbitrary: m i)
  case Nil
  then show ?case by (subst strcpy_loop.simps) (simp del: fun_upd_apply)
next
  case (Cons x xs)
  let ?m = "m(dest + int i := x)"
  have "cstr ?m (src + int (Suc i)) xs"
    using Cons.prems by (subst cstr_upd_outside) (auto simp: copy_safe_def ac_simps)
  then have "strcpy_loop ?m dest src (Suc i) = Some (mwrite ?m (dest + int (Suc i)) (xs @ [0]))"
    using Cons.prems by (intro Cons.IH) (simp_all del: fun_upd_apply)
  moreover have "strcpy_loop m dest src i = strcpy_loop ?m dest src (Suc i)"
    using Cons.prems by (subst strcpy_loop.simps) (simp del: fun_upd_apply)
  ultimately show ?case by (simp add: ac_simps del: fun_upd_apply)
qed

lemma strcpy_eq:
  "cstr m src xs \<Longrightarrow> copy_safe dest src (length xs + 1) \<Longrightarrow>
     strcpy m dest src = Some (mwrite m dest (xs @ [0]))"
  using strcpy_loop_eq [of m src 0 xs dest] by (simp add: strcpy_def)

lemma strncpy_pad_eq: "i \<le> n \<Longrightarrow> strncpy_pad m dest n i = mwrite m (dest + int i) (replicate (n - i) 0)"
proof (induction m dest n i rule: strncpy_pad.induct)
  case (1 m dest n i)
  show ?case
  proof (cases "i < n")
    case True
    then have "n - i = Suc (n - Suc i)" by simp
    with 1 True show ?thesis
      by (subst strncpy_pad.simps) (simp add: ac_simps del: fun_upd_apply)
  next
    case False
    then show ?thesis by (subst strncpy_pad.simps) simp
  qed
qed

lemma strncpy_copy_eq:
  "cstr m (src + int i) xs \<Longrightarrow> copy_safe dest src (i + length xs + 1) \<Longrightarrow> i \<le> n \<Longrightarrow>
     strncpy_copy m dest src n i =
       (mwrite m (dest + int i) (take (n - i) xs), i + min (n - i) (length xs))"
proof (induction xs arbitrary: m i)
  case Nil
  then show ?case by (subst strncpy_copy.simps) simp
next
  case (Cons x xs)
  show ?case
  proof (cases "i < n")
    case False
    with Cons.prems show ?thesis by (subst strncpy_copy.simps) simp
  next
    case True
    let ?m = "m(dest + int i := x)"
    have "cstr ?m (src + int (Suc i)) xs"
      using Cons.prems by (subst cstr_upd_outside) (auto simp: copy_safe_def ac_simps)
    then have "strncpy_copy ?m dest src n (Suc i) =
        (mwrite ?m (dest + int (Suc i)) (take (n - Suc i) xs), Suc i + min (n - Suc i) (length xs))"
      using Cons.prems True by (intro Cons.IH) (simp_all del: fun_upd_apply)
    moreover have "strncpy_copy m dest src n i = strncpy_copy ?m dest src n (Suc i)"
      using Cons.prems True by (subst strncpy_copy.simps) (simp del: fun_upd_apply)
    moreover have "n - i = Suc (n - Suc i)" using True by simp
    ultimately show ?thesis by (simp add: ac_simps del: fun_upd_apply)
  qed
qed

lemma strncpy_eq:
  assumes "cstr m src xs" and "copy_safe dest src (length xs + 1)"
  shows "strncpy m dest src n = mwrite m dest (take n xs @ replicate (n - length xs) 0)"
proof -
  have "strncpy_copy m dest src n 0 = (mwrite m dest (take n xs), min n (length xs))"
    using strncpy_copy_eq [of m src 0 xs dest n] assms by simp
  moreover have "n - min n (length xs) = n - length xs" by simp
  ultimately show ?thesis
    by (simp add: strncpy_def strncpy_pad_eq mwrite_append min.commute)
qed

section \<open>Properties\<close>

text \<open>
  C24. \<open>itoa\<close> terminates for every value and every radix from 2 to 36, writes a
  NUL-terminated numeral of digit characters and nothing outside it, and the numeral read
  back in that radix is the value. It needs at most 32 digits, 10 in decimal, 8 in hexadecimal.
\<close>

theorem itoa_roundtrip:
  assumes "2 \<le> unat radix" and "unat radix \<le> 36"
  shows "\<exists>m' ds. itoa m value buf radix = Some m'
           \<and> cstr m' buf (map ((!) itoa_lookup) ds)
           \<and> (\<forall>d \<in> set ds. d < unat radix)
           \<and> numeral_value (unat radix) ds = unat value
           \<and> (\<forall>x. x < buf \<or> x > buf + int (length ds) \<longrightarrow> m' x = m x)
           \<and> ds \<noteq> [] \<and> length ds \<le> 32
           \<and> (radix = 10 \<longrightarrow> length ds \<le> 10) \<and> (radix = 16 \<longrightarrow> length ds \<le> 8)"
proof -
  let ?ds = "itoa_digits (unat radix) (unat value)"
  have val: "numeral_value (unat radix) ?ds = unat value"
    using numeral_value_rev_ldigits [OF assms(1)] by (auto simp: itoa_digits_def numeral_value_def)
  have small: "unat value < 2 ^ 32" using unsigned_less [of "value", where 'a = nat] by simp
  have len: "length ?ds \<le> k" if "2 ^ 32 \<le> unat radix ^ k" "0 < k" for k
    using length_ldigits [of "unat value" "unat radix" k] small that by (auto simp: itoa_digits_def)
  have "(2::nat) ^ 32 \<le> unat radix ^ 32" using assms(1) by (intro power_mono) simp_all
  then have "length ?ds \<le> 32" by (intro len) simp_all
  moreover have "radix = 10 \<longrightarrow> length ?ds \<le> 10" and "radix = 16 \<longrightarrow> length ?ds \<le> 8"
    using len [of 10] len [of 8] by auto
  moreover have "?ds \<noteq> []"
    using assms(1) by (simp add: itoa_digits_def ldigits.simps)
  ultimately show ?thesis
    using assms val cstr_mwrite [OF itoa_digits_nonzero [OF assms]]
    by (intro exI [of _ "mwrite m buf (map ((!) itoa_lookup) ?ds @ [0])"] exI [of _ ?ds])
       (auto simp: itoa_eq mwrite_outside dest: itoa_digits_less [OF assms(1)])
qed

theorem itoa_roundtrip_witness:
  "\<exists>m' ds. itoa (\<lambda>_. 0) 3735928559 100 16 = Some m' \<and> numeral_value 16 ds = 3735928559
     \<and> length ds \<le> 8 \<and> cstr m' 100 (map ((!) itoa_lookup) ds)"
  using itoa_roundtrip [of 16 "\<lambda>_. 0" 3735928559 100] by auto

text \<open>
  C26. \<open>strncmp\<close> compares as C's: the result is zero exactly when the two strings agree up to
  their first NUL or up to \<open>n\<close> bytes, and it is negative exactly when at the first position
  where they differ the byte of the first, as a signed char, is the smaller one.
\<close>

theorem strncmp_spec:
  "(strncmp m s1 s2 n = 0 \<longleftrightarrow>
      takeWhile (\<lambda>b. b \<noteq> 0) (mread m s1 n) = takeWhile (\<lambda>b. b \<noteq> 0) (mread m s2 n))
   \<and> (strncmp m s1 s2 n < 0 \<longleftrightarrow>
       (\<exists>j < n. (\<forall>l < j. m (s1 + int l) = m (s2 + int l) \<and> m (s1 + int l) \<noteq> 0)
          \<and> sint (m (s1 + int j)) < sint (m (s2 + int j))))"
  using strncmp_loop_zero_iff [of m s1 s2 0 n] strncmp_loop_less_iff [of m s1 s2 0 n]
  by (simp add: strncmp_def cprefix_def)

theorem strncmp_spec_witness:
  "strncmp (mwrite (\<lambda>_. 0) 10 [1, 2, 3]) 10 11 2 < 0"
proof -
  let ?m = "mwrite (\<lambda>_. 0) 10 [1, 2, 3] :: mem"
  have "\<exists>j < 2. (\<forall>l < j. ?m (10 + int l) = ?m (11 + int l) \<and> ?m (10 + int l) \<noteq> 0)
          \<and> sint (?m (10 + int j)) < sint (?m (11 + int j))"
    by (rule exI [of _ 0]) simp
  with strncmp_spec [of ?m 10 11 2] show ?thesis by blast
qed

text \<open>
  C25. The block routines do what their one-byte-at-a-time references do, whatever the
  alignment and the length: \<open>memset\<close> fills \<open>n\<close> bytes, \<open>memmove\<close> copies \<open>n\<close> bytes even when
  the areas overlap, and \<open>memcpy\<close> copies them when the areas are disjoint or the destination
  is the lower one.
\<close>

theorem block_ops_reference:
  assumes "dest \<le> src \<or> src + int n \<le> dest"
  shows "memset m dest c n = mwrite m dest (replicate n (ucast c))
       \<and> memcpy m dest src n = mwrite m dest (mread m src n)
       \<and> fst (memmove m a b n) = mwrite m a (mread m b n)"
  using assms by (simp_all add: memset_eq memcpy_def memcpy_top_eq copy_safe_def memmove_eq)

theorem block_ops_reference_witness:
  "memcpy (mwrite (\<lambda>_. 0) 0 [1, 2, 3, 4, 5, 6, 7]) 21 0 7 25 = 5"
proof -
  have "(21 :: int) \<le> 0 \<or> 0 + int 7 \<le> 21" by simp
  from block_ops_reference [OF this] show ?thesis by (simp add: mwrite_apply)
qed

text \<open>
  \<open>memmove\<close> to a higher address returns with the direction flag set: nothing in it
  executes \<open>cld\<close> after the \<open>std\<close>, although the calling convention of the kernel's compiler
  expects the flag clear.
\<close>

theorem memmove_direction_flag: "snd (memmove m dest src n) \<longleftrightarrow> src < dest"
  by (simp add: memmove_def)

end
