(* ===== verification/RTC.thy ===== *)
theory RTC
  imports PIC
begin

text \<open>
  The real-time clock driver, \<^verbatim>\<open>mp3/student-distrib/rtc.c\<close>: initialisation, the interrupt
  handler, the frequency setting and the four file operations. \<open>rtc_read\<close> spins until the
  interrupt handler sets \<open>rtc_status\<close>; the model takes the schedule of the spin loop, one
  entry per test of the flag saying whether an interrupt is pending then, and is \<open>None\<close> while
  the loop still spins at the end of the schedule.
\<close>

record rtc = pic +
  rtc_tick :: u32
  rtc_status :: int

definition rtc_initialize :: "device \<Rightarrow> 'a rtc_scheme \<Rightarrow> 'a rtc_scheme" where
  "rtc_initialize dev s =
     (let s = cli s;
          s = outb 0x8A 0x70 s;
          s = outb 0x8B 0x70 s;
          (prev, s) = inb dev 0x71 s;
          s = outb 0x8B 0x70 s;
          s = outb (prev OR 0x40) 0x71 s;
          s = enable_irq dev 8 s;
          s = s\<lparr>rtc_tick := 0, rtc_status := 0\<rparr>
      in sti s)"

definition rtc_interrupt_handler :: "device \<Rightarrow> 'a rtc_scheme \<Rightarrow> 'a rtc_scheme" where
  "rtc_interrupt_handler dev s =
     (let s = s\<lparr>rtc_tick := rtc_tick s + 1, rtc_status := 1\<rparr>;
          s = outb 0xC 0x70 s;
          (_, s) = inb dev 0x71 s
      in send_eoi 8 s)"

text \<open>The search loop of \<open>set_frequency\<close>: the rate for \<open>freq\<close>, or \<open>-1\<close>.\<close>

function set_frequency_loop :: "int \<Rightarrow> int \<Rightarrow> int \<Rightarrow> int" where
  "set_frequency_loop freq i count =
     (if i \<ge> 2
      then if freq = i then count else set_frequency_loop freq (i div 2) (count + 1)
      else -1)"
  by pat_completeness auto
termination
  by (relation "measure (\<lambda>(freq, i, count). nat i)") auto

definition set_frequency :: "device \<Rightarrow> int \<Rightarrow> 'a rtc_scheme \<Rightarrow> int \<times> 'a rtc_scheme" where
  "set_frequency dev freq s =
     (let s = s\<lparr>rtc_tick := 0\<rparr>;
          temp = set_frequency_loop freq 1024 6
      in if temp = -1 then (-1, s)
         else let rate = word_of_int temp AND 0x0F;
                  s = cli s;
                  s = outb 0x8A 0x70 s;
                  (prev, s) = inb dev 0x71 s;
                  s = outb 0x8A 0x70 s;
                  s = outb ((prev AND 0xF0) OR rate) 0x71 s
              in (0, sti s))"

definition rtc_open :: "device \<Rightarrow> 'a rtc_scheme \<Rightarrow> int \<times> 'a rtc_scheme" where
  "rtc_open dev s = set_frequency dev 2 (s\<lparr>rtc_tick := 0, rtc_status := 0\<rparr>)"

fun rtc_read :: "device \<Rightarrow> bool list \<Rightarrow> 'a rtc_scheme \<Rightarrow> (int \<times> 'a rtc_scheme) option" where
  "rtc_read dev [] s = (if rtc_status s \<noteq> 0 then Some (0, s\<lparr>rtc_status := 0\<rparr>) else None)"
| "rtc_read dev (irq # sched) s =
     (if rtc_status s \<noteq> 0 then Some (0, s\<lparr>rtc_status := 0\<rparr>)
      else rtc_read dev sched (if irq \<and> int_flag s then rtc_interrupt_handler dev s else s))"

text \<open>\<open>buffer\<close> is a user address, read through the memory \<open>m\<close> the caller sees.\<close>

definition rtc_write ::
  "device \<Rightarrow> mem \<Rightarrow> addr \<Rightarrow> int \<Rightarrow> 'a rtc_scheme \<Rightarrow> int \<times> 'a rtc_scheme" where
  "rtc_write dev m buffer nbytes s =
     (if nbytes \<noteq> 4 \<or> buffer = 0 then (-1, s)
      else set_frequency dev (sint (load32 m buffer)) s)"

definition rtc_close :: "'a rtc_scheme \<Rightarrow> int \<times> 'a rtc_scheme" where
  "rtc_close s = (0, s)"

section \<open>Lemmas\<close>

declare set_frequency_loop.simps [simp del]

lemma set_frequency_loop_eq:
  "set_frequency_loop f 1024 6 =
     (if f = 1024 then 6 else if f = 512 then 7 else if f = 256 then 8 else if f = 128 then 9
      else if f = 64 then 10 else if f = 32 then 11 else if f = 16 then 12 else if f = 8 then 13
      else if f = 4 then 14 else if f = 2 then 15 else -1)"
  by (simp add: set_frequency_loop.simps)

lemma rtc_frame [frame, simp]:
  "rtc_status (outb v p s) = rtc_status s" "rtc_tick (outb v p s) = rtc_tick s"
  "rtc_status (cli s) = rtc_status s" "rtc_status (sti s) = rtc_status s"
  "rtc_tick (cli s) = rtc_tick s" "rtc_tick (sti s) = rtc_tick s"
  by (simp_all add: outb_def cli_def sti_def)

lemma send_eoi_8: "send_eoi 8 s = outb 0x62 0x20 (outb 0x60 0xA0 s)"
  by (simp add: send_eoi_def)

lemma rtc_interrupt_handler_frame [frame, simp]:
  "rtc_status (rtc_interrupt_handler dev s) = 1"
  "rtc_tick (rtc_interrupt_handler dev s) = rtc_tick s + 1"
  "int_flag (rtc_interrupt_handler dev s) = int_flag s"
  "phys (rtc_interrupt_handler dev s) = phys s"
  "rtc.more (rtc_interrupt_handler dev s) = rtc.more s"
  by (simp_all add: rtc_interrupt_handler_def Let_def inb_def send_eoi_8 outb_def)

lemma rtc_read_returns_iff:
  "(\<exists>r. rtc_read dev sched s = Some r) \<longleftrightarrow>
     rtc_status s \<noteq> 0 \<or> (int_flag s \<and> True \<in> set sched)"
proof (induction dev sched s rule: rtc_read.induct)
  case (1 dev s)
  then show ?case by simp
next
  case (2 dev irq sched s)
  then show ?case by (cases "rtc_status s \<noteq> 0"; cases "irq \<and> int_flag s") auto
qed

lemma rtc_read_result:
  "rtc_read dev sched s = Some (r, t) \<Longrightarrow>
     r = 0 \<and> rtc_status t = 0 \<and> rtc.more t = rtc.more s \<and> phys t = phys s"
proof (induction dev sched s rule: rtc_read.induct)
  case (1 dev s)
  then show ?case by (auto split: if_splits)
next
  case (2 dev irq sched s)
  then show ?case by (cases "rtc_status s \<noteq> 0"; cases "irq \<and> int_flag s") auto
qed

lemma valid_frequency_iff:
  "(\<exists>k \<in> {1..10}. (f :: int) = 2 ^ k) \<longleftrightarrow> f \<in> {2, 4, 8, 16, 32, 64, 128, 256, 512, 1024}"
proof -
  have "{1..10} = {1, 2, 3, 4, 5, 6, 7, 8, 9, 10 :: nat}"
    by (simp add: set_eq_iff) presburger
  then show ?thesis by simp
qed

section \<open>Properties\<close>

text \<open>
  \<open>set_frequency\<close> accepts exactly the powers of two from 2 to 1024. For these it returns
  0 and the value it writes to register A keeps the upper nibble and has a rate \<open>r\<close> with
  \<open>32768 >> (r - 1)\<close> the requested frequency; for every other argument it returns \<open>-1\<close> and
  touches no port. The tick counter is reset in both cases.
\<close>

theorem set_frequency_spec:
  "rtc_tick (snd (set_frequency dev f s)) = 0
   \<and> (if \<exists>k \<in> {1..10}. f = 2 ^ k
      then fst (set_frequency dev f s) = 0
         \<and> (\<exists>v. io_hist (snd (set_frequency dev f s)) =
                io_hist s @ [Out 0x70 0x8A, In 0x71, Out 0x70 0x8A, Out 0x71 v]
              \<and> v AND 0xF0 = dev (io_hist s @ [Out 0x70 0x8A]) 0x71 AND 0xF0
              \<and> 32768 div 2 ^ (unat (v AND 0x0F) - 1) = f)
      else set_frequency dev f s = (-1, s\<lparr>rtc_tick := 0\<rparr>))"
proof (cases "f \<in> {2, 4, 8, 16, 32, 64, 128, 256, 512, 1024}")
  case True
  define prev where "prev = dev (io_hist s @ [Out 0x70 0x8A]) 0x71"
  have hi: "((prev AND 0xF0) OR r) AND 0xF0 = prev AND 0xF0" if "r AND 0xF0 = 0" for r :: u8
    using that by (simp add: bit.conj_disj_distrib2 and.assoc)
  have lo: "((prev AND 0xF0) OR r) AND 0x0F = r AND 0x0F" for r :: u8
    by (simp add: bit.conj_disj_distrib2 and.assoc)
  from True show ?thesis unfolding valid_frequency_iff
    by (auto simp: set_frequency_def set_frequency_loop_eq Let_def inb_def prev_def [symmetric] hi lo)
next
  case False
  then have "set_frequency_loop f 1024 6 = -1"
    by (auto simp: set_frequency_loop_eq)
  with False show ?thesis unfolding valid_frequency_iff by (simp add: set_frequency_def)
qed

text \<open>
  C28. \<open>rtc_read\<close> returns exactly when a tick is already recorded, or an interrupt arrives
  during the spin while interrupts are enabled; it then returns 0, clears the record of the
  tick and leaves the rest of the system as it was. With interrupts disabled and no tick
  recorded it spins for ever, whatever the clock does.
\<close>

theorem rtc_read_liveness:
  "((\<exists>r. rtc_read dev sched s = Some r) \<longleftrightarrow>
      rtc_status s \<noteq> 0 \<or> (int_flag s \<and> True \<in> set sched))
   \<and> (\<forall>r t. rtc_read dev sched s = Some (r, t) \<longrightarrow>
        r = 0 \<and> rtc_status t = 0 \<and> rtc.more t = rtc.more s \<and> phys t = phys s)"
proof (rule conjI [OF rtc_read_returns_iff], intro allI impI)
  fix r t
  assume "rtc_read dev sched s = Some (r, t)"
  then show "r = 0 \<and> rtc_status t = 0 \<and> rtc.more t = rtc.more s \<and> phys t = phys s"
    by (rule rtc_read_result)
qed

theorem rtc_read_liveness_witness:
  "\<exists>t. rtc_read pic_device [False, True, False]
     \<lparr>io_hist = [], int_flag = True, phys = (\<lambda>_. 0), master_mask = 0, slave_mask = 0,
      rtc_tick = 4, rtc_status = 0\<rparr> = Some (0, t) \<and> rtc_status t = 0"
proof -
  let ?s = "\<lparr>io_hist = [], int_flag = True, phys = (\<lambda>_. 0), master_mask = 0, slave_mask = 0,
      rtc_tick = 4, rtc_status = 0\<rparr>"
  note L = rtc_read_liveness [of pic_device "[False, True, False]" ?s]
  have "\<exists>x. rtc_read pic_device [False, True, False] ?s = Some x"
    by (rule L [THEN conjunct1, THEN iffD2]) simp
  then obtain r t where rt: "rtc_read pic_device [False, True, False] ?s = Some (r, t)"
    by (metis surj_pair)
  from L [THEN conjunct2, rule_format, OF rt] have "r = 0 \<and> rtc_status t = 0" by blast
  with rt show ?thesis by blast
qed

end
