(* ===== verification/Paging.thy ===== *)
theory Paging
  imports RTC
begin

text \<open>
  Paging, \<^verbatim>\<open>mp3/student-distrib/paging.c\<close> and \<^verbatim>\<open>paging.h\<close>: the page directory, the page table
  of the first four megabytes, the page table for \<open>vidmap\<close>, and their initialisation. An
  entry is a 32-bit word (the \<open>hex\<close> member of the unions), and an assignment to a bit field
  is \<open>set_field\<close> with the field's offset and width.

  The translation \<open>xlate\<close> is the i386 page walk (Intel's manual): four-megabyte pages where
  the PS bit of the directory entry is set, page tables otherwise. \<open>vread\<close> and \<open>vwrite\<close> are
  memory accesses of the kernel through it, a \<open>PageFault\<close> where a level is not present.
  \<open>user_xlate\<close> also asks for the user bit at each level: what code at privilege level 3 can
  reach. Translation reads the tables as they are: the code flushes the TLB after each change.
\<close>

section \<open>Bit fields\<close>

definition set_field :: "nat \<Rightarrow> nat \<Rightarrow> u32 \<Rightarrow> u32 \<Rightarrow> u32" where
  "set_field lo w v x = (x AND NOT (push_bit lo (mask w))) OR push_bit lo (take_bit w v)"

definition get_field :: "nat \<Rightarrow> nat \<Rightarrow> u32 \<Rightarrow> u32" where
  "get_field lo w x = take_bit w (drop_bit lo x)"

abbreviation "set_present v \<equiv> set_field 0 (Suc 0) v"
abbreviation "set_read_write v \<equiv> set_field 1 (Suc 0) v"
abbreviation "set_user v \<equiv> set_field 2 (Suc 0) v"
abbreviation "set_ps v \<equiv> set_field 7 (Suc 0) v"
abbreviation "set_base_pte v \<equiv> set_field 12 20 v"
abbreviation "set_base_entry v \<equiv> set_field 22 10 v"

abbreviation "get_present \<equiv> get_field 0 (Suc 0)"
abbreviation "get_user \<equiv> get_field 2 (Suc 0)"
abbreviation "get_ps \<equiv> get_field 7 (Suc 0)"
abbreviation "get_base_pte \<equiv> get_field 12 20"
abbreviation "get_base_entry \<equiv> get_field 22 10"

section \<open>State and initialisation\<close>

text \<open>The three arrays, the addresses the linker gives them, and whether paging is on.\<close>

record paging = rtc +
  page_dir :: "u32 list"
  page_table :: "u32 list"
  page_virtual_mem :: "u32 list"
  page_dir_addr :: u32
  page_table_addr :: u32
  page_virtual_mem_addr :: u32
  cr3 :: u32
  paging_on :: bool

abbreviation VIDEO_MEM :: u32 where "VIDEO_MEM \<equiv> 0xB8000"
abbreviation KERNEL_MEM :: u32 where "KERNEL_MEM \<equiv> 0x400000"

definition upd_dir :: "nat \<Rightarrow> (u32 \<Rightarrow> u32) \<Rightarrow> 'a paging_scheme \<Rightarrow> 'a paging_scheme" where
  "upd_dir i f s = s\<lparr>page_dir := (page_dir s)[i := f (page_dir s ! i)]\<rparr>"

definition upd_table :: "nat \<Rightarrow> (u32 \<Rightarrow> u32) \<Rightarrow> 'a paging_scheme \<Rightarrow> 'a paging_scheme" where
  "upd_table i f s = s\<lparr>page_table := (page_table s)[i := f (page_table s ! i)]\<rparr>"

definition upd_vmem :: "nat \<Rightarrow> (u32 \<Rightarrow> u32) \<Rightarrow> 'a paging_scheme \<Rightarrow> 'a paging_scheme" where
  "upd_vmem i f s = s\<lparr>page_virtual_mem := (page_virtual_mem s)[i := f (page_virtual_mem s ! i)]\<rparr>"

definition load_pde :: "u32 \<Rightarrow> 'a paging_scheme \<Rightarrow> 'a paging_scheme" where
  "load_pde a s = s\<lparr>cr3 := a, paging_on := True\<rparr>"

definition flush_tlb :: "'a paging_scheme \<Rightarrow> 'a paging_scheme" where
  "flush_tlb s = s\<lparr>cr3 := cr3 s\<rparr>"

definition paging_initialize :: "'a paging_scheme \<Rightarrow> 'a paging_scheme" where
  "paging_initialize s =
     (let s = s\<lparr>page_dir := replicate 1024 0, page_table := replicate 1024 0\<rparr>;
          s = upd_dir 0 (set_base_pte (drop_bit 12 (page_table_addr s))) s;
          s = upd_dir 0 (set_read_write 1) s;
          s = upd_dir 0 (set_present 1) s;
          s = upd_dir 0 (set_user 1) s;
          s = upd_dir 0 (set_ps 0) s;
          s = upd_dir 1 (set_base_entry (drop_bit 22 KERNEL_MEM)) s;
          s = upd_dir 1 (set_read_write 1) s;
          s = upd_dir 1 (set_present 1) s;
          s = upd_dir 1 (set_ps 1) s;
          v = unat (drop_bit 12 (VIDEO_MEM AND 0x3FF000));
          s = upd_table v (set_base_pte (drop_bit 12 VIDEO_MEM)) s;
          s = upd_table v (set_read_write 1) s;
          s = upd_table v (set_present 1) s;
          s = upd_table v (set_user 1) s
      in load_pde (page_dir_addr s) s)"

text \<open>
  The assignments that \<open>execute_handler\<close>, \<open>halt_handler\<close> and \<open>scheduler\<close> repeat: the
  four-megabyte page at 128 MB is the physical page of program slot \<open>k\<close>.
\<close>

definition map_program_page :: "int \<Rightarrow> 'a paging_scheme \<Rightarrow> 'a paging_scheme" where
  "map_program_page k s =
     (let s = upd_dir 32 (\<lambda>_. 0) s;
          s = upd_dir 32 (set_base_entry (drop_bit 22 (word_of_int (0x800000 + k * 0x400000)))) s;
          s = upd_dir 32 (set_present 1) s;
          s = upd_dir 32 (set_read_write 1) s;
          s = upd_dir 32 (set_ps 1) s;
          s = upd_dir 32 (set_user 1) s;
          s = load_pde (page_dir_addr s) s
      in flush_tlb s)"

section \<open>Translation\<close>

definition table_at :: "'a paging_scheme \<Rightarrow> u32 \<Rightarrow> u32 list option" where
  "table_at s base =
     (if base = drop_bit 12 (page_table_addr s) then Some (page_table s)
      else if base = drop_bit 12 (page_virtual_mem_addr s) then Some (page_virtual_mem s)
      else None)"

text \<open>One walk. \<open>ok\<close> is the condition on the entry of each level.\<close>

definition walk :: "(u32 \<Rightarrow> bool) \<Rightarrow> 'a paging_scheme \<Rightarrow> addr \<Rightarrow> addr option" where
  "walk ok s va =
     (if \<not> paging_on s then Some va
      else if va < 0 \<or> va \<ge> 2 ^ 32 then None
      else let pde = page_dir s ! nat (va div 0x400000)
           in if \<not> ok pde then None
              else if get_ps pde = 1
              then Some (uint (get_base_entry pde) * 0x400000 + va mod 0x400000)
              else case table_at s (get_base_pte pde) of
                     None \<Rightarrow> None
                   | Some t \<Rightarrow>
                       let pte = t ! nat (va mod 0x400000 div 0x1000)
                       in if \<not> ok pte then None
                          else Some (uint (get_base_pte pte) * 0x1000 + va mod 0x1000))"

definition xlate :: "'a paging_scheme \<Rightarrow> addr \<Rightarrow> addr option" where
  "xlate = walk (\<lambda>e. get_present e = 1)"

definition user_xlate :: "'a paging_scheme \<Rightarrow> addr \<Rightarrow> addr option" where
  "user_xlate = walk (\<lambda>e. get_present e = 1 \<and> get_user e = 1)"

definition vread :: "addr \<Rightarrow> 'a paging_scheme \<Rightarrow> u8 res" where
  "vread va s = (case xlate s va of None \<Rightarrow> Inl PageFault | Some pa \<Rightarrow> Inr (phys s pa))"

definition vwrite :: "addr \<Rightarrow> u8 \<Rightarrow> 'a paging_scheme \<Rightarrow> 'a paging_scheme res" where
  "vwrite va b s = (case xlate s va of
       None \<Rightarrow> Inl PageFault
     | Some pa \<Rightarrow> Inr (s\<lparr>phys := (phys s)(pa := b)\<rparr>))"

lemma xlate_phys_io [simp]:
  "xlate (s\<lparr>phys := p\<rparr>) = xlate s" "xlate (s\<lparr>io_hist := h\<rparr>) = xlate s"
  "xlate (s\<lparr>int_flag := b\<rparr>) = xlate s"
  by (auto simp: fun_eq_iff xlate_def walk_def table_at_def Let_def split: option.splits)

section \<open>Field lemmas\<close>

lemma get_set_same [simp]: "lo + w \<le> 32 \<Longrightarrow> get_field lo w (set_field lo w v x) = take_bit w v"
  by (rule bit_word_eqI) (auto simp: get_field_def set_field_def bit_simps)

lemma get_set_other [simp]:
  "lo + w \<le> lo' \<or> lo' + w' \<le> lo \<Longrightarrow> get_field lo w (set_field lo' w' v x) = get_field lo w x"
  by (rule bit_word_eqI)
     (auto simp: get_field_def set_field_def bit_simps dest: bit_imp_le_length)

lemma get_field_0 [simp]: "get_field lo w 0 = 0"
  by (simp add: get_field_def)

section \<open>What the tables hold\<close>

text \<open>The directory entries the kernel installs.\<close>

definition low_pde :: "'a paging_scheme \<Rightarrow> u32" where
  "low_pde s = set_ps 0 (set_user 1 (set_present 1 (set_read_write 1
     (set_base_pte (drop_bit 12 (page_table_addr s)) 0))))"

definition kernel_pde :: u32 where
  "kernel_pde = set_ps 1 (set_present 1 (set_read_write 1 (set_base_entry 1 0)))"

definition program_pde :: "nat \<Rightarrow> u32" where
  "program_pde k = set_user 1 (set_ps 1 (set_read_write 1 (set_present 1
     (set_base_entry (of_nat (k + 2)) 0))))"

text \<open>
  A page-table entry is safe when it is not present or its frame is outside the kernel page
  and the six program pages (4 MB to 32 MB are the frames 0x400 to 0x1FFF).
\<close>

definition pte_safe :: "u32 \<Rightarrow> bool" where
  "pte_safe e \<longleftrightarrow>
     (get_present e = 1 \<longrightarrow> \<not> (0x400 \<le> get_base_pte e \<and> get_base_pte e < 0x2000))"

text \<open>The directory entry of \<open>vidmap\<close>, at 1 GB: absent, or the page table for video memory.\<close>

definition vidmap_pde_ok :: "'a paging_scheme \<Rightarrow> u32 \<Rightarrow> bool" where
  "vidmap_pde_ok s e \<longleftrightarrow>
     e = 0 \<or> (get_present e = 1 \<and> get_ps e = 0
              \<and> get_base_pte e = drop_bit 12 (page_virtual_mem_addr s))"

definition tables_ok :: "'a paging_scheme \<Rightarrow> bool" where
  "tables_ok s \<longleftrightarrow>
     length (page_dir s) = 1024 \<and> length (page_table s) = 1024
     \<and> length (page_virtual_mem s) = 1024 \<and> paging_on s
     \<and> drop_bit 12 (page_table_addr s) \<noteq> drop_bit 12 (page_virtual_mem_addr s)
     \<and> page_dir s ! 0 = low_pde s \<and> page_dir s ! 1 = kernel_pde
     \<and> (page_dir s ! 32 = 0 \<or> (\<exists>k < 6. page_dir s ! 32 = program_pde k))
     \<and> vidmap_pde_ok s (page_dir s ! 256)
     \<and> (\<forall>i < 1024. i \<notin> {0, 1, 32, 256} \<longrightarrow> page_dir s ! i = 0)
     \<and> (\<forall>i < 1024. pte_safe (page_table s ! i))
     \<and> (\<forall>i < 1024. pte_safe (page_virtual_mem s ! i))"

definition mapped_slot :: "'a paging_scheme \<Rightarrow> nat \<Rightarrow> bool" where
  "mapped_slot s k \<longleftrightarrow> page_dir s ! 32 = program_pde k"

text \<open>The physical pages of the kernel and of program slot \<open>k\<close>.\<close>

definition kernel_page :: "addr set" where
  "kernel_page = {0x400000..<0x800000}"

definition program_page :: "nat \<Rightarrow> addr set" where
  "program_page k = {0x800000 + int k * 0x400000..<0xC00000 + int k * 0x400000}"

lemma tables_ok_phys_io [simp]:
  "tables_ok (s\<lparr>phys := p\<rparr>) = tables_ok s" "tables_ok (s\<lparr>io_hist := h\<rparr>) = tables_ok s"
  "tables_ok (s\<lparr>int_flag := b\<rparr>) = tables_ok s"
  by (simp_all add: tables_ok_def low_pde_def vidmap_pde_ok_def)

lemma program_pde_fields:
  assumes "k < 6"
  shows "get_present (program_pde k) = 1" "get_user (program_pde k) = 1"
    "get_ps (program_pde k) = 1" "uint (get_base_entry (program_pde k)) = int k + 2"
proof -
  show "get_present (program_pde k) = 1" "get_user (program_pde k) = 1" "get_ps (program_pde k) = 1"
    by (simp_all add: program_pde_def)
  from assms have "k = 0 \<or> k = 1 \<or> k = 2 \<or> k = 3 \<or> k = 4 \<or> k = 5" by auto
  then show "uint (get_base_entry (program_pde k)) = int k + 2"
    by (auto simp: program_pde_def)
qed

lemma kernel_pde_fields [simp]:
  "get_present kernel_pde = 1" "get_user kernel_pde = 0" "get_ps kernel_pde = 1"
  "uint (get_base_entry kernel_pde) = 1"
  by (simp_all add: kernel_pde_def)

lemma low_pde_fields [simp]:
  "get_present (low_pde s) = 1" "get_user (low_pde s) = 1" "get_ps (low_pde s) = 0"
  "get_base_pte (low_pde s) = drop_bit 12 (page_table_addr s)"
proof -
  have "take_bit 20 (drop_bit 12 a) = drop_bit 12 a" for a :: u32
    by (rule bit_word_eqI) (auto simp: bit_simps dest: bit_imp_le_length)
  then show "get_base_pte (low_pde s) = drop_bit 12 (page_table_addr s)"
    by (simp add: low_pde_def)
qed (simp_all add: low_pde_def)

section \<open>Walks\<close>

lemma pte_safe_frame:
  assumes "pte_safe e" and "get_present e = 1" and "0 \<le> off" and "off < 0x1000"
  shows "uint (get_base_pte e) * 0x1000 + off \<notin> {0x400000..<0x2000000}"
proof -
  from assms(1,2) have "uint (get_base_pte e) < 0x400 \<or> 0x2000 \<le> uint (get_base_pte e)"
    by (auto simp: pte_safe_def word_le_def word_less_def not_le not_less)
  with assms(3,4) show ?thesis by auto
qed

lemma table_at_ok [simp]:
  "table_at s (drop_bit 12 (page_table_addr s)) = Some (page_table s)"
  "tables_ok s \<Longrightarrow> table_at s (drop_bit 12 (page_virtual_mem_addr s)) = Some (page_virtual_mem s)"
  by (auto simp: table_at_def tables_ok_def)

text \<open>Where a walk can end, by the directory entry it goes through.\<close>

lemma walk_cases:
  assumes ok: "tables_ok s" and w: "walk P s va = Some pa" and P: "\<And>e. P e \<Longrightarrow> get_present e = 1"
  obtains (table) "pa \<notin> {0x400000..<0x2000000}"
    | (kernel) "P kernel_pde" "pa \<in> kernel_page"
    | (program) k where "k < 6" "page_dir s ! 32 = program_pde k" "pa \<in> program_page k"
proof -
  let ?i = "nat (va div 0x400000)" and ?j = "nat (va mod 0x400000 div 0x1000)"
  let ?e = "page_dir s ! ?i"
  from ok have on: "paging_on s" by (simp add: tables_ok_def)
  with w have va: "0 \<le> va" "va < 2 ^ 32" and Pe: "P ?e"
    by (auto simp: walk_def Let_def split: if_splits)
  have j: "?j < 1024" and off: "0 \<le> va mod 0x1000" "va mod 0x1000 < 0x1000" by simp_all
  have i: "?i < 1024" using va by auto
  have through: "pa \<notin> {0x400000..<0x2000000}"
    if ps: "get_ps ?e \<noteq> 1" and t: "table_at s (get_base_pte ?e) = Some tab"
      and safe: "\<forall>i < 1024. pte_safe (tab ! i)" for tab
  proof -
    from w on va Pe ps t have "P (tab ! ?j)"
      and pa: "pa = uint (get_base_pte (tab ! ?j)) * 0x1000 + va mod 0x1000"
      by (auto simp: walk_def Let_def split: if_splits)
    from pte_safe_frame [OF _ P [OF this(1)] off] safe j show ?thesis unfolding pa by blast
  qed
  have big: "pa = uint (get_base_entry ?e) * 0x400000 + va mod 0x400000" if "get_ps ?e = 1"
    using w on va Pe that by (auto simp: walk_def Let_def split: if_splits)
  consider "?i = 0" | "?i = 1" | "?i = 32" | "?i = 256" | "?i \<notin> {0, 1, 32, 256}" by auto
  then show thesis
  proof cases
    case 1
    with ok have "?e = low_pde s" by (simp add: tables_ok_def)
    with through [of "page_table s"] ok show thesis by (intro table) (simp add: tables_ok_def)
  next
    case 2
    with ok have e: "?e = kernel_pde" by (simp add: tables_ok_def)
    with big have "pa = 0x400000 + va mod 0x400000" by simp
    with Pe e show thesis by (intro kernel) (simp_all add: kernel_page_def)
  next
    case 3
    with ok Pe obtain k where k: "k < 6" "?e = program_pde k" "page_dir s ! 32 = program_pde k"
      using P [OF Pe] by (auto simp: tables_ok_def)
    with big program_pde_fields [OF k(1)] have "pa = (int k + 2) * 0x400000 + va mod 0x400000"
      by simp
    moreover have "0 \<le> va mod 0x400000" "va mod 0x400000 < 0x400000" by simp_all
    ultimately have "pa \<in> program_page k" unfolding program_page_def by simp
    with k show thesis by (intro program)
  next
    case 4
    with ok have "vidmap_pde_ok s ?e" by (simp add: tables_ok_def)
    with P [OF Pe] have "get_ps ?e \<noteq> 1"
      and "table_at s (get_base_pte ?e) = Some (page_virtual_mem s)"
      using ok by (auto simp: vidmap_pde_ok_def)
    with through ok show thesis by (intro table) (simp add: tables_ok_def)
  next
    case 5
    with ok i have "?e = 0" by (simp add: tables_ok_def)
    with P [OF Pe] show thesis by simp
  qed
qed

lemma program_page_disjoint:
  assumes "pa \<in> program_page j" and "pa \<in> program_page k" shows "j = k"
proof -
  from assms have "int j = int k" by (auto simp: program_page_def)
  then show ?thesis by simp
qed

lemma program_page_range: "k < 6 \<Longrightarrow> program_page k \<subseteq> {0x800000..<0x2000000}"
  by (auto simp: program_page_def)

lemma user_xlate_isolated:
  assumes "tables_ok s" and "mapped_slot s k" and "k < 6" and "user_xlate s va = Some pa"
  shows "pa \<notin> kernel_page \<and> (\<forall>j < 6. pa \<in> program_page j \<longrightarrow> j = k)"
proof -
  have "walk (\<lambda>e. get_present e = 1 \<and> get_user e = 1) s va = Some pa"
    using assms(4) by (simp add: user_xlate_def)
  then show ?thesis
  proof (rule walk_cases [OF assms(1)])
    assume "pa \<notin> {0x400000..<0x2000000}"
    then show ?thesis using program_page_range by (fastforce simp: kernel_page_def)
  next
    fix j assume j: "j < 6" "page_dir s ! 32 = program_pde j" "pa \<in> program_page j"
    then have "program_pde j = program_pde k" using assms(2) by (simp add: mapped_slot_def)
    then have "int j + 2 = int k + 2"
      unfolding program_pde_fields(4) [OF j(1), symmetric] program_pde_fields(4) [OF assms(3), symmetric]
      by (rule arg_cong)
    then have "j = k" by simp
    moreover have "pa \<notin> kernel_page"
      using subsetD [OF program_page_range [OF j(1)] j(3)] by (simp add: kernel_page_def)
    ultimately show ?thesis using program_page_disjoint [OF _ j(3)] by blast
  qed simp_all
qed

section \<open>The operations keep the tables well formed\<close>

lemma map_program_page_eq:
  assumes "length (page_dir s) = 1024" and "k < 6"
  shows "map_program_page (int k) s =
     s\<lparr>page_dir := (page_dir s)[32 := program_pde k], cr3 := page_dir_addr s, paging_on := True\<rparr>"
proof -
  from assms(2) have "k = 0 \<or> k = 1 \<or> k = 2 \<or> k = 3 \<or> k = 4 \<or> k = 5" by auto
  then have "drop_bit 22 (word_of_int (0x800000 + int k * 0x400000)) = (of_nat (k + 2) :: u32)"
    by auto
  with assms(1) show ?thesis
    by (simp add: map_program_page_def Let_def upd_dir_def load_pde_def flush_tlb_def program_pde_def)
qed

lemma tables_ok_map_program_page:
  assumes "tables_ok s" and "k < 6"
  shows "tables_ok (map_program_page (int k) s)" and "mapped_slot (map_program_page (int k) s) k"
proof -
  have len: "length (page_dir s) = 1024" using assms(1) by (simp add: tables_ok_def)
  show "tables_ok (map_program_page (int k) s)"
    using assms unfolding map_program_page_eq [OF len assms(2)]
    by (auto simp: tables_ok_def low_pde_def vidmap_pde_ok_def)
  show "mapped_slot (map_program_page (int k) s) k"
    by (simp add: map_program_page_eq [OF len assms(2)] mapped_slot_def len)
qed

lemma pte_safe_0 [simp]: "pte_safe 0"
  by (simp add: pte_safe_def)

lemma paging_initialize_eq:
  "paging_initialize s = s\<lparr>
     page_dir := (replicate 1024 0)[0 := low_pde s, Suc 0 := kernel_pde],
     page_table := (replicate 1024 0)[0xB8 := set_user 1 (set_present 1 (set_read_write 1
        (set_base_pte 0xB8 0)))],
     cr3 := page_dir_addr s, paging_on := True\<rparr>"
  by (simp add: paging_initialize_def Let_def upd_dir_def upd_table_def load_pde_def
      low_pde_def kernel_pde_def)

lemma tables_ok_paging_initialize:
  assumes "length (page_virtual_mem s) = 1024" and "\<forall>i < 1024. page_virtual_mem s ! i = 0"
    and "drop_bit 12 (page_table_addr s) \<noteq> drop_bit 12 (page_virtual_mem_addr s)"
  shows "tables_ok (paging_initialize s)"
proof -
  have "pte_safe (set_user 1 (set_present 1 (set_read_write 1 (set_base_pte 0xB8 0))))"
    by (simp add: pte_safe_def)
  with assms show ?thesis
    unfolding paging_initialize_eq
    by (auto simp: tables_ok_def low_pde_def vidmap_pde_ok_def nth_list_update)
qed

lemma tables_ok_upd_table:
  assumes "tables_ok s" and "pte_safe (page_table s ! i) \<Longrightarrow> pte_safe (f (page_table s ! i))"
  shows "tables_ok (upd_table i f s)"
proof (cases "i < 1024")
  case True
  with assms show ?thesis
    by (auto simp: tables_ok_def upd_table_def low_pde_def vidmap_pde_ok_def nth_list_update)
next
  case False
  with assms(1) show ?thesis
    by (simp add: tables_ok_def upd_table_def low_pde_def vidmap_pde_ok_def)
qed

lemma tables_ok_upd_vmem:
  assumes "tables_ok s" and "pte_safe (page_virtual_mem s ! i) \<Longrightarrow> pte_safe (f (page_virtual_mem s ! i))"
  shows "tables_ok (upd_vmem i f s)"
proof (cases "i < 1024")
  case True
  with assms show ?thesis
    by (auto simp: tables_ok_def upd_vmem_def low_pde_def vidmap_pde_ok_def nth_list_update)
next
  case False
  with assms(1) show ?thesis
    by (simp add: tables_ok_def upd_vmem_def low_pde_def vidmap_pde_ok_def)
qed

text \<open>The kernel reaches its own page at its linked address, and program slot \<open>k\<close> at 128 MB.\<close>

lemma xlate_kernel:
  assumes "tables_ok s" and "va \<in> {0x400000..<0x800000}"
  shows "xlate s va = Some va"
proof -
  from assms(2) have d: "va div 0x400000 = 1" by auto
  with div_mult_mod_eq [of va "0x400000"] have "va mod 0x400000 = va - 0x400000" by simp
  with d assms show ?thesis by (simp add: xlate_def walk_def tables_ok_def Let_def)
qed

lemma xlate_program:
  assumes "tables_ok s" and "mapped_slot s k" and "k < 6" and "va \<in> {0x8000000..<0x8400000}"
  shows "xlate s va = Some (0x800000 + int k * 0x400000 + (va - 0x8000000))"
proof -
  from assms(4) have d: "va div 0x400000 = 32" by auto
  with div_mult_mod_eq [of va "0x400000"] have "va mod 0x400000 = va - 0x8000000" by simp
  with d assms program_pde_fields [OF assms(3)] show ?thesis
    by (simp add: xlate_def walk_def tables_ok_def mapped_slot_def Let_def algebra_simps)
qed

section \<open>Properties\<close>


text \<open>The state after \<open>paging_initialize\<close> on cleared tables, for evaluation.\<close>

definition paging_example :: paging where
  "paging_example = paging_initialize
     \<lparr>io_hist = [], int_flag = False, phys = (\<lambda>_. 0), master_mask = 0, slave_mask = 0,
      rtc_tick = 0, rtc_status = 0, page_dir = [], page_table = [],
      page_virtual_mem = replicate 1024 0, page_dir_addr = 0x410000, page_table_addr = 0x411000,
      page_virtual_mem_addr = 0x412000, cr3 = 0, paging_on = False\<rparr>"

lemma paging_example_ok: "tables_ok paging_example"
  unfolding paging_example_def by (rule tables_ok_paging_initialize) simp_all


text \<open>
  C29. After \<open>paging_initialize\<close> with a cleared \<open>vidmap\<close> table, the tables are well formed,
  the kernel's page is mapped to itself, and the only frame below four megabytes that is
  mapped is the one of video memory.
\<close>

theorem paging_initialize_maps:
  assumes "length (page_virtual_mem s) = 1024" and "\<forall>i < 1024. page_virtual_mem s ! i = 0"
    and "drop_bit 12 (page_table_addr s) \<noteq> drop_bit 12 (page_virtual_mem_addr s)"
  shows "tables_ok (paging_initialize s)
     \<and> (\<forall>va. 0x400000 \<le> va \<and> va < 0x800000 \<longrightarrow> xlate (paging_initialize s) va = Some va)
     \<and> (\<forall>va. 0 \<le> va \<and> va < 0x400000 \<longrightarrow> xlate (paging_initialize s) va =
          (if va div 0x1000 = 0xB8 then Some va else None))"
proof (intro conjI allI impI)
  note ok = tables_ok_paging_initialize [OF assms]
  show "tables_ok (paging_initialize s)" by (rule ok)
  show "xlate (paging_initialize s) va = Some va" if "0x400000 \<le> va \<and> va < 0x800000" for va
    using xlate_kernel [OF ok] that by simp
  fix va :: addr
  assume va: "0 \<le> va \<and> va < 0x400000"
  then have d: "va div 0x400000 = 0" "va mod 0x400000 = va" by auto
  have i: "nat (va div 0x1000) < 1024" using va by auto
  have m: "va div 0x1000 = 0xB8 \<Longrightarrow> va = 0xB8 * 0x1000 + va mod 0x1000"
    using div_mult_mod_eq [of va "0x1000"] by simp
  have "nat (va div 0x1000) = 0xB8 \<longleftrightarrow> va div 0x1000 = 0xB8" using va by auto
  with d i va m show "xlate (paging_initialize s) va =
      (if va div 0x1000 = 0xB8 then Some va else None)"
    unfolding paging_initialize_eq
    by (simp add: xlate_def walk_def Let_def nth_list_update table_at_def)
qed

theorem paging_initialize_maps_witness:
  "xlate paging_example 0xB8004 = Some 0xB8004 \<and> xlate paging_example 0xB9000 = None"
  using paging_initialize_maps [of "\<lparr>io_hist = [], int_flag = False, phys = (\<lambda>_. 0),
      master_mask = 0, slave_mask = 0, rtc_tick = 0, rtc_status = 0, page_dir = [], page_table = [],
      page_virtual_mem = replicate 1024 0, page_dir_addr = 0x410000, page_table_addr = 0x411000,
      page_virtual_mem_addr = 0x412000, cr3 = 0, paging_on = False\<rparr>"]
  by (simp add: paging_example_def)

end
