(* ===== verification/Filesystem.thy ===== *)
theory Filesystem
  imports KLib
begin

text \<open>
  The read-only file system, \<^verbatim>\<open>mp3/student-distrib/filesystem.c\<close> and \<^verbatim>\<open>filesystem.h\<close>. The
  image is in flat memory and every structure member is a load at its offset: the boot block
  (64 bytes of counts, then 64-byte directory entries), the inode blocks (length, then data
  block numbers) and the data blocks, 4096 bytes each. Pointers to results are results: a
  found directory entry is returned, and a routine that fills a buffer returns the memory.
  A signed division of C is \<open>sdiv\<close>/\<open>smod\<close>.

  The lemmas describe each routine on a well-formed image: name lookup, directory listing,
  and \<open>read_data\<close> against the contents of the file as a list of bytes.
\<close>

section \<open>The structures\<close>

record fs =
  boot_block_addr :: addr
  inode_addr :: addr
  data_addr :: addr

record dentry =
  filename :: "u8 list"
  filetype :: u32
  inode_num :: u32

definition dir_count :: "mem \<Rightarrow> fs \<Rightarrow> u32" where
  "dir_count m f = load32 m (boot_block_addr f)"

definition inode_count :: "mem \<Rightarrow> addr \<Rightarrow> u32" where
  "inode_count m boot = load32 m (boot + 4)"

definition direntry_addr :: "fs \<Rightarrow> int \<Rightarrow> addr" where
  "direntry_addr f i = boot_block_addr f + 64 + 64 * i"

definition load_dentry :: "mem \<Rightarrow> addr \<Rightarrow> dentry" where
  "load_dentry m a = \<lparr>filename = mread m a 32, filetype = load32 m (a + 32),
                      inode_num = load32 m (a + 36)\<rparr>"

definition inode_length :: "mem \<Rightarrow> addr \<Rightarrow> u32" where
  "inode_length m ip = load32 m ip"

definition data_block_num :: "mem \<Rightarrow> addr \<Rightarrow> int \<Rightarrow> u32" where
  "data_block_num m ip idx = load32 m (ip + 4 + 4 * idx)"

section \<open>The operations\<close>

definition filesystem_init :: "mem \<Rightarrow> addr \<Rightarrow> fs" where
  "filesystem_init m boot_block =
     \<lparr>boot_block_addr = boot_block, inode_addr = boot_block + 4096,
      data_addr = boot_block + (sint (inode_count m boot_block) + 1) * 4096\<rparr>"

text \<open>The search loop from index \<open>i\<close>, \<open>k\<close> entries left of the 64 the code visits.\<close>

fun read_dentry_loop :: "mem \<Rightarrow> fs \<Rightarrow> addr \<Rightarrow> int \<Rightarrow> nat \<Rightarrow> dentry option" where
  "read_dentry_loop m f fname i 0 = None"
| "read_dentry_loop m f fname i (Suc k) =
     (if strncmp m (direntry_addr f i) fname 32 = 0
      then Some (load_dentry m (direntry_addr f i))
      else read_dentry_loop m f fname (i + 1) k)"

definition read_dentry_by_name :: "mem \<Rightarrow> fs \<Rightarrow> addr \<Rightarrow> dentry option res" where
  "read_dentry_by_name m f fname =
     (case strlen m fname of
        None \<Rightarrow> Inl Diverges
      | Some n \<Rightarrow> if n > 32 \<or> fname = 0 then Inr None
                  else Inr (read_dentry_loop m f fname 0 64))"

definition read_dentry_by_index :: "mem \<Rightarrow> fs \<Rightarrow> u32 \<Rightarrow> dentry option" where
  "read_dentry_by_index m f index =
     (if index > dir_count m f then None
      else Some (load_dentry m (direntry_addr f (uint index))))"

text \<open>
  The loop of \<open>read_data\<close>: \<open>k\<close> iterations left, \<open>ip\<close> the inode. The comparison of the
  inode's length with \<open>offset + read_counter\<close> is unsigned, since \<open>offset\<close> is.
\<close>

fun read_data_loop ::
  "mem \<Rightarrow> fs \<Rightarrow> addr \<Rightarrow> u32 \<Rightarrow> addr \<Rightarrow> nat \<Rightarrow> int \<Rightarrow> int \<Rightarrow> int \<Rightarrow> int \<times> mem" where
  "read_data_loop m f ip offset buf 0 i read_counter cur_pos = (read_counter, m)"
| "read_data_loop m f ip offset buf (Suc k) i read_counter cur_pos =
     (if inode_length m ip \<ge> offset + word_of_int read_counter
      then let idx = cur_pos sdiv 4096;
               data = cur_pos smod 4096;
               cur_data_block = data_addr f + sint (data_block_num m ip idx) * 4096
           in read_data_loop (m(buf + i := m (cur_data_block + data))) f ip offset buf k
                (i + 1) (read_counter + 1) (cur_pos + 1)
      else read_data_loop m f ip offset buf k (i + 1) read_counter cur_pos)"

definition read_data :: "mem \<Rightarrow> fs \<Rightarrow> u32 \<Rightarrow> u32 \<Rightarrow> addr \<Rightarrow> u32 \<Rightarrow> int \<times> mem" where
  "read_data m f inode offset buf len =
     (if inode > inode_count m (boot_block_addr f) \<or> buf = 0 then (-1, m)
      else read_data_loop m f (inode_addr f + uint inode * 4096) offset buf (unat len) 0 0
             (sint offset))"

definition file_open :: int where "file_open = 0"
definition file_close :: int where "file_close = 0"
definition file_write :: int where "file_write = -1"

definition file_read :: "mem \<Rightarrow> fs \<Rightarrow> u32 \<Rightarrow> u32 \<Rightarrow> addr \<Rightarrow> u32 \<Rightarrow> int \<times> mem" where
  "file_read m f inode offset buf len = read_data m f inode offset buf len"

definition directory_open :: int where "directory_open = 0"
definition directory_close :: int where "directory_close = 0"
definition directory_write :: int where "directory_write = -1"

text \<open>\<open>idx\<close> is the one of the iteration before: the loop tests it before it recomputes it.\<close>

fun directory_read_loop ::
  "mem \<Rightarrow> fs \<Rightarrow> addr \<Rightarrow> nat \<Rightarrow> int \<Rightarrow> int \<Rightarrow> int \<Rightarrow> int \<times> mem" where
  "directory_read_loop m f buf 0 i idx cur_pos = (i, m)"
| "directory_read_loop m f buf (Suc k) i idx cur_pos =
     (if idx < sint (dir_count m f)
      then let idx = cur_pos sdiv 32;
               data = cur_pos smod 32
           in directory_read_loop (m(buf + i := m (direntry_addr f idx + data))) f buf k
                (i + 1) idx (cur_pos + 1)
      else (i, m))"

definition directory_read :: "mem \<Rightarrow> fs \<Rightarrow> u32 \<Rightarrow> u32 \<Rightarrow> addr \<Rightarrow> u32 \<Rightarrow> int \<times> mem" where
  "directory_read m f inode offset buf len =
     directory_read_loop m f buf (unat len) 0 (sint offset sdiv 32) (sint offset)"

section \<open>Well-formed images\<close>

text \<open>
  The counts are in range, the pointers are those of \<open>filesystem_init\<close>, and the image spans
  \<open>fs_size\<close> bytes: the boot block, the inodes and \<open>data_count\<close> data blocks.
\<close>

definition fs_size :: "mem \<Rightarrow> fs \<Rightarrow> int" where
  "fs_size m f = 4096 * (1 + uint (inode_count m (boot_block_addr f))
                         + uint (load32 m (boot_block_addr f + 8)))"

definition in_image :: "mem \<Rightarrow> fs \<Rightarrow> addr \<Rightarrow> bool" where
  "in_image m f a \<longleftrightarrow> boot_block_addr f \<le> a \<and> a < boot_block_addr f + fs_size m f"

definition fs_wf :: "mem \<Rightarrow> fs \<Rightarrow> bool" where
  "fs_wf m f \<longleftrightarrow>
     f = filesystem_init m (boot_block_addr f) \<and> 0 < boot_block_addr f
     \<and> uint (dir_count m f) \<le> 63
     \<and> uint (inode_count m (boot_block_addr f)) < 2 ^ 19
     \<and> uint (load32 m (boot_block_addr f + 8)) < 2 ^ 19"

definition inode_ptr :: "fs \<Rightarrow> u32 \<Rightarrow> addr" where
  "inode_ptr f inode = inode_addr f + uint inode * 4096"

text \<open>
  An inode in range whose length fits its block list, with every block number that the
  bytes \<open>0\<close> to \<open>length\<close> need inside the image.
\<close>

definition inode_ok :: "mem \<Rightarrow> fs \<Rightarrow> u32 \<Rightarrow> bool" where
  "inode_ok m f inode \<longleftrightarrow>
     inode < inode_count m (boot_block_addr f)
     \<and> uint (inode_length m (inode_ptr f inode)) < 1023 * 4096
     \<and> (\<forall>b. 0 \<le> b \<and> b \<le> uint (inode_length m (inode_ptr f inode)) div 4096 \<longrightarrow>
          data_block_num m (inode_ptr f inode) b < load32 m (boot_block_addr f + 8))"

text \<open>The byte at position \<open>p\<close> of a file, and the contents of the file.\<close>

definition file_byte :: "mem \<Rightarrow> fs \<Rightarrow> u32 \<Rightarrow> int \<Rightarrow> u8" where
  "file_byte m f inode p =
     m (data_addr f + uint (data_block_num m (inode_ptr f inode) (p div 4096)) * 4096 + p mod 4096)"

definition file_length :: "mem \<Rightarrow> fs \<Rightarrow> u32 \<Rightarrow> nat" where
  "file_length m f inode = unat (inode_length m (inode_ptr f inode))"

definition file_contents :: "mem \<Rightarrow> fs \<Rightarrow> u32 \<Rightarrow> u8 list" where
  "file_contents m f inode = map (\<lambda>i. file_byte m f inode (int i)) [0..<file_length m f inode]"

section \<open>Reading a file\<close>

text \<open>Two memories that agree on the image.\<close>

definition same_image :: "mem \<Rightarrow> mem \<Rightarrow> fs \<Rightarrow> bool" where
  "same_image m m' f \<longleftrightarrow> (\<forall>a. in_image m f a \<longrightarrow> m' a = m a)"

lemma same_image_upd: "same_image m m' f \<Longrightarrow> \<not> in_image m f a \<Longrightarrow> same_image m (m'(a := v)) f"
  by (auto simp: same_image_def)

lemma fs_wf_addrs:
  assumes "fs_wf m f"
  shows "inode_addr f = boot_block_addr f + 4096"
    and "data_addr f = boot_block_addr f + 4096 + uint (inode_count m (boot_block_addr f)) * 4096"
proof -
  let ?b = "boot_block_addr f"
  have f: "f = filesystem_init m ?b" and small: "uint (inode_count m ?b) < 2 ^ 19"
    using assms by (auto simp: fs_wf_def)
  have "inode_addr f = inode_addr (filesystem_init m ?b)"
    and d: "data_addr f = data_addr (filesystem_init m ?b)" using f by metis+
  then show "inode_addr f = boot_block_addr f + 4096" by (simp add: filesystem_init_def)
  have "sint (inode_count m ?b) = uint (inode_count m ?b)" using small by (intro sint_small) simp
  with d show "data_addr f = ?b + 4096 + uint (inode_count m ?b) * 4096"
    by (simp add: filesystem_init_def algebra_simps)
qed

text \<open>Block \<open>x\<close> of a region of \<open>n + d\<close> blocks lies in it, whichever part \<open>x\<close> is in.\<close>

lemma block_in_region:
  fixes b x y n j :: int
  assumes "0 \<le> x" and "x + 1 \<le> n + y" and "0 \<le> j" and "j < 4096"
  shows "b \<le> b + 4096 + x * 4096 + j \<and> b + 4096 + x * 4096 + j < b + 4096 * (1 + n + y)"
  using assms by auto

lemma inode_ptr_in_image:
  assumes "fs_wf m f" and "inode < inode_count m (boot_block_addr f)" and "0 \<le> j" and "j < 4096"
  shows "in_image m f (inode_ptr f inode + j)"
proof -
  have 1: "uint inode + 1 \<le> uint (inode_count m (boot_block_addr f))"
    using assms(2) by (simp add: word_less_def)
  have 2: "0 \<le> uint (load32 m (boot_block_addr f + 8))" "0 \<le> uint inode" by simp_all
  show ?thesis
    unfolding in_image_def inode_ptr_def fs_size_def fs_wf_addrs(1) [OF assms(1)]
    using 2(2) add_mono [OF 1 2(1)] assms(3,4) by (intro block_in_region) auto
qed

lemma data_in_image:
  assumes "fs_wf m f" and "blk < load32 m (boot_block_addr f + 8)" and "0 \<le> j" and "j < 4096"
  shows "in_image m f (data_addr f + uint blk * 4096 + j)"
proof -
  have 1: "uint blk + 1 \<le> uint (load32 m (boot_block_addr f + 8))"
    using assms(2) by (simp add: word_less_def)
  have 2: "0 \<le> uint blk" "0 \<le> uint (inode_count m (boot_block_addr f))" by simp_all
  show ?thesis
    using block_in_region [of "uint (inode_count m (boot_block_addr f)) + uint blk"
        "uint (inode_count m (boot_block_addr f))" "uint (load32 m (boot_block_addr f + 8))" j
        "boot_block_addr f"] 1 2 assms(3,4)
    by (simp add: in_image_def fs_size_def fs_wf_addrs(2) [OF assms(1)] distrib_right add.assoc)
qed

lemma load32_same_image:
  assumes "same_image m m' f" and "\<And>j. 0 \<le> j \<Longrightarrow> j < 4 \<Longrightarrow> in_image m f (a + j)"
  shows "load32 m' a = load32 m a"
  using assms(1) assms(2) [of 0] assms(2) [of 1] assms(2) [of 2] assms(2) [of 3]
  by (intro load32_cong) (simp_all add: same_image_def)

lemma inode_length_same:
  assumes "fs_wf m f" and "inode_ok m f inode" and "same_image m m' f"
  shows "inode_length m' (inode_ptr f inode) = inode_length m (inode_ptr f inode)"
  unfolding inode_length_def
  using assms by (intro load32_same_image) (auto simp: inode_ok_def intro: inode_ptr_in_image)

lemma data_block_num_same:
  assumes "fs_wf m f" and "inode_ok m f inode" and "same_image m m' f" and "0 \<le> b" and "b < 1023"
  shows "data_block_num m' (inode_ptr f inode) b = data_block_num m (inode_ptr f inode) b"
proof -
  have "in_image m f (inode_ptr f inode + 4 + 4 * b + j)" if "0 \<le> j" "j < 4" for j
    using inode_ptr_in_image [OF assms(1), of inode "4 + 4 * b + j"] assms(2,4,5) that
    by (simp add: inode_ok_def add.assoc)
  then show ?thesis
    unfolding data_block_num_def using assms(3) by (intro load32_same_image) auto
qed

text \<open>One iteration inside the file copies the byte of that position.\<close>

lemma file_byte_same:
  assumes wf: "fs_wf m f" and ok: "inode_ok m f inode" and same: "same_image m m' f"
    and p: "0 \<le> p" "p \<le> int (file_length m f inode)"
  shows "m' (data_addr f + sint (data_block_num m' (inode_ptr f inode) (p sdiv 4096)) * 4096
            + p smod 4096) = file_byte m f inode p"
proof -
  let ?blk = "data_block_num m (inode_ptr f inode) (p div 4096)"
  have len: "p div 4096 \<le> uint (inode_length m (inode_ptr f inode)) div 4096"
    using p by (intro zdiv_mono1) (simp_all add: file_length_def)
  moreover have "uint (inode_length m (inode_ptr f inode)) div 4096 < 1023"
    using ok by (auto simp: inode_ok_def)
  ultimately have b: "0 \<le> p div 4096" "p div 4096 < 1023" using p by auto
  have blk: "?blk < load32 m (boot_block_addr f + 8)"
    using ok len b by (simp add: inode_ok_def)
  have "uint ?blk < 2 ^ 31"
    using blk wf by (simp add: fs_wf_def word_less_def)
  then have "sint ?blk = uint ?blk" by (rule sint_small)
  moreover have "data_block_num m' (inode_ptr f inode) (p div 4096) = ?blk"
    using wf ok same b by (rule data_block_num_same)
  moreover have "in_image m f (data_addr f + uint ?blk * 4096 + p mod 4096)"
    using wf blk by (intro data_in_image) auto
  ultimately show ?thesis
    using same p(1) by (simp add: file_byte_def same_image_def sdiv_nonneg smod_nonneg)
qed

text \<open>Past the end the loop only counts: nothing is read and nothing is written.\<close>

lemma read_data_loop_past_end:
  "\<not> inode_length m ip \<ge> offset + word_of_int rc \<Longrightarrow>
     read_data_loop m f ip offset buf k i rc pos = (rc, m)"
  by (induction k arbitrary: i) auto

text \<open>How many bytes a read of \<open>n\<close> at \<open>off\<close> returns: positions up to and including \<open>len\<close>.\<close>

definition bytes_left :: "nat \<Rightarrow> nat \<Rightarrow> nat \<Rightarrow> nat" where
  "bytes_left len off n = min n (Suc len - off)"

lemma bytes_left_Suc:
  "off \<le> len \<Longrightarrow> bytes_left len off (Suc n) = Suc (bytes_left len (Suc off) n)"
  by (auto simp: bytes_left_def Suc_diff_le)

lemma offset_in_file:
  fixes off :: u32
  assumes "unat off + c < 2 ^ 31"
  shows "len \<ge> off + word_of_int (int c) \<longleftrightarrow> unat off + c \<le> unat len"
proof -
  have "unat (off + of_nat c) = unat off + c"
    using assms by (subst unat_word_ariths) (simp add: unat_of_nat take_bit_nat_def)
  then show ?thesis by (simp add: word_le_nat_alt of_int_of_nat_eq)
qed

lemma read_data_loop_eq:
  fixes off inode :: u32
  assumes wf: "fs_wf m f" and ok: "inode_ok m f inode"
  defines "byte \<equiv> \<lambda>p. file_byte m f inode (int p)" and "L \<equiv> file_length m f inode"
  shows "same_image m m' f \<Longrightarrow> (\<forall>i < c + k. \<not> in_image m f (buf + int i)) \<Longrightarrow>
     unat off + c + k < 2 ^ 31 \<Longrightarrow>
     read_data_loop m' f (inode_ptr f inode) off buf k (int c) (int c) (int (unat off + c)) =
       (int (c + bytes_left L (unat off + c) k),
        mwrite m' (buf + int c) (map byte [unat off + c ..< unat off + c + bytes_left L (unat off + c) k]))"
proof (induction k arbitrary: m' c)
  case 0
  then show ?case by (simp add: bytes_left_def)
next
  case (Suc k)
  let ?ip = "inode_ptr f inode" and ?p = "unat off + c"
  have len: "unat (inode_length m' ?ip) = L"
    using inode_length_same [OF wf ok Suc.prems(1)] by (simp add: L_def file_length_def)
  have guard: "inode_length m' ?ip \<ge> off + word_of_int (int c) \<longleftrightarrow> ?p \<le> L"
    using Suc.prems(3) by (subst offset_in_file) (auto simp: len)
  show ?case
  proof (cases "?p \<le> L")
    case True
    let ?m = "m'(buf + int c := byte ?p)"
    have pL: "int ?p \<le> int (file_length m f inode)" using True unfolding L_def by (rule of_nat_mono)
    have "read_data_loop m' f ?ip off buf (Suc k) (int c) (int c) (int ?p) =
        read_data_loop ?m f ?ip off buf k (int (Suc c)) (int (Suc c)) (int (unat off + Suc c))"
      using True guard file_byte_same [OF wf ok Suc.prems(1), of "int ?p"] pL
      by (simp add: byte_def Let_def ac_simps del: fun_upd_apply)
    also have "\<dots> = (int (Suc c + bytes_left L (unat off + Suc c) k),
        mwrite ?m (buf + int (Suc c))
          (map byte [unat off + Suc c ..< unat off + Suc c + bytes_left L (unat off + Suc c) k]))"
      using Suc.prems by (intro Suc.IH same_image_upd) auto
    also have "\<dots> = (int (c + bytes_left L ?p (Suc k)),
        mwrite m' (buf + int c) (map byte [?p ..< ?p + bytes_left L ?p (Suc k)]))"
      using True by (simp add: bytes_left_Suc upt_conv_Cons ac_simps del: fun_upd_apply upt_Suc)
    finally show ?thesis .
  next
    case False
    then have "bytes_left L ?p (Suc k) = 0" by (simp add: bytes_left_def)
    moreover have "read_data_loop m' f ?ip off buf (Suc k) (int c) (int c) (int ?p) = (int c, m')"
      using False guard by (intro read_data_loop_past_end) simp
    ultimately show ?thesis by simp
  qed
qed

text \<open>The bytes a read can return: the file and the byte after it.\<close>

definition readable :: "mem \<Rightarrow> fs \<Rightarrow> u32 \<Rightarrow> u8 list" where
  "readable m f inode = file_contents m f inode @ [file_byte m f inode (int (file_length m f inode))]"

lemma readable_map: "readable m f inode = map (\<lambda>p. file_byte m f inode (int p)) [0..<Suc (file_length m f inode)]"
  by (simp add: readable_def file_contents_def)

lemma read_data_eq:
  assumes "fs_wf m f" and "inode_ok m f inode" and "buf \<noteq> 0"
    and "\<forall>i < unat n. \<not> in_image m f (buf + int i)" and "unat off + unat n < 2 ^ 31"
  defines "bytes \<equiv> take (unat n) (drop (unat off) (readable m f inode))"
  shows "read_data m f inode off buf n = (int (length bytes), mwrite m buf bytes)"
proof -
  let ?L = "file_length m f inode" and ?o = "unat off"
  let ?byte = "\<lambda>p. file_byte m f inode (int p)"
  have bytes: "take (unat n) (drop ?o (map ?byte [0..<Suc ?L])) =
      map ?byte [?o ..< ?o + bytes_left ?L ?o (unat n)]"
    by (rule nth_equalityI) (auto simp: bytes_left_def simp del: upt_Suc)
  have "sint off = int ?o" using assms(5) by (intro sint_unat) simp
  then show ?thesis
    using assms(1-5) read_data_loop_eq [OF assms(1,2), of m 0 "unat n" buf off]
    unfolding bytes_def readable_map bytes
    by (auto simp: read_data_def inode_ptr_def inode_ok_def same_image_def not_less)
qed

section \<open>Looking up a name\<close>

lemma cprefix_take: "cstr m a xs \<Longrightarrow> cprefix m a n = take n xs"
proof (induction xs arbitrary: a n)
  case Nil
  then show ?case by (cases n) (auto simp: cprefix_Suc)
next
  case (Cons x xs)
  then show ?case by (cases n) (auto simp: cprefix_Suc)
qed

lemma cprefix_cstr: "cstr m a xs \<Longrightarrow> length xs \<le> n \<Longrightarrow> cprefix m a n = xs"
  by (simp add: cprefix_take)

definition entry_name :: "dentry \<Rightarrow> u8 list" where
  "entry_name d = takeWhile (\<lambda>b. b \<noteq> 0) (filename d)"

lemma read_dentry_loop_eq:
  assumes "cstr m fname name" and "length name \<le> 32"
  shows "read_dentry_loop m f fname (int i) k =
           find (\<lambda>d. entry_name d = name)
             (map (\<lambda>i. load_dentry m (direntry_addr f (int i))) [i..<i + k])"
proof (induction k arbitrary: i)
  case 0
  then show ?case by simp
next
  case (Suc k)
  let ?d = "load_dentry m (direntry_addr f (int i))"
  have match: "strncmp m (direntry_addr f (int i)) fname 32 = 0 \<longleftrightarrow> entry_name ?d = name"
    using strncmp_loop_zero_iff [of m "direntry_addr f (int i)" fname 0 32] cprefix_cstr [OF assms]
    by (simp add: strncmp_def entry_name_def load_dentry_def cprefix_def)
  have split: "[i..<i + Suc k] = i # [Suc i..<Suc i + k]" by (simp add: upt_conv_Cons)
  have nxt: "int i + 1 = int (Suc i)" by simp
  show ?case
    unfolding split read_dentry_loop.simps nxt using Suc [of "Suc i"] match
    by (simp del: upt_Suc of_nat_Suc)
qed

text \<open>The first of the 64 entries that the code visits with that name.\<close>

definition lookup :: "mem \<Rightarrow> fs \<Rightarrow> u8 list \<Rightarrow> dentry option" where
  "lookup m f name = find (\<lambda>d. takeWhile (\<lambda>b. b \<noteq> 0) (filename d) = name)
     (map (\<lambda>i. load_dentry m (direntry_addr f (int i))) [0..<64])"

lemma read_dentry_by_name_eq:
  assumes "cstr m fname name" and "fname \<noteq> 0"
  shows "read_dentry_by_name m f fname = Inr (if length name \<le> 32 then lookup m f name else None)"
  using assms read_dentry_loop_eq [OF assms(1), of f 0 64]
  by (simp add: read_dentry_by_name_def strlen_cstr entry_name_def lookup_def del: upt_Suc upt_rec_numeral)

text \<open>A memory that agrees from the boot block on has the same entries.\<close>

lemma lookup_cong:
  assumes "\<And>a. boot_block_addr f \<le> a \<Longrightarrow> m' a = m a"
  shows "lookup m' f name = lookup m f name"
proof -
  have "load_dentry m' (direntry_addr f (int i)) = load_dentry m (direntry_addr f (int i))" for i
    using assms unfolding load_dentry_def
    by (auto simp: direntry_addr_def intro!: load32_cong mread_cong)
  then show ?thesis by (simp add: lookup_def)
qed

section \<open>Listing the directory\<close>

lemma boot_block_in_image:
  assumes "0 \<le> j" and "j < 4096"
  shows "in_image m f (boot_block_addr f + j)"
proof -
  have small: "j < 4096 * (1 + t)" if "0 \<le> t" for t using assms that by auto
  have "0 \<le> uint (inode_count m (boot_block_addr f)) + uint (load32 m (boot_block_addr f + 8))"
    by (intro add_nonneg_nonneg) simp_all
  from small [OF this] show ?thesis using assms by (simp add: in_image_def fs_size_def add.assoc)
qed

lemma dir_count_same: "same_image m m' f \<Longrightarrow> dir_count m' f = dir_count m f"
  unfolding dir_count_def by (erule load32_same_image) (auto intro: boot_block_in_image)

lemma entry_byte_same:
  assumes "same_image m m' f" and "j < 63" and "d < 32"
  shows "m' (direntry_addr f (int j) + int d) = filename (load_dentry m (direntry_addr f (int j))) ! d"
proof -
  have "int j \<le> 62" "int d \<le> 31" using assms by auto
  then have "in_image m f (boot_block_addr f + (64 + 64 * int j + int d))"
    by (intro boot_block_in_image) auto
  with assms show ?thesis by (simp add: same_image_def direntry_addr_def load_dentry_def add.assoc)
qed

lemma directory_read_loop_entry:
  assumes "j < nat (sint (dir_count m f))" and "j < 63"
  shows "same_image m m' f \<Longrightarrow> (\<forall>i < c + k. \<not> in_image m f (buf + int i)) \<Longrightarrow> c + k \<le> 32 \<Longrightarrow>
     directory_read_loop m' f buf k (int c) (int j) (int (32 * j + c)) =
       (int (c + k), mwrite m' (buf + int c)
          (take k (drop c (filename (load_dentry m (direntry_addr f (int j)))))))"
proof (induction k arbitrary: m' c)
  case 0
  then show ?case by simp
next
  case (Suc k)
  let ?n = "filename (load_dentry m (direntry_addr f (int j)))"
  let ?m = "m'(buf + int c := ?n ! c)"
  have c: "c < 32" "length ?n = 32" using Suc.prems by (auto simp: load_dentry_def)
  have pos: "int (32 * j + c) sdiv 32 = int j" "int (32 * j + c) smod 32 = int c"
    using c by (simp_all add: sdiv_nonneg smod_nonneg)
  have guard: "int j < sint (dir_count m' f)"
    using assms(1) dir_count_same [OF Suc.prems(1)] by simp
  have next_pos: "int (32 * j + c) + 1 = int (32 * j + Suc c)" "int c + 1 = int (Suc c)" by simp_all
  have "directory_read_loop m' f buf (Suc k) (int c) (int j) (int (32 * j + c)) =
        directory_read_loop ?m f buf k (int (Suc c)) (int j) (int (32 * j + Suc c))"
    unfolding directory_read_loop.simps Let_def pos next_pos
    using guard entry_byte_same [OF Suc.prems(1) assms(2) c(1)] by (simp del: fun_upd_apply)
  also have "\<dots> = (int (Suc c + k), mwrite ?m (buf + int (Suc c)) (take k (drop (Suc c) ?n)))"
    using Suc.prems by (intro Suc.IH same_image_upd) auto
  also have "\<dots> = (int (c + Suc k), mwrite m' (buf + int c) (take (Suc k) (drop c ?n)))"
    using c by (simp add: Cons_nth_drop_Suc [symmetric] ac_simps del: fun_upd_apply)
  finally show ?case .
qed

section \<open>The image does not move\<close>

text \<open>A memory that agrees on the image is as well formed and holds the same files.\<close>

lemma counts_same:
  assumes "same_image m m' f"
  shows "inode_count m' (boot_block_addr f) = inode_count m (boot_block_addr f)"
    and "load32 m' (boot_block_addr f + 8) = load32 m (boot_block_addr f + 8)"
proof -
  have "in_image m f (boot_block_addr f + 4 + j)" "in_image m f (boot_block_addr f + 8 + j)"
    if "0 \<le> j" "j < 4" for j
    using boot_block_in_image [of "4 + j" m f] boot_block_in_image [of "8 + j" m f] that
    by (simp_all add: add.assoc)
  then show "inode_count m' (boot_block_addr f) = inode_count m (boot_block_addr f)"
    and "load32 m' (boot_block_addr f + 8) = load32 m (boot_block_addr f + 8)"
    unfolding inode_count_def using assms by (auto intro!: load32_same_image)
qed

lemma in_image_same: "same_image m m' f \<Longrightarrow> in_image m' f a = in_image m f a"
  by (simp add: in_image_def fs_size_def counts_same)

lemma fs_wf_same: "same_image m m' f \<Longrightarrow> fs_wf m f \<Longrightarrow> fs_wf m' f"
  by (simp add: fs_wf_def filesystem_init_def counts_same dir_count_same)

lemma inode_ok_same:
  assumes "fs_wf m f" and "inode_ok m f inode" and "same_image m m' f"
  shows "inode_ok m' f inode"
proof -
  have len: "inode_length m' (inode_ptr f inode) = inode_length m (inode_ptr f inode)"
    using assms by (rule inode_length_same)
  have "uint (inode_length m (inode_ptr f inode)) div 4096 < 1023" using assms(2) by (auto simp: inode_ok_def)
  then have "data_block_num m' (inode_ptr f inode) b = data_block_num m (inode_ptr f inode) b"
    if "0 \<le> b" "b \<le> uint (inode_length m (inode_ptr f inode)) div 4096" for b
    using that by (intro data_block_num_same [OF assms]) auto
  with assms(2) show ?thesis by (auto simp: inode_ok_def len counts_same [OF assms(3)])
qed

lemma readable_same:
  assumes "fs_wf m f" and "inode_ok m f inode" and "same_image m m' f"
  shows "readable m' f inode = readable m f inode"
proof -
  have len: "file_length m' f inode = file_length m f inode"
    using inode_length_same [OF assms] by (simp add: file_length_def)
  have refl: "same_image m' m' f" by (simp add: same_image_def)
  have "file_byte m' f inode (int p) = file_byte m f inode (int p)" if "p \<le> file_length m f inode" for p
    using file_byte_same [OF assms, of "int p"]
      file_byte_same [OF fs_wf_same [OF assms(3,1)] inode_ok_same [OF assms] refl, of "int p"] that
    by (simp add: len)
  then show ?thesis unfolding readable_map len by (intro map_cong) auto
qed

lemma lookup_same:
  assumes "same_image m m' f" and "0 < inode_count m (boot_block_addr f)"
  shows "lookup m' f name = lookup m f name"
proof -
  have "0 < uint (inode_count m (boot_block_addr f))" using assms(2) by (simp add: word_less_def)
  then have n: "1 \<le> uint (inode_count m (boot_block_addr f))" by simp
  have "0 \<le> uint (load32 m (boot_block_addr f + 8))" by simp
  moreover have "8192 \<le> 4096 * (1 + x + y)" if "1 \<le> x" "0 \<le> y" for x y :: int using that by simp
  ultimately have size: "8192 \<le> fs_size m f" using n unfolding fs_size_def by blast
  have at: "m' (direntry_addr f (int i) + j) = m (direntry_addr f (int i) + j)" if "i < 64" "0 \<le> j" "j < 64" for i j
    using that size assms(1) by (auto simp: same_image_def in_image_def direntry_addr_def)
  have "load_dentry m' (direntry_addr f (int i)) = load_dentry m (direntry_addr f (int i))" if "i < 64" for i
    using at [OF that, of 32] at [OF that, of 33] at [OF that, of 34] at [OF that, of 35]
      at [OF that, of 36] at [OF that, of 37] at [OF that, of 38] at [OF that, of 39] at [OF that]
    unfolding load_dentry_def by (auto intro!: load32_cong mread_cong simp: add.assoc)
  then show ?thesis unfolding lookup_def by (intro arg_cong [where f = "find _"] map_cong) auto
qed

section \<open>Properties\<close>

text \<open>A one-file image: \<open>dir_count\<close> 1, \<open>inode_count\<close> 1, one data block; the entry is
  named ``a'' with type 2 and inode 0, and the file holds the bytes 7, 8, 9.\<close>

definition small_image :: mem where
  "small_image = mwrite (mwrite (mwrite (\<lambda>_. 0) 8192 [1, 0, 0, 0, 1, 0, 0, 0, 1])
      8256 (97 # replicate 31 0 @ [2])) 12288 (3 # replicate 4095 0 @ [7, 8, 9])"

definition small_fs :: fs where
  "small_fs = \<lparr>boot_block_addr = 8192, inode_addr = 12288, data_addr = 16384\<rparr>"

lemma small_image_apply:
  "small_image a = (if a = 12288 then 3 else if a = 16384 then 7 else if a = 16385 then 8
     else if a = 16386 then 9 else if a = 8288 then 2 else if a = 8256 then 97
     else if a \<in> {8192, 8196, 8200} then 1 else 0)"
proof -
  have block: "mwrite m 12288 (3 # replicate 4095 0 @ [7, 8, 9]) a =
      (if a = 12288 then 3 else if 12288 < a \<and> a < 16384 then 0 else if a = 16384 then 7
       else if a = 16385 then 8 else if a = 16386 then 9 else m a)" for m
    by (auto simp: mwrite_append mwrite_apply)
  have entry: "mwrite m 8256 (97 # replicate 31 0 @ [2]) a =
      (if a = 8256 then 97 else if 8256 < a \<and> a < 8288 then 0 else if a = 8288 then 2 else m a)" for m
    by (auto simp: mwrite_append mwrite_apply)
  show ?thesis unfolding small_image_def block entry by simp
qed

lemma small_image_loads:
  "inode_count small_image 8192 = 1" "load32 small_image 8200 = 1" "load32 small_image 8192 = 1"
  "load32 small_image 12288 = 3" "load32 small_image 12292 = 0"
  by (simp_all add: inode_count_def load32_def small_image_apply)

lemma small_fs_wf: "fs_wf small_image small_fs"
  by (simp add: fs_wf_def small_fs_def filesystem_init_def dir_count_def small_image_loads)

lemma small_inode_ok: "inode_ok small_image small_fs 0"
proof -
  have "b = 0" if "0 \<le> b" "b \<le> (0::int)" for b using that by simp
  then show ?thesis
    by (auto simp: inode_ok_def inode_ptr_def inode_length_def data_block_num_def small_fs_def
        small_image_loads)
qed

text \<open>
  C14. On a well-formed image \<open>read_data\<close> returns, for a good inode and a buffer outside the
  image, the bytes of the file from \<open>offset\<close> on, at most \<open>n\<close> of them, across block
  boundaries, and writes nothing else; the sequence it reads from is the file followed by
  one more byte, since the end test is \<open>\<ge>\<close>. A null buffer or an inode number above the
  count is refused and nothing is written.
\<close>

theorem read_data_spec:
  assumes "fs_wf m f" and "inode_ok m f inode" and "buf \<noteq> 0"
    and "\<forall>i < unat n. \<not> in_image m f (buf + int i)" and "unat off + unat n < 2 ^ 31"
    and "inode' > inode_count m (boot_block_addr f) \<or> buf' = 0"
  shows "(let bytes = take (unat n) (drop (unat off)
                 (file_contents m f inode @ [file_byte m f inode (int (file_length m f inode))]))
          in read_data m f inode off buf n = (int (length bytes), mwrite m buf bytes))
       \<and> read_data m f inode' off buf' n = (-1, m)"
  using read_data_eq [OF assms(1-5)] assms(6) by (auto simp: read_data_def readable_def)

theorem read_data_spec_witness:
  "read_data small_image small_fs 0 1 100 2 = (2, mwrite small_image 100 [8, 9])
   \<and> read_data small_image small_fs 2 1 100 2 = (-1, small_image)"
proof -
  have "\<forall>i < unat (2 :: u32). \<not> in_image small_image small_fs (100 + int i)"
    by (simp add: in_image_def small_fs_def)
  moreover have "(2 :: u32) > inode_count small_image (boot_block_addr small_fs) \<or> (100 :: int) = 0"
    by (simp add: small_fs_def small_image_loads)
  moreover have "file_contents small_image small_fs 0
      @ [file_byte small_image small_fs 0 (int (file_length small_image small_fs 0))] = [7, 8, 9, 0]"
    by (simp add: file_contents_def file_byte_def file_length_def inode_length_def inode_ptr_def
        data_block_num_def small_fs_def small_image_loads small_image_apply upt_rec)
  ultimately show ?thesis
    using read_data_spec [OF small_fs_wf small_inode_ok, of 100 2 1 2 100] by (simp add: Let_def)
qed

text \<open>
  C15. Name lookup is a search for the first match: for a NUL-terminated name of at most 32
  bytes the result is the first of the 64 entries from the start of the directory whose own
  name (up to NUL or 32 bytes) is that name, whatever \<open>dir_count\<close> says; a longer name is
  refused. The routine returns in every such case.
\<close>

theorem read_dentry_by_name_spec:
  assumes "cstr m fname name" and "fname \<noteq> 0"
  shows "read_dentry_by_name m f fname =
           Inr (if length name \<le> 32
                then find (\<lambda>d. takeWhile (\<lambda>b. b \<noteq> 0) (filename d) = name)
                       (map (\<lambda>i. load_dentry m (direntry_addr f (int i))) [0..<64])
                else None)"
  using read_dentry_by_name_eq [OF assms] by (simp only: lookup_def)

theorem read_dentry_by_name_spec_witness:
  "\<exists>d. read_dentry_by_name (small_image(50 := 97)) small_fs 50 = Inr (Some d)
       \<and> filetype d = 2 \<and> inode_num d = 0"
proof -
  let ?m = "small_image(50 := 97)"
  have name: "cstr ?m 50 [97]" by (simp add: small_image_apply)
  have "[0..<64] = 0 # [Suc 0..<64]" by (simp add: upt_conv_Cons)
  moreover have "filename (load_dentry ?m (direntry_addr small_fs 0)) = 97 # replicate 31 0"
    by (rule nth_equalityI)
      (auto simp: load_dentry_def direntry_addr_def small_fs_def small_image_apply nth_Cons' not_less)
  moreover have "filetype (load_dentry ?m (direntry_addr small_fs 0)) = 2"
    and "inode_num (load_dentry ?m (direntry_addr small_fs 0)) = 0"
    by (simp_all add: load_dentry_def direntry_addr_def small_fs_def load32_def small_image_apply)
  ultimately show ?thesis using read_dentry_by_name_spec [OF name, of small_fs]
    by (simp del: upt_Suc)
qed

text \<open>
  C16. Reading the directory from offset \<open>32 j\<close> returns the 32-byte name of entry \<open>j\<close>, or its
  first \<open>n\<close> bytes, as long as \<open>j\<close> is below \<open>dir_count\<close>, and zero bytes from there on: a
  program that reads 32 bytes at a time sees each name once and then the end.
\<close>

theorem directory_read_listing:
  assumes "fs_wf m f" and "j < 63" and "n \<le> 32"
    and "\<forall>i < n. \<not> in_image m f (buf + int i)"
  shows "directory_read m f inode (of_nat (32 * j)) buf (of_nat n) =
           (if j < unat (dir_count m f)
            then (int n, mwrite m buf (take n (filename (load_dentry m (direntry_addr f (int j))))))
            else (0, m))"
proof -
  have count: "sint (dir_count m f) = int (unat (dir_count m f))"
    using assms(1) by (subst sint_small) (simp_all add: fs_wf_def)
  have n: "unat (of_nat n :: u32) = n"
    using assms(3) by (simp add: unat_of_nat take_bit_nat_def)
  have "unat (of_nat (32 * j) :: u32) = 32 * j"
    using assms(2) by (subst unat_of_nat) simp
  then have off: "sint (of_nat (32 * j) :: u32) = int (32 * j)"
    using assms(2) by (subst sint_unat) (simp_all only:, simp)
  have idx: "int (32 * j) sdiv 32 = int j" by (simp add: sdiv_nonneg)
  have start: "directory_read m f inode (of_nat (32 * j)) buf (of_nat n) =
      directory_read_loop m f buf n 0 (int j) (int (32 * j))"
    unfolding directory_read_def n off idx ..
  show ?thesis
  proof (cases "j < unat (dir_count m f)")
    case True
    then show ?thesis
      using directory_read_loop_entry [of j m f m 0 n buf] assms count
      unfolding start by (simp add: same_image_def)
  next
    case False
    have "\<not> int j < sint (dir_count m f)" unfolding count of_nat_less_iff by (rule False)
    then show ?thesis using False unfolding start by (cases n) simp_all
  qed
qed

theorem directory_read_listing_witness:
  "directory_read small_image small_fs 0 0 100 2 = (2, mwrite small_image 100 [97, 0])
   \<and> directory_read small_image small_fs 0 32 100 2 = (0, small_image)"
proof -
  have "\<forall>i < 2. \<not> in_image small_image small_fs (100 + int i)"
    by (simp add: in_image_def small_fs_def)
  from directory_read_listing [OF small_fs_wf _ _ this, of 0 0]
    directory_read_listing [OF small_fs_wf _ _ this, of 1 0]
  show ?thesis
    by (simp add: dir_count_def small_fs_def small_image_loads load_dentry_def direntry_addr_def
        mread_def take_map small_image_apply upt_rec)
qed

end
