(* ===== verification/Screen.thy ===== *)
theory Screen
  imports Paging KLib
begin

text \<open>
  The text screen, \<^verbatim>\<open>mp3/student-distrib/lib.c\<close> (\<open>clear\<close> to \<open>putc_user\<close>) with the \<open>terminal_t\<close>
  structure and the terminal variables of \<^verbatim>\<open>scheduler.h\<close>. Each terminal has a cursor and the
  virtual address of its window onto video memory; video memory is written through the page
  tables (\<open>vread\<close>, \<open>vwrite\<close>). The functions that end in \<open>_user\<close> act on the terminal on
  display (\<open>curr_terminal\<close>), the others on the terminal of the running process
  (\<open>curr_process\<close>); the two copies of the code differ only in that index, which is an
  argument of the \<open>_on\<close> definitions. An index outside \<open>term_arr\<close> is a fault.

  The lemmas show that the cursor of every terminal stays on the 80 by 25 screen, that the
  functions touch nothing but their terminal and its window, and what they draw.
\<close>

section \<open>State\<close>

record terminal =
  t_screen_x :: u8
  t_screen_y :: u8
  keyBuf :: "u8 list"
  visible :: u8
  vid_mem_addr :: u32
  newline_tracker :: u8
  enterFlag :: u8

record screen = paging +
  screen_x :: int
  screen_y :: int
  video_mem :: addr
  scrollFlag :: int
  term_arr :: "terminal list"
  curr_terminal :: u8
  curr_process :: u8

abbreviation "user_term s \<equiv> unat (curr_terminal s)"
abbreviation "proc_term s \<equiv> unat (curr_process s)"

text \<open>\<open>screen_x = term_arr[i].screen_x; screen_y = term_arr[i].screen_y\<close> and the way back.\<close>

definition load_cursor :: "nat \<Rightarrow> 'a screen_scheme \<Rightarrow> 'a screen_scheme res" where
  "load_cursor i s = check (i < length (term_arr s)) OutOfBounds
     (s\<lparr>screen_x := uint (t_screen_x (term_arr s ! i)), screen_y := uint (t_screen_y (term_arr s ! i))\<rparr>)"

definition upd_term :: "nat \<Rightarrow> (terminal \<Rightarrow> terminal) \<Rightarrow> 'a screen_scheme \<Rightarrow> 'a screen_scheme" where
  "upd_term i f s = s\<lparr>term_arr := (term_arr s)[i := f (term_arr s ! i)]\<rparr>"

definition save_cursor :: "nat \<Rightarrow> 'a screen_scheme \<Rightarrow> 'a screen_scheme" where
  "save_cursor i s = upd_term i (\<lambda>t. t\<lparr>t_screen_x := word_of_int (screen_x s),
                                        t_screen_y := word_of_int (screen_y s)\<rparr>) s"

definition load_video_mem :: "nat \<Rightarrow> 'a screen_scheme \<Rightarrow> 'a screen_scheme" where
  "load_video_mem i s = s\<lparr>video_mem := uint (vid_mem_addr (term_arr s ! i))\<rparr>"

section \<open>The operations\<close>

definition clear_cell :: "nat \<Rightarrow> 'a screen_scheme \<Rightarrow> 'a screen_scheme res" where
  "clear_cell i s = and_then (vwrite (video_mem s + 2 * int i) 0x20 s)
     (\<lambda>s. vwrite (video_mem s + 2 * int i + 1) 0x7 s)"

definition clear :: "'a screen_scheme \<Rightarrow> 'a screen_scheme res" where
  "clear s = fold_res clear_cell [0..<25 * 80] s"

text \<open>The body of \<open>enable_cursor\<close> is commented out in the source.\<close>

definition enable_cursor :: "u8 \<Rightarrow> u8 \<Rightarrow> 'a screen_scheme \<Rightarrow> 'a screen_scheme" where
  "enable_cursor cursor_start cursor_end s = s"

definition update_cursor :: "'a screen_scheme \<Rightarrow> 'a screen_scheme res" where
  "update_cursor s =
     (let temp_x = screen_x s; temp_y = screen_y s
      in and_then (load_cursor (user_term s) s) (\<lambda>s.
         let pos = word_of_int (screen_y s * 80 + screen_x s) :: u16;
             s = outb 0x0F 0x3D4 s;
             s = outb (ucast (pos AND 0xFF)) 0x3D5 s;
             s = outb 0x0E 0x3D4 s;
             s = outb (ucast (drop_bit 8 pos AND 0xFF)) 0x3D5 s
         in Inr (s\<lparr>screen_x := temp_x, screen_y := temp_y\<rparr>)))"

definition reset :: "'a screen_scheme \<Rightarrow> 'a screen_scheme res" where
  "reset s =
     and_then (load_cursor (user_term s) s) (\<lambda>s.
     and_then (fold_res clear_cell [0..<25 * 80] s) (\<lambda>s.
     Inr (save_cursor (user_term s) (enable_cursor 0 0 (s\<lparr>screen_x := 0, screen_y := 0\<rparr>)))))"

definition backspace :: "'a screen_scheme \<Rightarrow> 'a screen_scheme res" where
  "backspace s =
     and_then (load_cursor (user_term s) s) (\<lambda>s.
     let s = load_video_mem (user_term s) s;
         i = 80 * screen_y s + screen_x s - 1
     in and_then (vwrite (video_mem s + 2 * i) 0 s) (\<lambda>s.
        let s = (if screen_x s = 0 \<and> screen_y s \<noteq> 0
                 then s\<lparr>screen_x := 79, screen_y := screen_y s - 1\<rparr>
                 else if screen_x s \<noteq> 0 then s\<lparr>screen_x := screen_x s - 1\<rparr>
                 else s\<lparr>screen_x := 0, screen_y := 0\<rparr>)
        in Inr (save_cursor (user_term s) s)))"

definition enter_on :: "nat \<Rightarrow> 'a screen_scheme \<Rightarrow> 'a screen_scheme res" where
  "enter_on i s = and_then (load_cursor i s) (\<lambda>s.
     let s = (if screen_y s = 24 then s\<lparr>screen_y := 24, scrollFlag := 1\<rparr>
              else s\<lparr>screen_y := screen_y s + 1, scrollFlag := 0\<rparr>)
     in Inr (save_cursor i (s\<lparr>screen_x := 0\<rparr>)))"

definition enter :: "'a screen_scheme \<Rightarrow> 'a screen_scheme res" where
  "enter s = enter_on (proc_term s) s"

definition enter_user :: "'a screen_scheme \<Rightarrow> 'a screen_scheme res" where
  "enter_user s = and_then (enter_on (user_term s) s)
     (\<lambda>s. Inr (upd_term (user_term s) (\<lambda>t. t\<lparr>enterFlag := 1\<rparr>) s))"

definition newline_check_on :: "nat \<Rightarrow> 'a screen_scheme \<Rightarrow> 'a screen_scheme res" where
  "newline_check_on i s = and_then (load_cursor i s) (\<lambda>s.
     let s = (if screen_y s = 24 then s\<lparr>screen_y := 24, scrollFlag := 1\<rparr> else s)
     in Inr (save_cursor i (s\<lparr>screen_x := 0\<rparr>)))"

definition newline_check :: "'a screen_scheme \<Rightarrow> 'a screen_scheme res" where
  "newline_check s = newline_check_on (proc_term s) s"

definition newline_check_user :: "'a screen_scheme \<Rightarrow> 'a screen_scheme res" where
  "newline_check_user s = newline_check_on (user_term s) s"

definition get_screen_x :: "'a screen_scheme \<Rightarrow> int" where "get_screen_x s = screen_x s"
definition get_screen_y :: "'a screen_scheme \<Rightarrow> int" where "get_screen_y s = screen_y s"

definition set_screen_x :: "u8 \<Rightarrow> 'a screen_scheme \<Rightarrow> 'a screen_scheme" where
  "set_screen_x x s = s\<lparr>screen_x := uint x\<rparr>"

definition set_screen_y :: "u8 \<Rightarrow> 'a screen_scheme \<Rightarrow> 'a screen_scheme" where
  "set_screen_y y s = s\<lparr>screen_y := uint y\<rparr>"

text \<open>The body of the scroll loop for row \<open>k\<close> and column \<open>l\<close>.\<close>

definition scroll_cell :: "nat \<Rightarrow> nat \<times> nat \<Rightarrow> 'a screen_scheme \<Rightarrow> 'a screen_scheme res" where
  "scroll_cell t kl s =
     (let k = fst kl; l = snd kl;
          i = 80 * int k + int l;
          j = 80 * (int k - 1) + int l;
          s = load_video_mem t s
      in and_then (vread (video_mem s + 2 * i) s) (\<lambda>b.
         and_then (if b \<noteq> 0 then vwrite (video_mem s + 2 * j) b s else Inr s) (\<lambda>s.
         if k = 24 then vwrite (video_mem s + 2 * i) 0x20 s else Inr s)))"

definition vert_scroll_on :: "nat \<Rightarrow> 'a screen_scheme \<Rightarrow> 'a screen_scheme res" where
  "vert_scroll_on t s =
     and_then (load_cursor t s) (\<lambda>s.
     and_then (if screen_y s = 24 \<and> scrollFlag s = 1
               then and_then (fold_res (scroll_cell t) (List.product [1..<25] [0..<80]) s)
                      (\<lambda>s. Inr (s\<lparr>scrollFlag := 0\<rparr>))
               else Inr s) (\<lambda>s.
     and_then (update_cursor s) (\<lambda>s.
     Inr (upd_term t (\<lambda>x. x\<lparr>t_screen_x := word_of_int (screen_x s)\<rparr>) s))))"

definition vert_scroll :: "'a screen_scheme \<Rightarrow> 'a screen_scheme res" where
  "vert_scroll s = vert_scroll_on (proc_term s) s"

definition vert_scroll_user :: "'a screen_scheme \<Rightarrow> 'a screen_scheme res" where
  "vert_scroll_user s = vert_scroll_on (user_term s) s"

text \<open>\<open>screen_x\<close> is below 80 when it is divided, so the carry into \<open>screen_y\<close> is always zero.\<close>

definition putc_on :: "nat \<Rightarrow> u8 \<Rightarrow> 'a screen_scheme \<Rightarrow> 'a screen_scheme res" where
  "putc_on i c s =
     and_then (load_cursor i (load_video_mem i s)) (\<lambda>s.
     and_then (if c = 0x0A \<or> c = 0x0D
               then Inr (if screen_y s = 24 then s\<lparr>screen_y := 24, screen_x := 0\<rparr>
                         else s\<lparr>screen_y := screen_y s + 1, screen_x := 0\<rparr>)
               else let at = video_mem s + 2 * (80 * screen_y s + screen_x s)
                    in and_then (vwrite at c s) (\<lambda>s.
                       and_then (vwrite (at + 1) 0x7 s) (\<lambda>s.
                       let x = (screen_x s + 1) smod 80
                       in Inr (s\<lparr>screen_x := x, screen_y := (screen_y s + x sdiv 80) smod 25\<rparr>)))) (\<lambda>s.
     update_cursor (save_cursor i s)))"

definition putc :: "u8 \<Rightarrow> 'a screen_scheme \<Rightarrow> 'a screen_scheme res" where
  "putc c s = putc_on (proc_term s) c s"

definition putc_user :: "u8 \<Rightarrow> 'a screen_scheme \<Rightarrow> 'a screen_scheme res" where
  "putc_user c s = putc_on (user_term s) c s"

section \<open>The cursor stays on the screen\<close>

definition cursor_ok :: "'a screen_scheme \<Rightarrow> bool" where
  "cursor_ok s \<longleftrightarrow>
     length (term_arr s) = 3 \<and> user_term s < 3 \<and> proc_term s < 3
     \<and> (\<forall>t \<in> set (term_arr s). t_screen_x t < 80 \<and> t_screen_y t < 25)
     \<and> 0 \<le> screen_x s \<and> screen_x s < 80 \<and> 0 \<le> screen_y s \<and> screen_y s < 25"

text \<open>
  What the screen functions leave alone: \<open>erase\<close> forgets the fields they may change (the
  cursors, flags, the ports and physical memory), so \<open>erase t = erase s\<close> says that every other
  field of the machine, of the kernel and of the terminals is the same. It says nothing of
  memory: which bytes of that they write is \<open>screen_bytes\<close> below.
\<close>

definition erase_term :: "terminal \<Rightarrow> terminal" where
  "erase_term t = t\<lparr>t_screen_x := 0, t_screen_y := 0, newline_tracker := 0, enterFlag := 0\<rparr>"

definition erase :: "'a screen_scheme \<Rightarrow> 'a screen_scheme" where
  "erase s = s\<lparr>phys := (\<lambda>_. 0), io_hist := [], screen_x := 0, screen_y := 0, video_mem := 0,
               scrollFlag := 0, term_arr := map erase_term (term_arr s)\<rparr>"

definition scr_inv :: "'a screen_scheme \<Rightarrow> 'a screen_scheme \<Rightarrow> bool" where
  "scr_inv e s \<longleftrightarrow> cursor_ok s \<and> erase s = e"

lemma u8_less:
  fixes n :: u8
  assumes "0 \<le> x" and "x < uint n"
  shows "word_of_int x < n"
proof -
  have "uint n < 256" using uint_lt2p [of n] by simp
  then have "uint (word_of_int x :: u8) = x" using assms by (simp add: uint_word_of_int)
  then show ?thesis using assms by (simp add: word_less_def)
qed

lemma scr_inv_fields [simp]:
  "scr_inv e (s\<lparr>phys := p\<rparr>) = scr_inv e s"
  "scr_inv e (s\<lparr>io_hist := h\<rparr>) = scr_inv e s"
  "scr_inv e (s\<lparr>video_mem := a\<rparr>) = scr_inv e s"
  "scr_inv e (s\<lparr>scrollFlag := f\<rparr>) = scr_inv e s"
  by (simp_all add: scr_inv_def cursor_ok_def erase_def)

lemma scr_inv_xy:
  "scr_inv e s \<Longrightarrow> 0 \<le> x \<Longrightarrow> x < 80 \<Longrightarrow> scr_inv e (s\<lparr>screen_x := x\<rparr>)"
  "scr_inv e s \<Longrightarrow> 0 \<le> y \<Longrightarrow> y < 25 \<Longrightarrow> scr_inv e (s\<lparr>screen_y := y\<rparr>)"
  by (simp_all add: scr_inv_def cursor_ok_def erase_def)

lemma scr_inv_range:
  assumes "scr_inv e s"
  shows "0 \<le> screen_x s" "screen_x s < 80" "0 \<le> screen_y s" "screen_y s < 25"
  using assms by (auto simp: scr_inv_def cursor_ok_def)

lemma scr_inv_term:
  assumes "scr_inv e s"
  shows "length (term_arr s) = 3" "user_term s < 3" "proc_term s < 3"
  using assms by (auto simp: scr_inv_def cursor_ok_def)

lemma map_update_same: "f (g (xs ! i)) = f (xs ! i) \<Longrightarrow> map f (xs[i := g (xs ! i)]) = map f xs"
  by (cases "i < length xs") (simp_all add: map_update list_update_same_conv list_update_beyond)

text \<open>An update of one terminal that keeps its cursor on the screen and the erased fields.\<close>

lemma scr_inv_upd_term:
  assumes "scr_inv e s" and "\<And>t. erase_term (f t) = erase_term t"
    and "\<And>t. t_screen_x t < 80 \<Longrightarrow> t_screen_x (f t) < 80"
    and "\<And>t. t_screen_y t < 25 \<Longrightarrow> t_screen_y (f t) < 25"
  shows "scr_inv e (upd_term i f s)"
proof (cases "i < length (term_arr s)")
  case True
  have "t_screen_x t < 80 \<and> t_screen_y t < 25"
    if t: "t \<in> set ((term_arr s)[i := f (term_arr s ! i)])" for t
  proof -
    have old: "u \<in> set (term_arr s) \<Longrightarrow> t_screen_x u < 80 \<and> t_screen_y u < 25" for u
      using assms(1) by (auto simp: scr_inv_def cursor_ok_def)
    from subsetD [OF set_update_subset_insert t] show ?thesis
      using old assms(3,4) nth_mem [OF True] by auto
  qed
  moreover have "map erase_term ((term_arr s)[i := f (term_arr s ! i)]) = map erase_term (term_arr s)"
    using assms(2) by (rule map_update_same)
  ultimately show ?thesis
    using assms(1) by (simp add: scr_inv_def cursor_ok_def upd_term_def erase_def)
next
  case False
  then show ?thesis using assms(1) by (simp add: upd_term_def list_update_beyond)
qed

lemma scr_inv_save_cursor: "scr_inv e s \<Longrightarrow> scr_inv e (save_cursor i s)"
  unfolding save_cursor_def
  by (rule scr_inv_upd_term)
    (auto simp: erase_term_def intro!: u8_less dest: scr_inv_range)

lemma load_cursor_Inr:
  assumes "scr_inv e s" and "load_cursor i s = Inr t"
  shows "scr_inv e t" "term_arr t = term_arr s" "i < length (term_arr s)"
proof -
  from assms(2) have i: "i < length (term_arr s)" and t: "t = s\<lparr>
      screen_x := uint (t_screen_x (term_arr s ! i)), screen_y := uint (t_screen_y (term_arr s ! i))\<rparr>"
    by (simp_all add: load_cursor_def)
  have "t_screen_x (term_arr s ! i) < 80" "t_screen_y (term_arr s ! i) < 25"
    using assms(1) i by (auto simp: scr_inv_def cursor_ok_def)
  then show "scr_inv e t" using assms(1) unfolding t
    by (intro scr_inv_xy) (simp_all add: word_less_def)
  show "term_arr t = term_arr s" "i < length (term_arr s)" using i by (simp_all add: t)
qed

lemma vwrite_Inr:
  assumes "vwrite a b s = Inr t"
  obtains pa where "xlate s a = Some pa" and "t = s\<lparr>phys := (phys s)(pa := b)\<rparr>"
  using assms by (auto simp: vwrite_def split: option.splits)

lemma scr_inv_vwrite: "scr_inv e s \<Longrightarrow> vwrite a b s = Inr t \<Longrightarrow> scr_inv e t"
  by (erule vwrite_Inr) simp

lemma update_cursor_eq:
  "update_cursor s = Inr t \<Longrightarrow> t = s\<lparr>io_hist := io_hist t\<rparr>"
  by (auto simp: update_cursor_def and_then_Inr_iff Let_def load_cursor_def outb_def)

lemma scr_inv_update_cursor: "scr_inv e s \<Longrightarrow> update_cursor s = Inr t \<Longrightarrow> scr_inv e t"
  by (drule update_cursor_eq) (metis scr_inv_fields(2))

text \<open>Each function keeps the invariant: the interpretations of \<open>keeps\<close>.\<close>

interpretation clear_cell: keeps "scr_inv e" clear_cell for e :: "'a screen_scheme"
proof
  fix s t :: "'a screen_scheme" and i
  assume "scr_inv e s" and "clear_cell i s = Inr t"
  then show "scr_inv e t"
    by (auto simp: clear_cell_def and_then_Inr_iff intro: scr_inv_vwrite)
qed

interpretation scroll_cell: keeps "scr_inv e" "scroll_cell i" for e :: "'a screen_scheme" and i
proof
  fix s t :: "'a screen_scheme" and kl
  assume inv: "scr_inv e s" and "scroll_cell i kl s = Inr t"
  moreover have "scr_inv e (load_video_mem i s)" using inv by (simp add: load_video_mem_def)
  ultimately show "scr_inv e t"
    by (auto simp: scroll_cell_def Let_def and_then_Inr_iff intro: scr_inv_vwrite split: if_splits)
qed

lemma scr_inv_reset:
  assumes "scr_inv e s" and "reset s = Inr t"
  shows "scr_inv e t"
proof -
  from assms(2) obtain u v where "load_cursor (user_term s) s = Inr u"
    and v: "fold_res clear_cell [0..<25 * 80] u = Inr v"
    and t: "t = save_cursor (user_term v) (enable_cursor 0 0 (v\<lparr>screen_x := 0, screen_y := 0\<rparr>))"
    by (auto simp: reset_def and_then_Inr_iff simp del: upt_rec_numeral)
  with assms(1) have "scr_inv e u" by (blast dest: load_cursor_Inr(1))
  from clear_cell.loop_inv [OF this v] show ?thesis
    unfolding t enable_cursor_def by (intro scr_inv_save_cursor scr_inv_xy) simp_all
qed

lemma scr_inv_backspace:
  assumes "scr_inv e s" and "backspace s = Inr t"
  shows "scr_inv e t"
proof -
  from assms(2) obtain u v where "load_cursor (user_term s) s = Inr u"
    and v: "vwrite (video_mem (load_video_mem (user_term u) u)
              + 2 * (80 * screen_y (load_video_mem (user_term u) u)
                 + screen_x (load_video_mem (user_term u) u) - 1)) 0 (load_video_mem (user_term u) u) = Inr v"
    and t: "t = (let s = (if screen_x v = 0 \<and> screen_y v \<noteq> 0
                 then v\<lparr>screen_x := 79, screen_y := screen_y v - 1\<rparr>
                 else if screen_x v \<noteq> 0 then v\<lparr>screen_x := screen_x v - 1\<rparr>
                 else v\<lparr>screen_x := 0, screen_y := 0\<rparr>)
        in save_cursor (user_term s) s)"
    by (auto simp: backspace_def and_then_Inr_iff Let_def split: if_splits)
  with assms(1) have "scr_inv e u" by (blast dest: load_cursor_Inr(1))
  then have "scr_inv e (load_video_mem (user_term u) u)" by (simp add: load_video_mem_def)
  from scr_inv_vwrite [OF this v] have "scr_inv e v" .
  then show ?thesis unfolding t Let_def
    using scr_inv_range [of e v]
    by (intro scr_inv_save_cursor) (auto intro!: scr_inv_xy)
qed

lemma scr_inv_enter_on: "scr_inv e s \<Longrightarrow> enter_on i s = Inr t \<Longrightarrow> scr_inv e t"
proof -
  assume "scr_inv e s" and "enter_on i s = Inr t"
  then obtain u where u: "scr_inv e u" and t: "t = save_cursor i
      ((if screen_y u = 24 then u\<lparr>screen_y := 24, scrollFlag := 1\<rparr>
        else u\<lparr>screen_y := screen_y u + 1, scrollFlag := 0\<rparr>)\<lparr>screen_x := 0\<rparr>)"
    by (auto simp: enter_on_def and_then_Inr_iff Let_def dest: load_cursor_Inr(1) split: if_splits)
  from u show ?thesis unfolding t
    using scr_inv_range [OF u] by (intro scr_inv_save_cursor scr_inv_xy) (auto intro!: scr_inv_xy)
qed

lemma scr_inv_newline_check_on: "scr_inv e s \<Longrightarrow> newline_check_on i s = Inr t \<Longrightarrow> scr_inv e t"
proof -
  assume "scr_inv e s" and "newline_check_on i s = Inr t"
  then obtain u where u: "scr_inv e u" and t: "t = save_cursor i
      ((if screen_y u = 24 then u\<lparr>screen_y := 24, scrollFlag := 1\<rparr> else u)\<lparr>screen_x := 0\<rparr>)"
    by (auto simp: newline_check_on_def and_then_Inr_iff Let_def dest: load_cursor_Inr(1) split: if_splits)
  from u show ?thesis unfolding t by (intro scr_inv_save_cursor scr_inv_xy) (auto intro!: scr_inv_xy)
qed

lemma scr_inv_enter_user: "scr_inv e s \<Longrightarrow> enter_user s = Inr t \<Longrightarrow> scr_inv e t"
  by (auto simp: enter_user_def and_then_Inr_iff erase_term_def dest: scr_inv_enter_on
      intro!: scr_inv_upd_term)

lemma scr_inv_vert_scroll_on:
  assumes "scr_inv e s" and "vert_scroll_on i s = Inr t"
  shows "scr_inv e t"
proof -
  from assms(2) obtain u v w where u: "load_cursor i s = Inr u"
    and v: "(if screen_y u = 24 \<and> scrollFlag u = 1
             then and_then (fold_res (scroll_cell i) (List.product [1..<25] [0..<80]) u)
                    (\<lambda>s. Inr (s\<lparr>scrollFlag := 0\<rparr>)) else Inr u) = Inr v"
    and w: "update_cursor v = Inr w"
    and t: "t = upd_term i (\<lambda>x. x\<lparr>t_screen_x := word_of_int (screen_x w)\<rparr>) w"
    unfolding vert_scroll_on_def and_then_Inr_iff by blast
  have u': "scr_inv e u" by (rule load_cursor_Inr(1) [OF assms(1) u])
  have "scr_inv e v"
  proof (cases "screen_y u = 24 \<and> scrollFlag u = 1")
    case True
    with v obtain x where "fold_res (scroll_cell i) (List.product [1..<25] [0..<80]) u = Inr x"
      and "v = x\<lparr>scrollFlag := 0\<rparr>" by (auto simp only: and_then_Inr_iff if_True sum.inject simp_thms)
    with scroll_cell.loop_inv [OF u'] show ?thesis by simp
  next
    case False
    with v u' show ?thesis by (simp only: if_False sum.inject)
  qed
  from scr_inv_update_cursor [OF this w] show ?thesis unfolding t
    by (intro scr_inv_upd_term) (auto simp: erase_term_def intro!: u8_less dest: scr_inv_range)
qed

lemma scr_inv_putc_on:
  assumes "scr_inv e s" and "putc_on i c s = Inr t"
  shows "scr_inv e t"
proof -
  from assms(2) obtain u v where u: "load_cursor i (load_video_mem i s) = Inr u"
    and v: "(if c = 0x0A \<or> c = 0x0D
               then Inr (if screen_y u = 24 then u\<lparr>screen_y := 24, screen_x := 0\<rparr>
                         else u\<lparr>screen_y := screen_y u + 1, screen_x := 0\<rparr>)
               else let at = video_mem u + 2 * (80 * screen_y u + screen_x u)
                    in and_then (vwrite at c u) (\<lambda>s.
                       and_then (vwrite (at + 1) 0x7 s) (\<lambda>s.
                       let x = (screen_x s + 1) smod 80
                       in Inr (s\<lparr>screen_x := x, screen_y := (screen_y s + x sdiv 80) smod 25\<rparr>)))) = Inr v"
    and t: "update_cursor (save_cursor i v) = Inr t"
    unfolding putc_on_def and_then_Inr_iff by blast
  have "scr_inv e (load_video_mem i s)" using assms(1) by (simp add: load_video_mem_def)
  then have u': "scr_inv e u" using u by (rule load_cursor_Inr(1))
  have "scr_inv e v"
  proof (cases "c = 0x0A \<or> c = 0x0D")
    case True
    with v show ?thesis using u' scr_inv_range [OF u']
      by (auto intro!: scr_inv_xy split: if_splits)
  next
    case False
    with v obtain x y where "vwrite (video_mem u + 2 * (80 * screen_y u + screen_x u)) c u = Inr x"
      and "vwrite (video_mem u + 2 * (80 * screen_y u + screen_x u) + 1) 0x7 x = Inr y"
      and v': "v = y\<lparr>screen_x := (screen_x y + 1) smod 80,
           screen_y := (screen_y y + (screen_x y + 1) smod 80 sdiv 80) smod 25\<rparr>"
      by (auto simp: and_then_Inr_iff Let_def)
    then have y: "scr_inv e y" using u' by (blast intro: scr_inv_vwrite)
    then show ?thesis unfolding v' using scr_inv_range [OF y]
      by (intro scr_inv_xy) (auto simp: smod_nonneg sdiv_nonneg)
  qed
  then show ?thesis using t by (blast intro: scr_inv_save_cursor scr_inv_update_cursor)
qed

interpretation putc: keeps "scr_inv e" putc for e :: "'a screen_scheme"
  by unfold_locales (auto simp: putc_def intro: scr_inv_putc_on)

interpretation putc_user: keeps "scr_inv e" putc_user for e :: "'a screen_scheme"
  by unfold_locales (auto simp: putc_user_def intro: scr_inv_putc_on)

section \<open>The bytes a screen function can write\<close>

text \<open>
  The physical bytes behind the windows whose addresses are in \<open>B\<close>: 2000 cells of two bytes, and
  the two bytes before them, where \<open>backspace\<close> writes in the top left corner.
\<close>

definition window_bytes :: "addr set \<Rightarrow> 'a screen_scheme \<Rightarrow> addr set" where
  "window_bytes B s = {pa. \<exists>b \<in> B. \<exists>d. -2 \<le> d \<and> d < 4000 \<and> xlate s (b + d) = Some pa}"

text \<open>The windows that a state knows: where it draws, and those of the terminals.\<close>

definition bases :: "'a screen_scheme \<Rightarrow> addr set" where
  "bases s = insert (video_mem s) ((\<lambda>t. uint (vid_mem_addr t)) ` set (term_arr s))"

definition screen_bytes :: "'a screen_scheme \<Rightarrow> addr set" where
  "screen_bytes s = window_bytes (bases s) s"

text \<open>From \<open>s\<close> to \<open>t\<close> only bytes of windows in \<open>B\<close> were written, and \<open>t\<close> draws in windows in \<open>B\<close>.\<close>

definition foot :: "addr set \<Rightarrow> 'a screen_scheme \<Rightarrow> 'a screen_scheme \<Rightarrow> bool" where
  "foot B s t \<longleftrightarrow> xlate t = xlate s \<and> bases t \<subseteq> B \<and> (\<forall>pa. pa \<notin> window_bytes B s \<longrightarrow> phys t pa = phys s pa)"

lemma foot_refl: "foot (bases s) s s"
  by (simp add: foot_def)

lemma xlate_screen_fields [simp]:
  "xlate (s\<lparr>screen_x := x\<rparr>) = xlate s" "xlate (s\<lparr>screen_y := x\<rparr>) = xlate s"
  "xlate (s\<lparr>video_mem := a\<rparr>) = xlate s" "xlate (s\<lparr>scrollFlag := n\<rparr>) = xlate s"
  "xlate (s\<lparr>term_arr := ts\<rparr>) = xlate s"
  by (auto simp: fun_eq_iff xlate_def walk_def table_at_def Let_def split: option.splits)

lemma foot_fields [simp]:
  "foot B s (t\<lparr>screen_x := x\<rparr>) = foot B s t" "foot B s (t\<lparr>screen_y := x\<rparr>) = foot B s t"
  "foot B s (t\<lparr>scrollFlag := n\<rparr>) = foot B s t" "foot B s (t\<lparr>io_hist := h\<rparr>) = foot B s t"
  by (simp_all add: foot_def bases_def)

lemma foot_load_video_mem: "foot B s t \<Longrightarrow> i < length (term_arr t) \<Longrightarrow> foot B s (load_video_mem i t)"
  by (auto simp: foot_def bases_def load_video_mem_def)

lemma foot_upd_term:
  assumes "foot B s t" and "\<And>x. vid_mem_addr (f x) = vid_mem_addr x"
  shows "foot B s (upd_term i f t)"
proof (cases "i < length (term_arr t)")
  case True
  have "(\<lambda>x. uint (vid_mem_addr x)) ` set ((term_arr t)[i := f (term_arr t ! i)])
      \<subseteq> (\<lambda>x. uint (vid_mem_addr x)) ` set (term_arr t)"
  proof
    fix a
    assume "a \<in> (\<lambda>x. uint (vid_mem_addr x)) ` set ((term_arr t)[i := f (term_arr t ! i)])"
    then obtain x where x: "x \<in> insert (f (term_arr t ! i)) (set (term_arr t))" "a = uint (vid_mem_addr x)"
      using set_update_subset_insert [of "term_arr t" i "f (term_arr t ! i)"] by auto
    then show "a \<in> (\<lambda>x. uint (vid_mem_addr x)) ` set (term_arr t)"
      using nth_mem [OF True] assms(2) by auto
  qed
  then show ?thesis using assms(1) by (auto simp: foot_def bases_def upd_term_def)
next
  case False
  then show ?thesis using assms(1) by (simp add: upd_term_def list_update_beyond)
qed

lemma foot_save_cursor: "foot B s t \<Longrightarrow> foot B s (save_cursor i t)"
  unfolding save_cursor_def by (rule foot_upd_term) simp_all

lemma foot_load_cursor: "foot B s t \<Longrightarrow> load_cursor i t = Inr u \<Longrightarrow> foot B s u"
  by (auto simp: load_cursor_def)

lemma foot_update_cursor: "foot B s t \<Longrightarrow> update_cursor t = Inr u \<Longrightarrow> foot B s u"
  by (drule update_cursor_eq) (metis foot_fields(4))

text \<open>A write to a window that the state knows.\<close>

lemma foot_vwrite:
  assumes "foot B s t" and "vwrite (a + d) b t = Inr u" and "a \<in> B" and "-2 \<le> d" and "d < 4000"
  shows "foot B s u" and "term_arr u = term_arr t" and "video_mem u = video_mem t"
    and "screen_x u = screen_x t" and "screen_y u = screen_y t"
proof -
  obtain pa where pa: "xlate t (a + d) = Some pa" and u: "u = t\<lparr>phys := (phys t)(pa := b)\<rparr>"
    using assms(2) by (rule vwrite_Inr)
  have "xlate s (a + d) = Some pa" using pa assms(1) by (simp add: foot_def)
  then have "pa \<in> window_bytes B s" using assms(3-5) unfolding window_bytes_def by blast
  then show "foot B s u" using assms(1) by (auto simp: foot_def bases_def u)
  show "term_arr u = term_arr t" "video_mem u = video_mem t" "screen_x u = screen_x t" "screen_y u = screen_y t"
    by (simp_all add: u)
qed

lemma foot_bases: "foot B s t \<Longrightarrow> video_mem t \<in> B"
  by (auto simp: foot_def bases_def)

lemma foot_clear_cell: "foot B s t \<Longrightarrow> clear_cell i t = Inr u \<Longrightarrow> i < 2000 \<Longrightarrow> foot B s u"
proof -
  assume f: "foot B s t" and "clear_cell i t = Inr u" and i: "i < 2000"
  then obtain v where v: "vwrite (video_mem t + 2 * int i) 0x20 t = Inr v"
    "vwrite (video_mem v + (2 * int i + 1)) 0x7 v = Inr u"
    by (auto simp: clear_cell_def and_then_Inr_iff add.assoc)
  have d: "-2 \<le> 2 * int i" "2 * int i < 4000" "-2 \<le> 2 * int i + 1" "2 * int i + 1 < 4000" using i by simp_all
  note w = foot_vwrite [OF f v(1) foot_bases [OF f] d(1,2)]
  show "foot B s u" by (rule foot_vwrite(1) [OF w(1) v(2) foot_bases [OF w(1)] d(3,4)])
qed

lemma foot_clear_loop:
  "foot B s t \<Longrightarrow> fold_res clear_cell xs t = Inr u \<Longrightarrow> \<forall>i \<in> set xs. i < 2000 \<Longrightarrow> foot B s u"
  by (induction xs arbitrary: t) (auto simp: and_then_Inr_iff intro: foot_clear_cell)

lemma foot_clear: "foot B s t \<Longrightarrow> clear t = Inr u \<Longrightarrow> foot B s u"
  unfolding clear_def by (erule foot_clear_loop) auto

lemma foot_reset: "foot B s t \<Longrightarrow> reset t = Inr u \<Longrightarrow> foot B s u"
proof -
  assume f: "foot B s t" and "reset t = Inr u"
  then obtain v w where v: "load_cursor (user_term t) t = Inr v" "fold_res clear_cell [0..<25 * 80] v = Inr w"
    and u: "u = save_cursor (user_term w) (enable_cursor 0 0 (w\<lparr>screen_x := 0, screen_y := 0\<rparr>))"
    by (auto simp: reset_def and_then_Inr_iff simp del: upt_rec_numeral)
  have "foot B s w" by (rule foot_clear_loop [OF foot_load_cursor [OF f v(1)] v(2)]) auto
  then show "foot B s u" unfolding u enable_cursor_def by (intro foot_save_cursor) simp
qed

lemma foot_backspace:
  assumes inv: "scr_inv e t" and f: "foot B s t" and "backspace t = Inr u"
  shows "foot B s u"
proof -
  from assms(3) obtain v w where v: "load_cursor (user_term t) t = Inr v"
    and w: "vwrite (video_mem (load_video_mem (user_term v) v)
              + 2 * (80 * screen_y (load_video_mem (user_term v) v)
                 + screen_x (load_video_mem (user_term v) v) - 1)) 0 (load_video_mem (user_term v) v) = Inr w"
    and u: "u = (let s = (if screen_x w = 0 \<and> screen_y w \<noteq> 0
                 then w\<lparr>screen_x := 79, screen_y := screen_y w - 1\<rparr>
                 else if screen_x w \<noteq> 0 then w\<lparr>screen_x := screen_x w - 1\<rparr>
                 else w\<lparr>screen_x := 0, screen_y := 0\<rparr>)
        in save_cursor (user_term s) s)"
    by (auto simp: backspace_def and_then_Inr_iff Let_def split: if_splits)
  let ?v = "load_video_mem (user_term v) v"
  have iv: "scr_inv e v" using inv v by (rule load_cursor_Inr(1))
  have n: "user_term v < length (term_arr v)" using scr_inv_term(1,2) [OF iv] by simp
  have fv: "foot B s ?v" by (rule foot_load_video_mem [OF foot_load_cursor [OF f v] n])
  have xy: "screen_x ?v = screen_x v" "screen_y ?v = screen_y v" by (simp_all add: load_video_mem_def)
  have d: "-2 \<le> 2 * (80 * screen_y ?v + screen_x ?v - 1)" "2 * (80 * screen_y ?v + screen_x ?v - 1) < 4000"
    using scr_inv_range [OF iv] unfolding xy by simp_all
  have "foot B s w" by (rule foot_vwrite(1) [OF fv w foot_bases [OF fv] d])
  then show ?thesis unfolding u Let_def by (intro foot_save_cursor) simp
qed

lemma foot_enter_on: "foot B s t \<Longrightarrow> enter_on i t = Inr u \<Longrightarrow> foot B s u"
  by (auto simp: enter_on_def and_then_Inr_iff Let_def dest: foot_load_cursor intro!: foot_save_cursor split: if_splits)

lemma foot_enter_user: "foot B s t \<Longrightarrow> enter_user t = Inr u \<Longrightarrow> foot B s u"
  by (auto simp: enter_user_def and_then_Inr_iff dest: foot_enter_on intro!: foot_upd_term)

lemma foot_newline_check_on: "foot B s t \<Longrightarrow> newline_check_on i t = Inr u \<Longrightarrow> foot B s u"
  by (auto simp: newline_check_on_def and_then_Inr_iff Let_def dest: foot_load_cursor intro!: foot_save_cursor
      split: if_splits)

lemma foot_scroll_cell:
  assumes f: "foot B s t" and "scroll_cell i (k, l) t = Inr u" and i: "i < length (term_arr t)"
    and k: "1 \<le> k" "k < 25" "l < 80"
  shows "foot B s u \<and> length (term_arr u) = length (term_arr t)"
proof -
  let ?t = "load_video_mem i t"
  from assms(2) obtain b v where
    v: "(if b \<noteq> 0 then vwrite (video_mem ?t + 2 * (80 * (int k - 1) + int l)) b ?t else Inr ?t) = Inr v"
    and u: "(if k = 24 then vwrite (video_mem v + 2 * (80 * int k + int l)) 0x20 v else Inr v) = Inr u"
    unfolding scroll_cell_def Let_def and_then_Inr_iff fst_conv snd_conv by blast
  have ft: "foot B s ?t" and len: "term_arr ?t = term_arr t"
    using foot_load_video_mem [OF f i] by (simp_all add: load_video_mem_def)
  have d: "-2 \<le> 2 * (80 * (int k - 1) + int l)" "2 * (80 * (int k - 1) + int l) < 4000"
    "-2 \<le> 2 * (80 * int k + int l)" "2 * (80 * int k + int l) < 4000"
    using k by simp_all
  have fv: "foot B s v \<and> term_arr v = term_arr t \<and> video_mem v = video_mem ?t"
  proof (cases "b = 0")
    case True
    then show ?thesis using v ft len by auto
  next
    case False
    then have "vwrite (video_mem ?t + 2 * (80 * (int k - 1) + int l)) b ?t = Inr v" using v by simp
    from foot_vwrite(1-3) [OF ft this foot_bases [OF ft] d(1,2)] show ?thesis using len by simp
  qed
  show ?thesis
  proof (cases "k = 24")
    case True
    then have "vwrite (video_mem ?t + 2 * (80 * int k + int l)) 0x20 v = Inr u" using u fv by simp
    from foot_vwrite(1,2) [OF conjunct1 [OF fv] this foot_bases [OF ft] d(3,4)] show ?thesis using fv by simp
  next
    case False
    then show ?thesis using u fv by auto
  qed
qed

lemma foot_scroll_loop:
  "foot B s t \<Longrightarrow> fold_res (scroll_cell i) kls t = Inr u \<Longrightarrow> i < length (term_arr t) \<Longrightarrow>
     \<forall>(k, l) \<in> set kls. 1 \<le> k \<and> k < 25 \<and> l < 80 \<Longrightarrow> foot B s u"
proof (induction kls arbitrary: t)
  case Nil
  then show ?case by simp
next
  case (Cons kl kls)
  obtain k l where kl: "kl = (k, l)" by fastforce
  obtain v where v: "scroll_cell i (k, l) t = Inr v" "fold_res (scroll_cell i) kls v = Inr u"
    using Cons.prems(2) by (auto simp: kl and_then_Inr_iff)
  have "foot B s v \<and> length (term_arr v) = length (term_arr t)"
    using Cons.prems(1,3,4) v(1) kl by (intro foot_scroll_cell) auto
  then show ?case using Cons.IH [of v] v(2) Cons.prems(3,4) by auto
qed

lemma foot_vert_scroll_on:
  assumes f: "foot B s t" and "vert_scroll_on i t = Inr u"
  shows "foot B s u"
proof -
  from assms(2) obtain v w x where v: "load_cursor i t = Inr v"
    and w: "(if screen_y v = 24 \<and> scrollFlag v = 1
             then and_then (fold_res (scroll_cell i) (List.product [1..<25] [0..<80]) v)
                    (\<lambda>s. Inr (s\<lparr>scrollFlag := 0\<rparr>)) else Inr v) = Inr w"
    and x: "update_cursor w = Inr x"
    and u: "u = upd_term i (\<lambda>y. y\<lparr>t_screen_x := word_of_int (screen_x x)\<rparr>) x"
    unfolding vert_scroll_on_def and_then_Inr_iff by blast
  have fv: "foot B s v" by (rule foot_load_cursor [OF f v])
  have i: "i < length (term_arr v)" using v by (auto simp: load_cursor_def)
  have "foot B s w"
  proof (cases "screen_y v = 24 \<and> scrollFlag v = 1")
    case True
    with w obtain y where y: "fold_res (scroll_cell i) (List.product [1..<25] [0..<80]) v = Inr y"
      and w': "w = y\<lparr>scrollFlag := 0\<rparr>" by (auto simp only: and_then_Inr_iff if_True sum.inject simp_thms)
    have "\<forall>(k, l) \<in> set (List.product [1..<25] [0..<80]). 1 \<le> k \<and> k < 25 \<and> l < (80 :: nat)"
      unfolding set_product by auto
    from foot_scroll_loop [OF fv y i this] show ?thesis by (simp add: w')
  next
    case False
    with w fv show ?thesis by (simp only: if_False sum.inject)
  qed
  from foot_update_cursor [OF this x] show ?thesis unfolding u by (rule foot_upd_term) simp
qed

lemma foot_putc_on:
  assumes inv: "scr_inv e t" and f: "foot B s t" and "putc_on i c t = Inr u"
  shows "foot B s u"
proof -
  let ?t = "load_video_mem i t"
  from assms(3) obtain v w where v: "load_cursor i ?t = Inr v"
    and w: "(if c = 0x0A \<or> c = 0x0D
               then Inr (if screen_y v = 24 then v\<lparr>screen_y := 24, screen_x := 0\<rparr>
                         else v\<lparr>screen_y := screen_y v + 1, screen_x := 0\<rparr>)
               else let at = video_mem v + 2 * (80 * screen_y v + screen_x v)
                    in and_then (vwrite at c v) (\<lambda>s.
                       and_then (vwrite (at + 1) 0x7 s) (\<lambda>s.
                       let x = (screen_x s + 1) smod 80
                       in Inr (s\<lparr>screen_x := x, screen_y := (screen_y s + x sdiv 80) smod 25\<rparr>)))) = Inr w"
    and u: "update_cursor (save_cursor i w) = Inr u"
    unfolding putc_on_def and_then_Inr_iff by blast
  have it: "scr_inv e ?t" using inv by (simp add: load_video_mem_def)
  have i: "i < length (term_arr t)" using v by (auto simp: load_cursor_def load_video_mem_def)
  have fv: "foot B s v" by (rule foot_load_cursor [OF foot_load_video_mem [OF f i] v])
  have "foot B s w"
  proof (cases "c = 0x0A \<or> c = 0x0D")
    case True
    with w fv show ?thesis by (auto split: if_splits)
  next
    case False
    let ?d = "2 * (80 * screen_y v + screen_x v)"
    from False w obtain x y where x: "vwrite (video_mem v + ?d) c v = Inr x"
      and y: "vwrite (video_mem v + (?d + 1)) 0x7 x = Inr y"
      and w': "w = y\<lparr>screen_x := (screen_x y + 1) smod 80,
           screen_y := (screen_y y + (screen_x y + 1) smod 80 sdiv 80) smod 25\<rparr>"
      by (auto simp: and_then_Inr_iff Let_def add.assoc)
    have d: "-2 \<le> ?d" "?d < 4000" "-2 \<le> ?d + 1" "?d + 1 < 4000"
      using scr_inv_range [OF load_cursor_Inr(1) [OF it v]] by simp_all
    have "foot B s x" by (rule foot_vwrite(1) [OF fv x foot_bases [OF fv] d(1,2)])
    from foot_vwrite(1) [OF this y foot_bases [OF fv] d(3,4)] show ?thesis by (simp add: w')
  qed
  from foot_update_cursor [OF foot_save_cursor [OF this] u] show ?thesis .
qed

section \<open>What is drawn\<close>

text \<open>The window of terminal \<open>i\<close> is mapped: its page translates to the frame at \<open>base\<close>.\<close>

definition window :: "'a screen_scheme \<Rightarrow> nat \<Rightarrow> addr \<Rightarrow> bool" where
  "window s i base \<longleftrightarrow> (\<forall>d. 0 \<le> d \<and> d < 4096 \<longrightarrow>
     xlate s (uint (vid_mem_addr (term_arr s ! i)) + d) = Some (base + d))"

text \<open>The address of the character in row \<open>y\<close>, column \<open>x\<close>.\<close>

definition cell_addr :: "addr \<Rightarrow> int \<Rightarrow> int \<Rightarrow> addr" where
  "cell_addr base x y = base + 2 * (80 * y + x)"

text \<open>The four port writes that move the hardware cursor to that of the terminal on display.\<close>

definition cursor_outs :: "'a screen_scheme \<Rightarrow> io_event list" where
  "cursor_outs s =
     (let t = term_arr s ! user_term s;
          pos = word_of_int (uint (t_screen_y t) * 80 + uint (t_screen_x t)) :: u16
      in [Out 0x3D4 0x0F, Out 0x3D5 (ucast (pos AND 0xFF)),
          Out 0x3D4 0x0E, Out 0x3D5 (ucast (drop_bit 8 pos AND 0xFF))])"

lemma update_cursor_total:
  assumes "cursor_ok s"
  shows "update_cursor s = Inr (s\<lparr>io_hist := io_hist s @ cursor_outs s\<rparr>)"
  using assms
  by (simp add: update_cursor_def load_cursor_def cursor_ok_def cursor_outs_def Let_def outb_def)

lemma load_cursor_total:
  "cursor_ok s \<Longrightarrow> i < 3 \<Longrightarrow> load_cursor i s = Inr
     (s\<lparr>screen_x := uint (t_screen_x (term_arr s ! i)), screen_y := uint (t_screen_y (term_arr s ! i))\<rparr>)"
  by (simp add: load_cursor_def cursor_ok_def)

lemma cursor_ok_nth:
  assumes "cursor_ok s" and "i < 3"
  shows "uint (t_screen_x (term_arr s ! i)) < 80" "uint (t_screen_y (term_arr s ! i)) < 25"
proof -
  have "term_arr s ! i \<in> set (term_arr s)" using assms by (simp add: cursor_ok_def)
  then show "uint (t_screen_x (term_arr s ! i)) < 80" "uint (t_screen_y (term_arr s ! i)) < 25"
    using assms(1) by (auto simp: cursor_ok_def word_less_def)
qed

text \<open>The state after \<open>putc\<close> has drawn at cursor \<open>(x, y)\<close> of terminal \<open>i\<close>, before the
  hardware cursor follows.\<close>

definition putc_result :: "nat \<Rightarrow> addr \<Rightarrow> u8 \<Rightarrow> 'a screen_scheme \<Rightarrow> 'a screen_scheme" where
  "putc_result i base c s =
     (let t = term_arr s ! i; x = uint (t_screen_x t); y = uint (t_screen_y t);
          s = s\<lparr>video_mem := uint (vid_mem_addr t)\<rparr>
      in save_cursor i
           (if c = 0x0A \<or> c = 0x0D then s\<lparr>screen_y := min 24 (y + 1), screen_x := 0\<rparr>
            else s\<lparr>phys := (phys s)(cell_addr base x y := c, cell_addr base x y + 1 := 7),
                   screen_x := (x + 1) mod 80, screen_y := y\<rparr>))"

lemma putc_on_eq:
  assumes ok: "cursor_ok s" and i: "i < 3" and win: "window s i base"
  shows "putc_on i c s = update_cursor (putc_result i base c s)"
proof -
  let ?t = "term_arr s ! i"
  let ?x = "uint (t_screen_x ?t)" and ?y = "uint (t_screen_y ?t)"
  note xy = cursor_ok_nth [OF ok i]
  have x1: "xlate s (uint (vid_mem_addr ?t) + 2 * (80 * ?y + ?x)) = Some (cell_addr base ?x ?y)"
    using win xy unfolding window_def cell_addr_def by simp
  have x2: "xlate s (uint (vid_mem_addr ?t) + 2 * (80 * ?y + ?x) + 1) = Some (cell_addr base ?x ?y + 1)"
    using win xy unfolding window_def cell_addr_def by (simp add: add.assoc)
  have ok': "load_cursor i (load_video_mem i s) = Inr (s\<lparr>video_mem := uint (vid_mem_addr ?t),
      screen_x := ?x, screen_y := ?y\<rparr>)"
    using ok i by (simp add: load_cursor_def load_video_mem_def cursor_ok_def)
  have y: "(?y + (?x + 1) mod 80 div 80) mod 25 = ?y" "min 24 (?y + 1) = (if ?y = 24 then 24 else ?y + 1)"
    using xy by auto
  show ?thesis
    using x1 x2 y
    by (auto simp: putc_on_def ok' putc_result_def vwrite_def Let_def smod_nonneg sdiv_nonneg)
qed

lemma putc_on_total:
  assumes "cursor_ok s" and "i < 3" and "window s i base"
  shows "putc_on i c s = Inr ((putc_result i base c s)\<lparr>io_hist :=
           io_hist (putc_result i base c s) @ cursor_outs (putc_result i base c s)\<rparr>)"
proof -
  note xy = cursor_ok_nth [OF assms(1,2)]
  have "scr_inv (erase s) (putc_result i base c s)"
    using assms(1) xy unfolding putc_result_def Let_def
    by (intro scr_inv_save_cursor) (auto simp: scr_inv_def cursor_ok_def erase_def)
  then show ?thesis
    unfolding putc_on_eq [OF assms] by (intro update_cursor_total) (simp add: scr_inv_def)
qed

subsection \<open>Scrolling\<close>

definition char_at :: "addr \<Rightarrow> nat \<Rightarrow> nat \<Rightarrow> addr" where
  "char_at base k l = base + 2 * (80 * int k + int l)"

lemma char_at_eq_iff:
  assumes "l < 80" and "l' < 80"
  shows "char_at base k l = char_at base k' l' \<longleftrightarrow> k = k' \<and> l = l'"
proof -
  have "80 * k + l = 80 * k' + l' \<longleftrightarrow> k = k' \<and> l = l'"
  proof
    assume eq: "80 * k + l = 80 * k' + l'"
    from arg_cong [OF eq, of "\<lambda>n. n div 80"] assms have "k = k'" by simp
    with eq show "k = k' \<and> l = l'" by simp
  qed simp
  moreover have "char_at base k l = char_at base k' l' \<longleftrightarrow> int (80 * k + l) = int (80 * k' + l')"
    by (auto simp: char_at_def)
  ultimately show ?thesis unfolding of_nat_eq_iff by blast
qed

text \<open>One step of the loop on memory, and the whole loop in closed form.\<close>

definition scroll_step :: "addr \<Rightarrow> nat \<times> nat \<Rightarrow> mem \<Rightarrow> mem" where
  "scroll_step base kl m =
     (let k = fst kl; l = snd kl;
          m = (if m (char_at base k l) \<noteq> 0
               then m(char_at base (k - 1) l := m (char_at base k l)) else m)
      in if k = 24 then m(char_at base k l := 0x20) else m)"

lemma scroll_cell_eq:
  assumes win: "window s i base" and kl: "1 \<le> k" "k < 25" "l < 80"
  shows "scroll_cell i (k, l) s = Inr (s\<lparr>video_mem := uint (vid_mem_addr (term_arr s ! i)),
           phys := scroll_step base (k, l) (phys s)\<rparr>)"
proof -
  have x: "xlate s (uint (vid_mem_addr (term_arr s ! i)) + 2 * (80 * int r + int l)) =
      Some (char_at base r l)" if "r < 25" for r
  proof -
    have "int r < 25" "int l < 80" using that kl by simp_all
    then show ?thesis using win unfolding window_def char_at_def by simp
  qed
  have "int k - 1 = int (k - 1)" using kl by simp
  then show ?thesis
    using x [of k] x [of "k - 1"] x [of 23] x [of 24] kl
    by (simp add: scroll_cell_def scroll_step_def load_video_mem_def vread_def vwrite_def Let_def)
qed

lemma window_fields [simp]:
  "window (s\<lparr>video_mem := a, phys := p\<rparr>) i base = window s i base"
  by (simp add: window_def)

lemma scroll_loop_eq:
  assumes "window s i base" and "\<forall>(k, l) \<in> set (kl # kls). 1 \<le> k \<and> k < 25 \<and> l < 80"
  shows "fold_res (scroll_cell i) (kl # kls) s = Inr (s\<lparr>
           video_mem := uint (vid_mem_addr (term_arr s ! i)),
           phys := fold (scroll_step base) (kl # kls) (phys s)\<rparr>)"
  using assms
proof (induction kls arbitrary: kl s)
  case Nil
  then show ?case by (cases kl) (simp add: scroll_cell_eq)
next
  case (Cons x kls)
  obtain k l where kl: "kl = (k, l)" by fastforce
  let ?s = "s\<lparr>video_mem := uint (vid_mem_addr (term_arr s ! i)), phys := scroll_step base kl (phys s)\<rparr>"
  have "scroll_cell i kl s = Inr ?s"
    unfolding kl using Cons.prems kl by (intro scroll_cell_eq) auto
  then have "fold_res (scroll_cell i) (kl # x # kls) s = fold_res (scroll_cell i) (x # kls) ?s"
    by (simp only: fold_res.simps and_then_simps)
  also have "\<dots> = Inr (?s\<lparr>video_mem := uint (vid_mem_addr (term_arr ?s ! i)),
           phys := fold (scroll_step base) (x # kls) (phys ?s)\<rparr>)"
    using Cons.prems by (intro Cons.IH) auto
  finally show ?case by simp
qed

lemma sorted_product:
  "sorted_wrt (<) xs \<Longrightarrow> sorted_wrt (<) ys \<Longrightarrow>
     sorted_wrt (\<lambda>p q. fst p < fst q \<or> fst p = fst q \<and> snd p < snd q) (List.product xs ys)"
  for xs ys :: "nat list"
  by (induction xs) (auto simp: sorted_wrt_append sorted_wrt_map)

text \<open>What the cell in row \<open>r\<close> holds after the steps of \<open>P\<close>.\<close>

definition scrolled :: "addr \<Rightarrow> mem \<Rightarrow> (nat \<times> nat) set \<Rightarrow> nat \<Rightarrow> nat \<Rightarrow> u8" where
  "scrolled base m P r l =
     (if (Suc r, l) \<in> P \<and> m (char_at base (Suc r) l) \<noteq> 0 then m (char_at base (Suc r) l)
      else if r = 24 \<and> (24, l) \<in> P then 0x20
      else m (char_at base r l))"

lemma scroll_fold:
  assumes "sorted_wrt (\<lambda>p q. fst p < fst q \<or> fst p = fst q \<and> snd p < snd q) kls"
    and "\<forall>(k, l) \<in> set kls. 1 \<le> k \<and> k < 25 \<and> l < 80"
  shows "(\<forall>r l. l < 80 \<longrightarrow> fold (scroll_step base) kls m (char_at base r l) = scrolled base m (set kls) r l)
       \<and> (\<forall>a. (\<forall>r < 25. \<forall>l < 80. a \<noteq> char_at base r l) \<longrightarrow> fold (scroll_step base) kls m a = m a)"
  using assms
proof (induction kls rule: rev_induct)
  case Nil
  then show ?case by (simp add: scrolled_def)
next
  case (snoc kl kls)
  obtain k l where kl: "kl = (k, l)" by fastforce
  let ?m = "fold (scroll_step base) kls m"
  from snoc.prems have kl': "1 \<le> k" "k < 25" "l < 80" and fresh: "(k, l) \<notin> set kls" "(Suc k, l) \<notin> set kls"
    by (auto simp: kl sorted_wrt_append)
  have IH1: "l < 80 \<Longrightarrow> ?m (char_at base r l) = scrolled base m (set kls) r l"
    and IH2: "(\<forall>r < 25. \<forall>l < 80. a \<noteq> char_at base r l) \<Longrightarrow> ?m a = m a" for r l a
    using snoc.IH snoc.prems by (auto simp: sorted_wrt_append)
  have no25: "(25, c) \<notin> set kls" for c using snoc.prems by auto
  have src: "?m (char_at base k l) = m (char_at base k l)"
    using IH1 [OF kl'(3), of k] fresh by (auto simp: scrolled_def)
  have "scroll_step base kl ?m (char_at base r c) = scrolled base m (set (kls @ [kl])) r c"
    if c: "c < 80" for r c
    using IH1 [OF c, of r] kl' src fresh c no25
    by (auto simp: scroll_step_def kl Let_def char_at_eq_iff scrolled_def)
  moreover have "scroll_step base kl ?m a = m a" if a: "\<forall>r < 25. \<forall>l < 80. a \<noteq> char_at base r l" for a
    using IH2 [OF a] a kl' by (auto simp: scroll_step_def kl Let_def)
  ultimately show ?case by simp
qed

lemma scroll_all:
  assumes "window s i base"
  shows "fold_res (scroll_cell i) (List.product [1..<25] [0..<80]) s = Inr (s\<lparr>
           video_mem := uint (vid_mem_addr (term_arr s ! i)),
           phys := fold (scroll_step base) (List.product [1..<25] [0..<80]) (phys s)\<rparr>)"
proof -
  have "(1, 0) \<in> set (List.product [1..<25] [0..<80 :: nat])" unfolding set_product by simp
  then obtain kl kls where p: "List.product [1..<25] [0..<80 :: nat] = kl # kls"
    by (metis list.exhaust list.set(1) empty_iff)
  have "\<forall>(k, l) \<in> set (List.product [1..<25] [0..<80]). 1 \<le> k \<and> k < 25 \<and> l < (80 :: nat)"
    unfolding set_product by auto
  then show ?thesis unfolding p by (intro scroll_loop_eq assms)
qed

lemma scroll_all_cells:
  assumes "c < 80"
  shows "fold (scroll_step base) (List.product [1..<25] [0..<80]) m (char_at base r c) =
     (if r < 24 then if m (char_at base (r + 1) c) \<noteq> 0 then m (char_at base (r + 1) c)
                     else m (char_at base r c)
      else if r = 24 then 0x20 else m (char_at base r c))" (is ?cell)
    and "\<forall>r < 25. \<forall>l < 80. a \<noteq> char_at base r l \<Longrightarrow>
     fold (scroll_step base) (List.product [1..<25] [0..<80]) m a = m a"
proof -
  have "sorted_wrt (\<lambda>p q. fst p < fst q \<or> fst p = fst q \<and> snd p < snd q)
      (List.product [1..<25] [0..<80 :: nat])"
    by (rule sorted_product) (rule sorted_wrt_upt)+
  moreover have "\<forall>(k, l) \<in> set (List.product [1..<25] [0..<80]). 1 \<le> k \<and> k < 25 \<and> l < (80 :: nat)"
    unfolding set_product by auto
  ultimately have *: "(\<forall>r l. l < 80 \<longrightarrow>
        fold (scroll_step base) (List.product [1..<25] [0..<80]) m (char_at base r l) =
          scrolled base m ({1..<25} \<times> {0..<80}) r l)
      \<and> (\<forall>a. (\<forall>r < 25. \<forall>l < 80. a \<noteq> char_at base r l) \<longrightarrow>
            fold (scroll_step base) (List.product [1..<25] [0..<80]) m a = m a)"
    using scroll_fold [of "List.product [1..<25] [0..<80]" base m]
    unfolding set_product set_upt by blast
  with assms show ?cell by (auto simp: scrolled_def simp del: upt_rec_numeral)
  show "\<forall>r < 25. \<forall>l < 80. a \<noteq> char_at base r l \<Longrightarrow>
     fold (scroll_step base) (List.product [1..<25] [0..<80]) m a = m a"
    using * by blast
qed

text \<open>The state after the scroll loop, before the hardware cursor follows.\<close>

definition scroll_state :: "nat \<Rightarrow> addr \<Rightarrow> 'a screen_scheme \<Rightarrow> 'a screen_scheme" where
  "scroll_state i base s =
     (let u = s\<lparr>screen_x := uint (t_screen_x (term_arr s ! i)), screen_y := uint (t_screen_y (term_arr s ! i))\<rparr>
      in if t_screen_y (term_arr s ! i) = 24 \<and> scrollFlag s = 1
         then u\<lparr>video_mem := uint (vid_mem_addr (term_arr s ! i)),
                phys := fold (scroll_step base) (List.product [1..<25] [0..<80]) (phys s), scrollFlag := 0\<rparr>
         else u)"

lemma vert_scroll_on_total:
  assumes "cursor_ok s" and "i < 3" and "window s i base"
  shows "vert_scroll_on i s = Inr (upd_term i (\<lambda>x. x\<lparr>t_screen_x := t_screen_x (term_arr s ! i)\<rparr>)
     ((scroll_state i base s)\<lparr>io_hist := io_hist s @ cursor_outs (scroll_state i base s)\<rparr>))"
proof -
  let ?u = "s\<lparr>screen_x := uint (t_screen_x (term_arr s ! i)), screen_y := uint (t_screen_y (term_arr s ! i))\<rparr>"
  let ?v = "scroll_state i base s"
  note load = load_cursor_total [OF assms(1,2)]
  have win: "window ?u i base" using assms(3) by (simp add: window_def)
  have inv: "scr_inv (erase s) ?u"
    using load_cursor_Inr(1) [OF _ load] assms(1) by (simp add: scr_inv_def)
  then have "scr_inv (erase s) ?v" unfolding scroll_state_def Let_def
    by (cases "t_screen_y (term_arr s ! i) = 24 \<and> scrollFlag s = 1") auto
  then have "cursor_ok ?v" by (simp add: scr_inv_def)
  note cur = update_cursor_total [OF this]
  have y: "uint (t_screen_y (term_arr s ! i)) = 24 \<longleftrightarrow> t_screen_y (term_arr s ! i) = 24"
    by (auto simp: word_uint_eq_iff)
  have io: "io_hist ?v = io_hist s" "screen_x ?v = uint (t_screen_x (term_arr s ! i))"
    by (simp_all add: scroll_state_def Let_def)
  have "(if screen_y ?u = 24 \<and> scrollFlag ?u = 1
         then and_then (fold_res (scroll_cell i) (List.product [1..<25] [0..<80]) ?u)
                (\<lambda>s. Inr (s\<lparr>scrollFlag := 0\<rparr>)) else Inr ?u) = Inr ?v"
    using scroll_all [OF win] y unfolding scroll_state_def Let_def
    by (cases "t_screen_y (term_arr s ! i) = 24 \<and> scrollFlag s = 1") (auto simp del: upt_rec_numeral)
  then show ?thesis
    unfolding vert_scroll_on_def load and_then_simps using cur io by simp
qed

text \<open>Totality and memory footprint: what a screen function on terminal \<open>i\<close> can write.\<close>

definition outside_page :: "addr \<Rightarrow> mem \<Rightarrow> mem \<Rightarrow> bool" where
  "outside_page base m m' \<longleftrightarrow> (\<forall>a. a < base \<or> base + 4096 \<le> a \<longrightarrow> m' a = m a)"

lemma outside_page_refl [simp]: "outside_page base m m"
  by (simp add: outside_page_def)

lemma outside_page_trans: "outside_page base m1 m2 \<Longrightarrow> outside_page base m2 m3 \<Longrightarrow> outside_page base m1 m3"
  by (simp add: outside_page_def)

lemma newline_check_on_total:
  "cursor_ok s \<Longrightarrow> i < 3 \<Longrightarrow> \<exists>t. newline_check_on i s = Inr t \<and> phys t = phys s"
  by (simp add: newline_check_on_def load_cursor_total save_cursor_def upd_term_def Let_def)

lemma enter_on_total: "cursor_ok s \<Longrightarrow> i < 3 \<Longrightarrow> \<exists>t. enter_on i s = Inr t \<and> phys t = phys s"
  by (simp add: enter_on_def load_cursor_total save_cursor_def upd_term_def Let_def)

lemma putc_on_page:
  assumes "cursor_ok s" and "i < 3" and "window s i base"
  shows "\<exists>t. putc_on i c s = Inr t \<and> outside_page base (phys s) (phys t)"
proof -
  let ?t = "term_arr s ! i"
  note xy = cursor_ok_nth [OF assms(1,2)]
  have "0 \<le> uint (t_screen_x ?t)" "0 \<le> uint (t_screen_y ?t)" by simp_all
  then have "base \<le> cell_addr base (uint (t_screen_x ?t)) (uint (t_screen_y ?t))"
    "cell_addr base (uint (t_screen_x ?t)) (uint (t_screen_y ?t)) + 1 < base + 4096"
    using xy unfolding cell_addr_def by auto
  then show ?thesis
    unfolding putc_on_total [OF assms]
    by (auto simp: putc_result_def save_cursor_def upd_term_def Let_def outside_page_def)
qed

lemma vert_scroll_on_page:
  assumes "cursor_ok s" and "i < 3" and "window s i base"
  shows "\<exists>t. vert_scroll_on i s = Inr t \<and> outside_page base (phys s) (phys t)"
proof -
  have "fold (scroll_step base) (List.product [1..<25] [0..<80]) m a = m a"
    if "a < base \<or> base + 4096 \<le> a" for a m
  proof (rule scroll_all_cells(2) [of 0])
    show "\<forall>r < 25. \<forall>l < 80. a \<noteq> char_at base r l" using that by (auto simp: char_at_def)
  qed simp
  then show ?thesis
    unfolding vert_scroll_on_total [OF assms]
    by (auto simp: upd_term_def scroll_state_def Let_def outside_page_def simp del: upt_rec_numeral)
qed

subsection \<open>Clearing\<close>

lemma clear_loop_eq:
  assumes "\<forall>d. 0 \<le> d \<and> d < 4096 \<longrightarrow> xlate s (video_mem s + d) = Some (base + d)" and "n \<le> 2000"
  shows "fold_res clear_cell [0..<n] s =
     Inr (s\<lparr>phys := mwrite (phys s) base (concat (replicate n [0x20, 0x7]))\<rparr>)"
  using assms(2)
proof (induction n)
  case 0
  then show ?case by simp
next
  case (Suc n)
  have n: "int n < 2000" using Suc.prems by simp
  have x: "xlate s (video_mem s + 2 * int n) = Some (base + 2 * int n)"
    "xlate s (video_mem s + 2 * int n + 1) = Some (base + 2 * int n + 1)"
    using assms(1) n by (simp_all add: add.assoc)
  have split: "concat (replicate (Suc n) [0x20, 0x7]) = concat (replicate n [0x20, 0x7]) @ [0x20, 0x7 :: u8]"
    by (simp only: replicate_Suc replicate_append_same [symmetric] concat_append) simp
  have len: "length (concat (replicate n [0x20, 0x7 :: u8])) = 2 * n" by (induction n) auto
  have "fold_res clear_cell [0..<Suc n] s =
      clear_cell n (s\<lparr>phys := mwrite (phys s) base (concat (replicate n [0x20, 0x7]))\<rparr>)"
    using Suc by (simp add: fold_res_append)
  also have "\<dots> = Inr (s\<lparr>phys := mwrite (phys s) base (concat (replicate (Suc n) [0x20, 0x7]))\<rparr>)"
    unfolding split mwrite_append len using x by (simp add: clear_cell_def vwrite_def del: fun_upd_apply)
  finally show ?case .
qed

lemma reset_total:
  assumes "cursor_ok s"
    and "\<forall>d. 0 \<le> d \<and> d < 4096 \<longrightarrow> xlate s (video_mem s + d) = Some (base + d)"
  shows "\<exists>t. reset s = Inr t
     \<and> phys t = mwrite (phys s) base (concat (replicate 2000 [0x20, 0x7]))
     \<and> t_screen_x (term_arr t ! user_term s) = 0 \<and> t_screen_y (term_arr t ! user_term s) = 0"
proof -
  let ?u = "s\<lparr>screen_x := uint (t_screen_x (term_arr s ! user_term s)),
              screen_y := uint (t_screen_y (term_arr s ! user_term s))\<rparr>"
  have p: "user_term s < 3" "length (term_arr s) = 3" using assms(1) by (auto simp: cursor_ok_def)
  have "fold_res clear_cell [0..<2000] ?u =
      Inr (?u\<lparr>phys := mwrite (phys ?u) base (concat (replicate 2000 [0x20, 0x7]))\<rparr>)"
    using assms(2) by (intro clear_loop_eq) simp_all
  then show ?thesis
    using p unfolding reset_def load_cursor_total [OF assms(1) p(1)]
    by (simp add: enable_cursor_def save_cursor_def upd_term_def
        del: upt_rec_numeral)
qed

section \<open>Properties\<close>

text \<open>A screen function that returns is a step; the sequences of steps are what the kernel
  does with a terminal.\<close>

inductive screen_step :: "'a screen_scheme \<Rightarrow> 'a screen_scheme \<Rightarrow> bool" where
  step_clear: "clear s = Inr t \<Longrightarrow> screen_step s t"
| step_update_cursor: "update_cursor s = Inr t \<Longrightarrow> screen_step s t"
| step_reset: "reset s = Inr t \<Longrightarrow> screen_step s t"
| step_backspace: "backspace s = Inr t \<Longrightarrow> screen_step s t"
| step_enter: "enter s = Inr t \<Longrightarrow> screen_step s t"
| step_enter_user: "enter_user s = Inr t \<Longrightarrow> screen_step s t"
| step_newline_check: "newline_check s = Inr t \<Longrightarrow> screen_step s t"
| step_newline_check_user: "newline_check_user s = Inr t \<Longrightarrow> screen_step s t"
| step_vert_scroll: "vert_scroll s = Inr t \<Longrightarrow> screen_step s t"
| step_vert_scroll_user: "vert_scroll_user s = Inr t \<Longrightarrow> screen_step s t"
| step_putc: "putc c s = Inr t \<Longrightarrow> screen_step s t"
| step_putc_user: "putc_user c s = Inr t \<Longrightarrow> screen_step s t"

inductive_cases screen_stepE: "screen_step s t"

lemma scr_inv_step: "scr_inv e s \<Longrightarrow> screen_step s t \<Longrightarrow> scr_inv e t"
  by (erule screen_stepE)
    (auto simp: clear_def enter_def newline_check_def newline_check_user_def vert_scroll_def
      vert_scroll_user_def simp del: upt_rec_numeral
      intro: clear_cell.loop_inv scr_inv_update_cursor scr_inv_reset scr_inv_backspace
        scr_inv_enter_on scr_inv_enter_user scr_inv_newline_check_on scr_inv_vert_scroll_on
        putc.keeps_inv putc_user.keeps_inv)

interpretation screen_sys: inv_system "scr_inv e" screen_step "scr_inv e" for e :: "'a screen_scheme"
  by unfold_locales (auto intro: scr_inv_step)

lemma foot_step: "scr_inv e t \<Longrightarrow> foot B s t \<Longrightarrow> screen_step t u \<Longrightarrow> foot B s u"
  by (erule screen_stepE)
    (auto simp: enter_def newline_check_def newline_check_user_def vert_scroll_def
      vert_scroll_user_def putc_def putc_user_def
      intro: foot_clear foot_update_cursor foot_reset foot_backspace foot_enter_on foot_enter_user
        foot_newline_check_on foot_vert_scroll_on foot_putc_on)

interpretation screen_mem: inv_system "\<lambda>t. scr_inv (erase s) t \<and> foot (bases s) s t" screen_step
    "\<lambda>t. scr_inv (erase s) t \<and> foot (bases s) s t" for s :: "'a screen_scheme"
  by unfold_locales (auto intro: scr_inv_step foot_step)

text \<open>A state before paging is on (translation is the identity), cursor of terminal 0 at the
  end of the last line, for evaluation.\<close>

definition term_example :: "u32 \<Rightarrow> terminal" where
  "term_example a = \<lparr>t_screen_x = 79, t_screen_y = 24, keyBuf = replicate 127 0, visible = 1,
     vid_mem_addr = a, newline_tracker = 0, enterFlag = 0\<rparr>"

definition screen_example :: screen where
  "screen_example = \<lparr>io_hist = [], int_flag = False, phys = (\<lambda>_. 0), master_mask = 0, slave_mask = 0,
      rtc_tick = 0, rtc_status = 0, page_dir = [], page_table = [],
      page_virtual_mem = replicate 1024 0, page_dir_addr = 0x410000, page_table_addr = 0x411000,
      page_virtual_mem_addr = 0x412000, cr3 = 0, paging_on = False,
      screen_x = 0, screen_y = 0, video_mem = 0xB8000, scrollFlag = 1,
      term_arr = [term_example 0xB9000, term_example 0xBA000, term_example 0xBB000],
      curr_terminal = 0, curr_process = 0\<rparr>"

lemma screen_example_ok: "cursor_ok screen_example"
  by (simp add: cursor_ok_def screen_example_def term_example_def)

lemma screen_example_window: "window screen_example 0 0xB9000"
  by (simp add: window_def xlate_def walk_def screen_example_def term_example_def)

text \<open>
  C17. Whatever sequence of screen functions runs, as long as they return, the cursor of every
  terminal and the working cursor stay inside the 80 by 25 screen and the terminal indices stay
  in range. Of physical memory only bytes behind the windows can change, the 2000 cells from
  where the kernel draws at the start or from a terminal's window address, as the page tables map
  them, with the two bytes before the first cell (\<open>backspace\<close> in the top left corner writes there).
  Besides, only cursors, screen flags, the window drawn on and the ports change: page tables, key
  buffers, window addresses and every other variable are as before.
\<close>

theorem screen_ops_keep_cursor:
  assumes "cursor_ok s" and "screen_step\<^sup>*\<^sup>* s t"
  shows "cursor_ok t \<and> erase t = erase s \<and> (\<forall>pa. pa \<notin> screen_bytes s \<longrightarrow> phys t pa = phys s pa)"
  using screen_mem.steps_inv [OF assms(2), of s] assms(1) foot_refl [of s]
  by (simp add: scr_inv_def foot_def screen_bytes_def)

theorem screen_ops_keep_cursor_witness:
  "\<exists>t. putc 0x41 screen_example = Inr t \<and> cursor_ok t \<and> page_table t = [] \<and> phys t 0x500000 = 0"
proof -
  obtain t where t: "putc 0x41 screen_example = Inr t"
    using putc_on_total [OF screen_example_ok _ screen_example_window] by (auto simp: putc_def screen_example_def)
  then have "screen_step\<^sup>*\<^sup>* screen_example t" by (blast intro: step_putc)
  from screen_ops_keep_cursor [OF screen_example_ok this]
  have "cursor_ok t" "page_table (erase t) = page_table (erase screen_example)"
    "0x500000 \<notin> screen_bytes screen_example \<longrightarrow> phys t 0x500000 = phys screen_example 0x500000" by simp_all
  moreover have "0x500000 \<notin> screen_bytes screen_example"
    by (auto simp: screen_bytes_def window_bytes_def bases_def screen_example_def term_example_def xlate_def walk_def)
  ultimately show ?thesis using t by (simp add: erase_def screen_example_def)
qed

text \<open>
  C18. \<open>putc\<close> on a terminal whose window is mapped returns; a printable character and its
  attribute go to the cell under the cursor and no other byte of memory changes, and the
  column advances and wraps at 80 while the row stays; a newline or carriage return writes
  nothing and moves to column 0 of the next row, staying on row 24 at the bottom.
\<close>

theorem putc_draws:
  assumes "cursor_ok s" and "window s (proc_term s) base"
  shows "(let p = proc_term s; x = uint (t_screen_x (term_arr s ! p)); y = uint (t_screen_y (term_arr s ! p))
          in \<exists>t. putc c s = Inr t
             \<and> (if c = 0x0A \<or> c = 0x0D
                 then phys t = phys s \<and> uint (t_screen_x (term_arr t ! p)) = 0
                      \<and> uint (t_screen_y (term_arr t ! p)) = min 24 (y + 1)
                 else phys t = (phys s)(cell_addr base x y := c, cell_addr base x y + 1 := 7)
                      \<and> uint (t_screen_x (term_arr t ! p)) = (x + 1) mod 80
                      \<and> uint (t_screen_y (term_arr t ! p)) = y))"
proof -
  let ?p = "proc_term s"
  let ?x = "uint (t_screen_x (term_arr s ! ?p))" and ?y = "uint (t_screen_y (term_arr s ! ?p))"
  have p: "?p < 3" "length (term_arr s) = 3" using assms(1) by (auto simp: cursor_ok_def)
  note xy = cursor_ok_nth [OF assms(1) p(1)]
  have small: "uint (word_of_int v :: u8) = v" if "0 \<le> v" "v < 80" for v
    using that by (simp add: uint_word_of_int)
  let ?r = "putc_result ?p base c s"
  have "putc c s = Inr (?r\<lparr>io_hist := io_hist ?r @ cursor_outs ?r\<rparr>)"
    unfolding putc_def by (rule putc_on_total [OF assms(1) p(1) assms(2)])
  moreover have "(?x + 1) mod 80 < 80" "0 \<le> (?x + 1) mod 80" by simp_all
  ultimately show ?thesis
    using xy p small [of "min 24 (?y + 1)"]
    by (auto simp: putc_result_def save_cursor_def upd_term_def small Let_def simp del: fun_upd_apply)
qed

theorem putc_draws_witness:
  "\<exists>t. putc 0x41 screen_example = Inr t \<and> phys t 0xB9F9E = 0x41 \<and> phys t 0xB9F9F = 7"
proof -
  have "window screen_example (proc_term screen_example) 0xB9000"
    using screen_example_window by (simp add: screen_example_def)
  from putc_draws [where c = "0x41", OF screen_example_ok this] show ?thesis
    by (auto simp: Let_def screen_example_def term_example_def cell_addr_def)
qed



text \<open>
  \<open>reset\<close> homes the cursor of the terminal on display and fills the 2000 cells behind
  \<open>video_mem\<close> with blanks. It does not load \<open>video_mem\<close> from that terminal: the cells that are
  cleared are those of whatever terminal was drawn on or scheduled last.
\<close>

theorem reset_clears:
  assumes "cursor_ok s"
    and "\<forall>d. 0 \<le> d \<and> d < 4096 \<longrightarrow> xlate s (video_mem s + d) = Some (base + d)"
  shows "\<exists>t. reset s = Inr t
     \<and> phys t = mwrite (phys s) base (concat (replicate 2000 [0x20, 0x7]))
     \<and> t_screen_x (term_arr t ! user_term s) = 0 \<and> t_screen_y (term_arr t ! user_term s) = 0"
  using assms by (rule reset_total)

theorem reset_clears_witness:
  "\<exists>t. reset screen_example = Inr t \<and> t_screen_x (term_arr t ! 0) = 0
     \<and> phys t = mwrite (\<lambda>_. 0) 0xB8000 (concat (replicate 2000 [0x20, 0x7]))"
proof -
  have "\<forall>d. 0 \<le> d \<and> d < 4096 \<longrightarrow>
      xlate screen_example (video_mem screen_example + d) = Some (0xB8000 + d)"
    by (simp add: xlate_def walk_def screen_example_def)
  from reset_clears [OF screen_example_ok this] obtain t where "reset screen_example = Inr t"
    and "phys t = mwrite (phys screen_example) 0xB8000 (concat (replicate 2000 [0x20, 0x7]))"
    and "t_screen_x (term_arr t ! user_term screen_example) = 0" by blast
  moreover have "phys screen_example = (\<lambda>_. 0)" "user_term screen_example = 0"
    by (simp_all add: screen_example_def)
  ultimately show ?thesis by metis
qed

end
