(* ===== verification/Terminals.thy ===== *)
theory Terminals
  imports Screen
begin

text \<open>
  The three virtual terminals, \<^verbatim>\<open>mp3/student-distrib/scheduler.c\<close>: \<open>pit_init\<close>, \<open>init_terminal\<close>,
  \<open>terminal_switch\<close>, \<open>terminal_save_state\<close>, \<open>terminal_restore_state\<close>, \<open>remap_video\<close> and
  \<open>scheduler_remap_video\<close>. The keyboard's variables (\<^verbatim>\<open>keyboard.c\<close>) are part of the state
  since a switch saves and restores the key buffer. A block copy reads its source and writes
  its destination through the page tables; \<open>block_ops_reference\<close> of the library justifies
  the bytes.

  The lemmas show that the page tables stay well formed, that the window of the terminal on
  display is video memory and that of a hidden terminal its own frame, and that a switch
  swaps the screens without losing any.
\<close>

section \<open>State\<close>

record terms = screen +
  keyBuffer :: "u8 list"
  keyBufferIndex :: int
  mode :: int
  ctrlPressed :: int
  altPressed :: int

definition video_addr :: "u32 list" where
  "video_addr = [VIDEO_MEM + 1 * 0x1000, VIDEO_MEM + 2 * 0x1000, VIDEO_MEM + 3 * 0x1000, VIDEO_MEM]"

section \<open>The operations\<close>

definition pit_init :: "device \<Rightarrow> 'a terms_scheme \<Rightarrow> 'a terms_scheme" where
  "pit_init dev s =
     (let s = cli s;
          count = 1193180 div 100 :: u32;
          s = outb 0x36 0x43 s;
          s = outb (ucast (count AND 0xFF)) 0x40 s;
          s = outb (ucast (drop_bit 8 (count AND 0xFF00))) 0x40 s;
          s = enable_irq dev 0 s
      in sti s)"

definition init_terminal_at :: "nat \<Rightarrow> 'a terms_scheme \<Rightarrow> 'a terms_scheme" where
  "init_terminal_at i = upd_term i (\<lambda>t. t\<lparr>t_screen_x := 0, t_screen_y := 0, visible := 0,
     vid_mem_addr := video_addr ! i, newline_tracker := 0, enterFlag := 0\<rparr>)"

definition init_terminal :: "'a terms_scheme \<Rightarrow> 'a terms_scheme" where
  "init_terminal s =
     (let s = fold init_terminal_at [0..<3] s;
          s = s\<lparr>curr_terminal := 0\<rparr>
      in upd_term (user_term s) (\<lambda>t. t\<lparr>visible := 1\<rparr>) s)"

definition vread_bytes :: "addr \<Rightarrow> nat \<Rightarrow> 'a paging_scheme \<Rightarrow> u8 list res" where
  "vread_bytes a n s =
     (if \<forall>i < n. xlate s (a + int i) \<noteq> None
      then Inr (map (\<lambda>i. phys s (the (xlate s (a + int i)))) [0..<n]) else Inl PageFault)"

fun vwrite_bytes :: "addr \<Rightarrow> u8 list \<Rightarrow> 'a paging_scheme \<Rightarrow> 'a paging_scheme res" where
  "vwrite_bytes a [] s = Inr s"
| "vwrite_bytes a (b # bs) s = and_then (vwrite a b s) (vwrite_bytes (a + 1) bs)"

definition vmemcpy :: "addr \<Rightarrow> addr \<Rightarrow> nat \<Rightarrow> 'a paging_scheme \<Rightarrow> 'a paging_scheme res" where
  "vmemcpy dest src n s = and_then (vread_bytes src n s) (\<lambda>bs. vwrite_bytes dest bs s)"

text \<open>The four assignments that make entry \<open>i\<close> map \<open>frame\<close>, in either table.\<close>

definition window_index :: "u32 \<Rightarrow> nat" where
  "window_index a = unat (drop_bit 12 (a AND 0x3FF000))"

definition map_frame :: "u32 \<Rightarrow> u32 \<Rightarrow> u32" where
  "map_frame frame e = set_user 1 (set_read_write 1 (set_present 1 (set_base_pte frame e)))"

definition remap_video :: "nat \<Rightarrow> 'a terms_scheme \<Rightarrow> 'a terms_scheme res" where
  "remap_video idx s = check (idx < length (term_arr s)) OutOfBounds
     (let a = vid_mem_addr (term_arr s ! idx);
          s = upd_table (window_index a) (map_frame (drop_bit 12 a)) s;
          s = upd_vmem 0 (map_frame (drop_bit 12 a)) s
      in flush_tlb s)"

definition scheduler_remap_video :: "nat \<Rightarrow> 'a terms_scheme \<Rightarrow> 'a terms_scheme" where
  "scheduler_remap_video idx s =
     (if idx > 2 then s
      else let vir_vid_addr = VIDEO_MEM + (1 + of_nat idx) * 0x1000;
               phys_vid_addr = (if idx = user_term s then VIDEO_MEM else vir_vid_addr);
               s = upd_table (window_index vir_vid_addr) (map_frame (drop_bit 12 phys_vid_addr)) s;
               s = upd_vmem 0 (set_base_entry (drop_bit 12 phys_vid_addr)) s;
               s = upd_vmem 0 (set_present 1) s;
               s = upd_vmem 0 (set_read_write 1) s;
               s = upd_vmem 0 (set_user 1) s
           in flush_tlb s)"

definition terminal_save_state :: "nat \<Rightarrow> 'a terms_scheme \<Rightarrow> 'a terms_scheme res" where
  "terminal_save_state idx s =
     (if idx \<ge> 3 then Inr s
      else and_then (check (user_term s < length (term_arr s) \<and> idx < length (term_arr s)) OutOfBounds s) (\<lambda>s.
           let s = upd_term (user_term s) (\<lambda>t. t\<lparr>visible := 0\<rparr>) s;
               s = upd_term idx (\<lambda>t. t\<lparr>keyBuf := keyBuffer s\<rparr>) s
           in and_then (remap_video idx s) (\<lambda>s.
              vmemcpy (uint (vid_mem_addr (term_arr s ! idx))) (uint VIDEO_MEM) (80 * 25 * 2) s)))"

definition terminal_restore_state :: "nat \<Rightarrow> 'a terms_scheme \<Rightarrow> 'a terms_scheme res" where
  "terminal_restore_state idx s =
     (if idx \<ge> 3 then Inr s
      else and_then (check (idx < length (term_arr s)) OutOfBounds s) (\<lambda>s.
           let s = s\<lparr>curr_terminal := of_nat idx\<rparr>;
               s = upd_term (user_term s) (\<lambda>t. t\<lparr>visible := 1\<rparr>) s;
               s = s\<lparr>keyBuffer := keyBuf (term_arr s ! idx)\<rparr>
           in and_then (remap_video idx s) (\<lambda>s.
              vmemcpy (uint VIDEO_MEM) (uint (vid_mem_addr (term_arr s ! idx))) (80 * 25 * 2) s)))"

definition terminal_switch :: "u8 \<Rightarrow> 'a terms_scheme \<Rightarrow> (int \<times> 'a terms_scheme) res" where
  "terminal_switch idx s =
     (if idx = curr_terminal s then Inr (0, s)
      else if idx \<ge> 3 then Inr (-1, s)
      else and_then (terminal_save_state (user_term s) s) (\<lambda>s.
           and_then (terminal_restore_state (unat idx) s) (\<lambda>s.
           and_then (update_cursor s) (\<lambda>s.
           let a = vid_mem_addr (term_arr s ! unat idx);
               s = upd_table (window_index a) (map_frame (drop_bit 12 VIDEO_MEM)) s;
               s = upd_vmem 0 (set_base_pte (drop_bit 12 VIDEO_MEM)) s;
               s = upd_vmem 0 (set_read_write 1) s;
               s = upd_vmem 0 (set_user 1) s;
               s = upd_vmem 0 (set_present 1) s
           in Inr (0, flush_tlb s)))))"

section \<open>Page-table entries of the windows\<close>

definition maps :: "u32 \<Rightarrow> u32 \<Rightarrow> bool" where
  "maps e f \<longleftrightarrow> get_present e = 1 \<and> get_base_pte e = f"

lemma map_frame_maps: "take_bit 20 f = f \<Longrightarrow> maps (map_frame f e) f"
  by (simp add: maps_def map_frame_def)

lemma map_frame_safe: "take_bit 20 f = f \<Longrightarrow> f < 0x400 \<Longrightarrow> pte_safe (map_frame f e)"
  by (auto simp: pte_safe_def map_frame_def)

lemma map_frame_order:
  "set_present 1 (set_user 1 (set_read_write 1 (set_base_pte f e))) = map_frame f e"
  unfolding map_frame_def
  by (rule bit_word_eqI) (auto simp: set_field_def bit_simps)

text \<open>\<open>set_window i f\<close>: what \<open>remap_video\<close> and the end of \<open>terminal_switch\<close> do to the tables.\<close>

definition set_window :: "nat \<Rightarrow> u32 \<Rightarrow> 'a terms_scheme \<Rightarrow> 'a terms_scheme" where
  "set_window i f s = upd_vmem 0 (map_frame f) (upd_table (0xB9 + i) (map_frame f) s)"

lemma flush_tlb_id [simp]: "flush_tlb s = s"
  by (simp add: flush_tlb_def)

lemma set_window_fields [simp]:
  "term_arr (set_window i f s) = term_arr s" "phys (set_window i f s) = phys s"
  "keyBuffer (set_window i f s) = keyBuffer s" "curr_terminal (set_window i f s) = curr_terminal s"
  "curr_process (set_window i f s) = curr_process s" "screen_x (set_window i f s) = screen_x s"
  "screen_y (set_window i f s) = screen_y s"
  "page_table (set_window i f s) = (page_table s)[0xB9 + i := map_frame f (page_table s ! (0xB9 + i))]"
  by (simp_all add: set_window_def upd_vmem_def upd_table_def)

lemma tables_ok_set_window:
  "tables_ok s \<Longrightarrow> take_bit 20 f = f \<Longrightarrow> f < 0x400 \<Longrightarrow> tables_ok (set_window i f s)"
  unfolding set_window_def
  by (intro tables_ok_upd_vmem tables_ok_upd_table map_frame_safe)

lemma tables_ok_fields [simp]:
  "tables_ok (s\<lparr>term_arr := ts\<rparr>) = tables_ok s" "tables_ok (s\<lparr>curr_terminal := c\<rparr>) = tables_ok s"
  "tables_ok (s\<lparr>curr_process := c\<rparr>) = tables_ok s" "tables_ok (s\<lparr>keyBuffer := k\<rparr>) = tables_ok s"
  "tables_ok (s\<lparr>screen_x := x\<rparr>) = tables_ok s" "tables_ok (s\<lparr>screen_y := x\<rparr>) = tables_ok s"
  "tables_ok (s\<lparr>video_mem := a\<rparr>) = tables_ok s"
  by (simp_all add: tables_ok_def low_pde_def vidmap_pde_ok_def)

lemma xlate_low:
  assumes "tables_ok s" and "k < 1024" and "maps (page_table s ! k) f" and "0 \<le> d" and "d < 0x1000"
  shows "xlate s (int k * 0x1000 + d) = Some (uint f * 0x1000 + d)"
proof -
  have "int k \<le> 1023" using assms(2) by simp
  then have r: "0 \<le> int k * 0x1000 + d" "int k * 0x1000 + d < 0x400000"
    using assms(4,5) by linarith+
  then have "(int k * 0x1000 + d) div 0x400000 = 0" "(int k * 0x1000 + d) mod 0x400000 = int k * 0x1000 + d"
    by simp_all
  moreover have "(int k * 0x1000 + d) div 0x1000 = int k" "(int k * 0x1000 + d) mod 0x1000 = d"
    using assms(4,5) by simp_all
  moreover have "paging_on s" "page_dir s ! 0 = low_pde s" using assms(1) by (auto simp: tables_ok_def)
  ultimately show ?thesis
    using assms(3) r by (simp add: xlate_def walk_def Let_def maps_def)
qed

section \<open>Block copies\<close>

lemma vwrite_bytes_eq:
  "\<forall>i < length bs. xlate s (a + int i) = Some (p + int i) \<Longrightarrow>
     vwrite_bytes a bs s = Inr (s\<lparr>phys := mwrite (phys s) p bs\<rparr>)"
proof (induction bs arbitrary: a p s)
  case Nil
  then show ?case by simp
next
  case (Cons b bs)
  have "xlate s (a + 1 + int i) = Some (p + 1 + int i)" if "i < length bs" for i
    using Cons.prems [rule_format, of "Suc i"] that by (simp add: ac_simps)
  moreover have "xlate s a = Some p" using Cons.prems [rule_format, of 0] by simp
  ultimately show ?case
    using Cons.IH [of "s\<lparr>phys := (phys s)(p := b)\<rparr>" "a + 1" "p + 1"]
    by (simp add: vwrite_def del: fun_upd_apply)
qed

lemma vmemcpy_eq:
  assumes "\<forall>i < n. xlate s (src + int i) = Some (ps + int i)"
    and "\<forall>i < n. xlate s (dest + int i) = Some (pd + int i)"
  shows "vmemcpy dest src n s = Inr (s\<lparr>phys := mwrite (phys s) pd (mread (phys s) ps n)\<rparr>)"
proof -
  have "vread_bytes src n s = Inr (mread (phys s) ps n)"
    using assms(1) by (simp add: vread_bytes_def mread_def)
  with assms(2) show ?thesis by (simp add: vmemcpy_def vwrite_bytes_eq)
qed

section \<open>The invariant of the terminals\<close>

text \<open>The frame behind the window of terminal \<open>i\<close>: video memory when it is on display.\<close>

definition own_frame :: "nat \<Rightarrow> u32" where
  "own_frame i = 0xB9 + of_nat i"

definition own_base :: "nat \<Rightarrow> addr" where
  "own_base i = 0xB9000 + int i * 0x1000"

text \<open>What the copies of a switch rely on.\<close>

definition base_ok :: "'a terms_scheme \<Rightarrow> bool" where
  "base_ok s \<longleftrightarrow> tables_ok s \<and> length (term_arr s) = 3
     \<and> (\<forall>i < 3. vid_mem_addr (term_arr s ! i) = video_addr ! i) \<and> maps (page_table s ! 0xB8) 0xB8"

definition terms_ok :: "'a terms_scheme \<Rightarrow> bool" where
  "terms_ok s \<longleftrightarrow> base_ok s \<and> cursor_ok s \<and> length (keyBuffer s) = 127
     \<and> (\<forall>i < 3. length (keyBuf (term_arr s ! i)) = 127)
     \<and> (\<forall>i < 3. visible (term_arr s ! i) = (if i = user_term s then 1 else 0))
     \<and> (\<forall>i < 3. get_present (page_table s ! (0xB9 + i)) \<noteq> 1
           \<or> maps (page_table s ! (0xB9 + i)) (if i = user_term s then 0xB8 else own_frame i))"

lemma less_3_cases: "i < 3 \<Longrightarrow> i = 0 \<or> i = 1 \<or> i = (2 :: nat)"
  by auto

lemma own_facts:
  assumes "i < 3"
  shows "uint (video_addr ! i) = own_base i" "window_index (video_addr ! i) = 0xB9 + i"
    "drop_bit 12 (video_addr ! i) = own_frame i" "take_bit 20 (own_frame i) = own_frame i"
    "own_frame i < 0x400" "uint (own_frame i) * 0x1000 = own_base i"
  using less_3_cases [OF assms]
  by (auto simp: video_addr_def own_base_def own_frame_def window_index_def numeral_3_eq_3)

lemma remap_video_eq:
  "base_ok s \<Longrightarrow> i < 3 \<Longrightarrow> remap_video i s = Inr (set_window i (own_frame i) s)"
  by (simp add: remap_video_def base_ok_def own_facts set_window_def Let_def)

lemma base_ok_set_window:
  "base_ok s \<Longrightarrow> take_bit 20 f = f \<Longrightarrow> f < 0x400 \<Longrightarrow> base_ok (set_window i f s)"
  by (simp add: base_ok_def tables_ok_set_window)

lemma base_ok_upd_term:
  "base_ok s \<Longrightarrow> (\<And>t. vid_mem_addr (f t) = vid_mem_addr t) \<Longrightarrow> base_ok (upd_term i f s)"
  by (cases "i < length (term_arr s)")
    (auto simp: base_ok_def upd_term_def nth_list_update list_update_beyond)

lemma xlate_video:
  assumes "base_ok s" and "0 \<le> d" and "d < 0x1000"
  shows "xlate s (0xB8000 + d) = Some (0xB8000 + d)"
  using xlate_low [of s "0xB8" "0xB8" d] assms by (simp add: base_ok_def)

lemma xlate_own:
  assumes "base_ok s" and "i < 3" and "maps (page_table s ! (0xB9 + i)) f" and "0 \<le> d" and "d < 0x1000"
  shows "xlate s (own_base i + d) = Some (uint f * 0x1000 + d)"
proof -
  have "int (0xB9 + i) * 0x1000 = own_base i" by (simp add: own_base_def)
  with xlate_low [of s "0xB9 + i" f d] assms show ?thesis by (simp add: base_ok_def)
qed

text \<open>The copies between video memory and the own frame of a terminal just remapped.\<close>

lemma copy_windows:
  assumes "base_ok s" and "i < 3"
  shows "vmemcpy (own_base i) 0xB8000 4000 (set_window i (own_frame i) s) =
           Inr ((set_window i (own_frame i) s)\<lparr>phys := mwrite (phys s) (own_base i) (mread (phys s) 0xB8000 4000)\<rparr>)"
    and "vmemcpy 0xB8000 (own_base i) 4000 (set_window i (own_frame i) s) =
           Inr ((set_window i (own_frame i) s)\<lparr>phys := mwrite (phys s) 0xB8000 (mread (phys s) (own_base i) 4000)\<rparr>)"
proof -
  let ?s = "set_window i (own_frame i) s"
  note own = own_facts [OF assms(2)]
  have ok: "base_ok ?s" using assms(1) own by (simp add: base_ok_set_window)
  have len: "length (page_table s) = 1024" using assms(1) by (simp add: base_ok_def tables_ok_def)
  have "maps (page_table ?s ! (0xB9 + i)) (own_frame i)"
    using own assms(2) len by (simp add: map_frame_maps)
  from xlate_own [OF ok assms(2) this] own
  have own_x: "\<forall>d < 4000. xlate ?s (own_base i + int d) = Some (own_base i + int d)" by simp
  have vid_x: "\<forall>d < 4000. xlate ?s (0xB8000 + int d) = Some (0xB8000 + int d)"
    using xlate_video [OF ok] by simp
  show "vmemcpy (own_base i) 0xB8000 4000 ?s =
      Inr (?s\<lparr>phys := mwrite (phys s) (own_base i) (mread (phys s) 0xB8000 4000)\<rparr>)"
    using vmemcpy_eq [OF vid_x own_x] by simp
  show "vmemcpy 0xB8000 (own_base i) 4000 ?s =
      Inr (?s\<lparr>phys := mwrite (phys s) 0xB8000 (mread (phys s) (own_base i) 4000)\<rparr>)"
    using vmemcpy_eq [OF own_x vid_x] by simp
qed

section \<open>Switching\<close>

definition saved :: "'a terms_scheme \<Rightarrow> 'a terms_scheme" where
  "saved s = (let i = user_term s in
     (set_window i (own_frame i) (upd_term i (\<lambda>t. t\<lparr>visible := 0, keyBuf := keyBuffer s\<rparr>) s))
       \<lparr>phys := mwrite (phys s) (own_base i) (mread (phys s) 0xB8000 4000)\<rparr>)"

definition restored :: "nat \<Rightarrow> 'a terms_scheme \<Rightarrow> 'a terms_scheme" where
  "restored j s =
     (set_window j (own_frame j)
        ((upd_term j (\<lambda>t. t\<lparr>visible := 1\<rparr>) s)\<lparr>curr_terminal := of_nat j, keyBuffer := keyBuf (term_arr s ! j)\<rparr>))
       \<lparr>phys := mwrite (phys s) 0xB8000 (mread (phys s) (own_base j) 4000)\<rparr>"

lemma upd_term_fields [simp]:
  "phys (upd_term i f s) = phys s" "keyBuffer (upd_term i f s) = keyBuffer s"
  "curr_terminal (upd_term i f s) = curr_terminal s" "page_table (upd_term i f s) = page_table s"
  "length (term_arr (upd_term i f s)) = length (term_arr s)"
  "i < length (term_arr s) \<Longrightarrow> term_arr (upd_term i f s) ! i = f (term_arr s ! i)"
  "j \<noteq> i \<Longrightarrow> term_arr (upd_term i f s) ! j = term_arr s ! j"
  by (simp_all add: upd_term_def)

lemma upd_term_twice:
  "upd_term i g (upd_term i f s) = upd_term i (\<lambda>t. g (f t)) s"
  by (cases "i < length (term_arr s)") (simp_all add: upd_term_def list_update_beyond)

lemma base_ok_fields [simp]:
  "base_ok (s\<lparr>phys := p\<rparr>) = base_ok s" "base_ok (s\<lparr>io_hist := h\<rparr>) = base_ok s"
  "base_ok (s\<lparr>curr_terminal := c\<rparr>) = base_ok s" "base_ok (s\<lparr>keyBuffer := k\<rparr>) = base_ok s"
  by (simp_all add: base_ok_def)

lemma terminal_save_state_eq:
  assumes "base_ok s" and "user_term s < 3"
  shows "terminal_save_state (user_term s) s = Inr (saved s)"
proof -
  let ?i = "user_term s" and ?f = "\<lambda>t. t\<lparr>visible := 0, keyBuf := keyBuffer s\<rparr>"
  have len: "length (term_arr s) = 3" using assms(1) by (simp add: base_ok_def)
  have ok: "base_ok (upd_term ?i ?f s)" using assms(1) by (rule base_ok_upd_term) simp
  have a: "uint (vid_mem_addr (term_arr s ! ?i)) = own_base ?i"
    using assms own_facts(1) [OF assms(2)] by (simp add: base_ok_def)
  show ?thesis
    using copy_windows(1) [OF ok assms(2)] assms(2) len a
    by (simp add: terminal_save_state_def saved_def Let_def upd_term_twice remap_video_eq [OF ok assms(2)])
qed

lemma terminal_restore_state_eq:
  assumes "base_ok s" and "j < 3"
  shows "terminal_restore_state j s = Inr (restored j s)"
proof -
  have len: "length (term_arr s) = 3" using assms(1) by (simp add: base_ok_def)
  have j: "unat (of_nat j :: u8) = j" using assms(2) by (simp add: unat_of_nat)
  let ?s = "(upd_term j (\<lambda>t. t\<lparr>visible := 1\<rparr>) s)\<lparr>curr_terminal := of_nat j, keyBuffer := keyBuf (term_arr s ! j)\<rparr>"
  have swap: "upd_term j f (s\<lparr>curr_terminal := c\<rparr>) = (upd_term j f s)\<lparr>curr_terminal := c\<rparr>" for f c
    by (simp add: upd_term_def)
  have ok: "base_ok ?s" using assms(1) by (simp add: base_ok_upd_term)
  have a: "uint (vid_mem_addr (term_arr s ! j)) = own_base j"
    using assms own_facts(1) [OF assms(2)] by (simp add: base_ok_def)
  show ?thesis
    using copy_windows(2) [OF ok assms(2)] assms(2) len a remap_video_eq [OF ok assms(2)]
    by (simp add: terminal_restore_state_def restored_def Let_def j swap)
qed

lemma cursor_ok_set_window [simp]: "cursor_ok (set_window i f s) = cursor_ok s"
  by (simp add: cursor_ok_def)

lemma cursor_ok_upd_term:
  assumes "cursor_ok s" and "\<And>t. t_screen_x (f t) = t_screen_x t" and "\<And>t. t_screen_y (f t) = t_screen_y t"
  shows "cursor_ok (upd_term i f s)"
proof (cases "i < length (term_arr s)")
  case True
  then have "t_screen_x t < 80 \<and> t_screen_y t < 25"
    if "t \<in> set ((term_arr s)[i := f (term_arr s ! i)])" for t
    using subsetD [OF set_update_subset_insert that] assms nth_mem [OF True] by (auto simp: cursor_ok_def)
  then show ?thesis using assms(1) by (simp add: cursor_ok_def upd_term_def)
next
  case False
  then show ?thesis using assms(1) by (simp add: upd_term_def list_update_beyond)
qed

lemma cursor_ok_phys [simp]: "cursor_ok (s\<lparr>phys := p\<rparr>) = cursor_ok s"
  by (simp add: cursor_ok_def)

text \<open>The state after a switch to another terminal, before the hardware cursor moved.\<close>

definition switched :: "nat \<Rightarrow> 'a terms_scheme \<Rightarrow> 'a terms_scheme" where
  "switched j s = restored j (saved s)"

lemma terminal_switch_eq:
  fixes idx :: u8
  assumes "terms_ok s" and "idx \<noteq> curr_terminal s" and "idx < 3"
  shows "base_ok (switched (unat idx) s) \<and> cursor_ok (switched (unat idx) s)
     \<and> (\<exists>h. terminal_switch idx s = Inr (0, set_window (unat idx) 0xB8 ((switched (unat idx) s)\<lparr>io_hist := h\<rparr>)))"
proof -
  let ?i = "user_term s" and ?j = "unat idx"
  let ?t = "switched ?j s"
  have ok: "base_ok s" and cur: "cursor_ok s" and i: "?i < 3" and j: "?j < 3"
    using assms by (auto simp: terms_ok_def cursor_ok_def word_less_nat_alt)
  have ok1: "base_ok (saved s)"
    using ok own_facts [OF i] by (simp add: saved_def Let_def base_ok_set_window base_ok_upd_term)
  have ok2: "base_ok ?t"
    using ok1 own_facts [OF j]
    by (simp add: switched_def restored_def base_ok_set_window base_ok_upd_term)
  have cur1: "cursor_ok (saved s)" using cur by (simp add: saved_def Let_def cursor_ok_upd_term)
  then have "cursor_ok (upd_term ?j (\<lambda>t. t\<lparr>visible := 1\<rparr>) (saved s))" by (rule cursor_ok_upd_term) simp_all
  then have cur2: "cursor_ok ?t" using assms(3)
    by (simp add: switched_def restored_def cursor_ok_def word_less_nat_alt)
  have a: "vid_mem_addr (term_arr ?t ! ?j) = video_addr ! ?j"
    using ok2 j by (simp add: base_ok_def)
  have len: "length (page_virtual_mem ?t) = 1024" using ok2 by (simp add: base_ok_def tables_ok_def)
  have "terminal_switch idx s = Inr (0, set_window ?j 0xB8 (?t\<lparr>io_hist := io_hist ?t @ cursor_outs ?t\<rparr>))"
    using assms(2,3) a own_facts [OF j]
    unfolding terminal_switch_def terminal_save_state_eq [OF ok i] and_then_simps
      terminal_restore_state_eq [OF ok1 j] switched_def [symmetric] update_cursor_total [OF cur2]
    by (simp add: set_window_def Let_def upd_vmem_def upd_table_def len not_le
        map_frame_order [unfolded One_nat_def])
  with ok2 cur2 show ?thesis by blast
qed

text \<open>The abstract view: the screen, the typed keys and the cursor of each terminal.\<close>

definition vscreen :: "'a terms_scheme \<Rightarrow> nat \<Rightarrow> u8 list" where
  "vscreen s i = mread (phys s) (if i = user_term s then 0xB8000 else own_base i) 4000"

definition vkeys :: "'a terms_scheme \<Rightarrow> nat \<Rightarrow> u8 list" where
  "vkeys s i = (if i = user_term s then keyBuffer s else keyBuf (term_arr s ! i))"

definition vcursor :: "'a terms_scheme \<Rightarrow> nat \<Rightarrow> u8 \<times> u8" where
  "vcursor s i = (t_screen_x (term_arr s ! i), t_screen_y (term_arr s ! i))"

lemma own_base_apart: "i \<noteq> j \<Longrightarrow> own_base i + 4096 \<le> own_base j \<or> own_base j + 4096 \<le> own_base i"
  by (auto simp: own_base_def)

lemma own_base_above: "0xB9000 \<le> own_base i"
  by (simp add: own_base_def)

lemma mread_mwrite_outside:
  "a + int n \<le> b \<or> b + int (length bs) \<le> a \<Longrightarrow> mread (mwrite m b bs) a n = mread m a n"
  by (rule mread_cong) (auto simp: mwrite_outside)

lemma switched_fields:
  assumes "length (term_arr s) = 3" and "i = user_term s" and "i < 3" and "j < 3" and "i \<noteq> j"
  shows "term_arr (switched j s) = (term_arr s)[i := (term_arr s ! i)\<lparr>visible := 0, keyBuf := keyBuffer s\<rparr>,
      j := (term_arr s ! j)\<lparr>visible := 1\<rparr>]"
  "user_term (switched j s) = j" "keyBuffer (switched j s) = keyBuf (term_arr s ! j)"
  "page_table (switched j s) = (page_table s)[0xB9 + i := map_frame (own_frame i) (page_table s ! (0xB9 + i)),
      0xB9 + j := map_frame (own_frame j) (page_table s ! (0xB9 + j))]"
  "phys (switched j s) = (let m = mwrite (phys s) (own_base i) (mread (phys s) 0xB8000 4000)
      in mwrite m 0xB8000 (mread m (own_base j) 4000))"
  using assms
  by (simp_all add: switched_def restored_def saved_def Let_def upd_term_def unat_of_nat nth_list_update)

lemma vscreen_switched:
  assumes "length (term_arr s) = 3" and "user_term s < 3" and "j < 3" and "user_term s \<noteq> j" and "k < 3"
  shows "vscreen (switched j s) k = vscreen s k"
proof -
  let ?i = "user_term s"
  note f = switched_fields [OF assms(1) refl assms(2,3,4)]
  let ?m = "mwrite (phys s) (own_base ?i) (mread (phys s) 0xB8000 4000)"
  note ij = own_base_apart [OF assms(4)]
  have m_j: "mread ?m (own_base j) 4000 = mread (phys s) (own_base j) 4000"
    using ij by (intro mread_mwrite_outside) auto
  consider "k = j" | "k = ?i" | "k \<noteq> j" "k \<noteq> ?i" by blast
  then show ?thesis
  proof cases
    case 1
    have "mread (phys (switched j s)) 0xB8000 4000 = mread (phys s) (own_base j) 4000"
      unfolding f(5) Let_def m_j using mread_mwrite [of ?m "0xB8000" "mread (phys s) (own_base j) 4000"]
      by simp
    with 1 assms(4) show ?thesis by (simp add: vscreen_def f(2))
  next
    case 2
    have "mread (phys (switched j s)) (own_base ?i) 4000 = mread ?m (own_base ?i) 4000"
      unfolding f(5) Let_def using own_base_above [of ?i] by (intro mread_mwrite_outside) auto
    also have "\<dots> = mread (phys s) 0xB8000 4000"
      using mread_mwrite [of "phys s" "own_base ?i" "mread (phys s) 0xB8000 4000"] by simp
    finally show ?thesis using 2 assms(4) by (simp add: vscreen_def f(2))
  next
    case 3
    have "mread (phys (switched j s)) (own_base k) 4000 = mread ?m (own_base k) 4000"
      unfolding f(5) Let_def using own_base_above [of k] by (intro mread_mwrite_outside) auto
    also have "\<dots> = mread (phys s) (own_base k) 4000"
      using own_base_apart [of k ?i] 3 by (intro mread_mwrite_outside) auto
    finally show ?thesis using 3 by (simp add: vscreen_def f(2))
  qed
qed

lemma phys_switched_outside:
  assumes "length (term_arr s) = 3" and "user_term s < 3" and "j < 3" and "user_term s \<noteq> j"
    and "a \<notin> {0xB8000..<0xBC000}"
  shows "phys (switched j s) a = phys s a"
proof -
  have "own_base (user_term s) \<le> 0xBB000"
    using less_3_cases [OF assms(2)] by (auto simp: own_base_def simp del: of_nat_unat)
  then show ?thesis
    using assms(5) own_base_above [of "user_term s"]
    unfolding switched_fields(5) [OF assms(1) refl assms(2,3,4)] Let_def
    by (subst mwrite_outside, force)+ simp
qed

lemma terms_ok_switched:
  assumes ok: "terms_ok s" and j: "j < 3" and ne: "user_term s \<noteq> j"
    and b: "base_ok (switched j s)" and c: "cursor_ok (switched j s)"
  shows "terms_ok (set_window j 0xB8 (switched j s))"
proof -
  let ?i = "user_term s" and ?t = "set_window j 0xB8 (switched j s)"
  have i: "?i < 3" and len: "length (term_arr s) = 3" "length (page_table s) = 1024"
    using ok by (auto simp: terms_ok_def cursor_ok_def base_ok_def tables_ok_def)
  note f = switched_fields [OF len(1) refl i j ne]
  have bt: "base_ok ?t" using b by (rule base_ok_set_window) simp_all
  have win: "get_present (page_table ?t ! (0xB9 + k)) \<noteq> 1
      \<or> maps (page_table ?t ! (0xB9 + k)) (if k = user_term ?t then 0xB8 else own_frame k)" if k: "k < 3" for k
  proof -
    consider "k = j" | "k = ?i" | "k \<noteq> j" "k \<noteq> ?i" by blast
    then show ?thesis
    proof cases
      case 1
      then show ?thesis using j len by (simp add: f map_frame_maps)
    next
      case 2
      then show ?thesis using i j ne len own_facts(4) [OF i] by (simp add: f map_frame_maps)
    next
      case 3
      with k ok j i len show ?thesis by (auto simp: f terms_ok_def)
    qed
  qed
  show ?thesis
    using bt c win ok j i ne len unfolding terms_ok_def
    by (auto simp: f nth_list_update)
qed

lemma set_window_io: "set_window i f (s\<lparr>io_hist := h\<rparr>) = (set_window i f s)\<lparr>io_hist := h\<rparr>"
  by (simp add: set_window_def upd_vmem_def upd_table_def)

lemma cursor_ok_io [simp]: "cursor_ok (s\<lparr>io_hist := h\<rparr>) = cursor_ok s"
  by (simp add: cursor_ok_def)

lemma terms_ok_io [simp]: "terms_ok (s\<lparr>io_hist := h\<rparr>) = terms_ok s"
  by (simp add: terms_ok_def)

lemma view_set_window [simp]:
  "vscreen (set_window i f s) k = vscreen s k" "vkeys (set_window i f s) k = vkeys s k"
  "vcursor (set_window i f s) k = vcursor s k" "vscreen (s\<lparr>io_hist := h\<rparr>) k = vscreen s k"
  "vkeys (s\<lparr>io_hist := h\<rparr>) k = vkeys s k" "vcursor (s\<lparr>io_hist := h\<rparr>) k = vcursor s k"
  by (simp_all add: vscreen_def vkeys_def vcursor_def)

lemma vkeys_switched:
  assumes "length (term_arr s) = 3" and "user_term s < 3" and "j < 3" and "user_term s \<noteq> j" and "k < 3"
  shows "vkeys (switched j s) k = vkeys s k" and "vcursor (switched j s) k = vcursor s k"
  using assms switched_fields [OF assms(1) refl assms(2,3,4)]
  by (auto simp: vkeys_def vcursor_def nth_list_update)

text \<open>The screen functions keep the invariant and every variable of the keyboard.\<close>

lemma erase_view:
  assumes "erase t = erase s"
  shows "keyBuffer t = keyBuffer s" "curr_terminal t = curr_terminal s" "curr_process t = curr_process s"
    "page_table t = page_table s" "tables_ok t = tables_ok s" "mode t = mode s"
    "keyBufferIndex t = keyBufferIndex s" "ctrlPressed t = ctrlPressed s" "altPressed t = altPressed s"
    "length (term_arr t) = length (term_arr s)" "xlate t = xlate s"
proof -
  have eq: "f (erase t) = f (erase s)" for f :: "'a terms_scheme \<Rightarrow> 'c" using assms by simp
  have keep: "keyBuffer (erase u) = keyBuffer u" "curr_terminal (erase u) = curr_terminal u"
    "curr_process (erase u) = curr_process u" "page_table (erase u) = page_table u"
    "mode (erase u) = mode u" "keyBufferIndex (erase u) = keyBufferIndex u"
    "ctrlPressed (erase u) = ctrlPressed u" "altPressed (erase u) = altPressed u"
    "length (term_arr (erase u)) = length (term_arr u)"
    for u :: "'a terms_scheme" by (simp_all add: erase_def)
  have tab: "tables_ok (erase u) = tables_ok u" "xlate (erase u) = xlate u" for u :: "'a terms_scheme"
    by (simp_all add: erase_def tables_ok_def low_pde_def vidmap_pde_ok_def)
  show "keyBuffer t = keyBuffer s" "curr_terminal t = curr_terminal s" "curr_process t = curr_process s"
    "page_table t = page_table s" "mode t = mode s"
    "keyBufferIndex t = keyBufferIndex s" "ctrlPressed t = ctrlPressed s" "altPressed t = altPressed s"
    "length (term_arr t) = length (term_arr s)"
    unfolding keep [of t, symmetric] keep [of s, symmetric] assms by (rule refl)+
  show "tables_ok t = tables_ok s" "xlate t = xlate s"
    unfolding tab [of t, symmetric] tab [of s, symmetric] assms by (rule refl)+
qed

lemma erase_term_view:
  assumes "erase t = erase s" and "i < length (term_arr s)"
  shows "vid_mem_addr (term_arr t ! i) = vid_mem_addr (term_arr s ! i)"
    "keyBuf (term_arr t ! i) = keyBuf (term_arr s ! i)"
    "visible (term_arr t ! i) = visible (term_arr s ! i)"
proof -
  have "map erase_term (term_arr t) = map erase_term (term_arr s)"
    using arg_cong [OF assms(1), of term_arr] by (simp add: erase_def)
  moreover have "length (term_arr t) = length (term_arr s)"
    using calculation by (rule map_eq_imp_length_eq)
  ultimately have eq: "erase_term (term_arr t ! i) = erase_term (term_arr s ! i)"
    using assms(2) by (metis nth_map)
  have keep: "vid_mem_addr (erase_term x) = vid_mem_addr x" "keyBuf (erase_term x) = keyBuf x"
    "visible (erase_term x) = visible x" for x by (simp_all add: erase_term_def)
  show "vid_mem_addr (term_arr t ! i) = vid_mem_addr (term_arr s ! i)"
    "keyBuf (term_arr t ! i) = keyBuf (term_arr s ! i)"
    "visible (term_arr t ! i) = visible (term_arr s ! i)"
    unfolding keep [of "term_arr t ! i", symmetric] keep [of "term_arr s ! i", symmetric] eq
    by (rule refl)+
qed

lemma terms_ok_scr:
  assumes "terms_ok s" and "scr_inv (erase s) t"
  shows "terms_ok t"
proof -
  have e: "erase t = erase s" and c: "cursor_ok t" using assms(2) by (simp_all add: scr_inv_def)
  have "length (term_arr s) = 3" using assms(1) by (simp add: terms_ok_def base_ok_def)
  then show ?thesis
    using assms(1) c erase_view [OF e] erase_term_view [OF e]
    by (simp add: terms_ok_def base_ok_def)
qed

lemma terms_ok_step:
  assumes "terms_ok s" and "screen_step s t"
  shows "terms_ok t" and "erase t = erase s"
proof -
  have "scr_inv (erase s) s" using assms(1) by (simp add: scr_inv_def terms_ok_def)
  from scr_inv_step [OF this assms(2)] show "terms_ok t" "erase t = erase s"
    using terms_ok_scr [OF assms(1)] by (auto simp: scr_inv_def)
qed

text \<open>What a switch leaves alone.\<close>

definition switch_frame :: "'a terms_scheme \<Rightarrow> 'a terms_scheme \<Rightarrow> bool" where
  "switch_frame s t \<longleftrightarrow> mode t = mode s \<and> keyBufferIndex t = keyBufferIndex s
     \<and> ctrlPressed t = ctrlPressed s \<and> altPressed t = altPressed s \<and> curr_process t = curr_process s
     \<and> page_dir t = page_dir s \<and> int_flag t = int_flag s \<and> terms.more t = terms.more s"

lemma switch_frame_refl [simp]: "switch_frame s s"
  by (simp add: switch_frame_def)

lemma switch_frame_switched:
  "switch_frame s ((set_window j 0xB8 (switched j s))\<lparr>io_hist := h\<rparr>)"
  by (simp add: switch_frame_def switched_def restored_def saved_def set_window_def upd_term_def
      upd_vmem_def upd_table_def Let_def)

lemma terminal_switch_view:
  assumes "terms_ok s"
  shows "if idx < 3
         then \<exists>t. terminal_switch idx s = Inr (0, t) \<and> terms_ok t \<and> switch_frame s t \<and> curr_terminal t = idx
                \<and> (\<forall>k < 3. vscreen t k = vscreen s k \<and> vkeys t k = vkeys s k \<and> vcursor t k = vcursor s k)
                \<and> (\<forall>a. a \<notin> {0xB8000..<0xBC000} \<longrightarrow> phys t a = phys s a)
         else terminal_switch idx s = Inr (-1, s)"
proof -
  have len: "length (term_arr s) = 3" and i: "user_term s < 3" and cur: "curr_terminal s < 3"
    using assms by (auto simp: terms_ok_def cursor_ok_def word_less_nat_alt)
  consider (bad) "\<not> idx < 3" | (same) "idx = curr_terminal s" | (new) "idx < 3" "idx \<noteq> curr_terminal s"
    by blast
  then show ?thesis
  proof cases
    case bad
    with cur show ?thesis by (auto simp: terminal_switch_def not_less)
  next
    case same
    with assms cur show ?thesis by (simp add: terminal_switch_def)
  next
    case new
    let ?j = "unat idx"
    have j: "?j < 3" and ne: "user_term s \<noteq> ?j"
      using new by (auto simp: word_less_nat_alt simp: word_unat_eq_iff)
    note f = switched_fields [OF len refl i j ne]
    obtain h where b: "base_ok (switched ?j s)" "cursor_ok (switched ?j s)"
      and t: "terminal_switch idx s = Inr (0, (set_window ?j 0xB8 (switched ?j s))\<lparr>io_hist := h\<rparr>)"
      using terminal_switch_eq [OF assms new(2,1)] by (auto simp: set_window_io)
    let ?t = "(set_window ?j 0xB8 (switched ?j s))\<lparr>io_hist := h\<rparr>"
    have "terms_ok ?t" using terms_ok_switched [OF assms j ne b] by simp
    moreover have "switch_frame s ?t" by (rule switch_frame_switched)
    moreover have "curr_terminal ?t = idx"
      using f(2) by (simp add: word_unat_eq_iff)
    moreover have "vscreen ?t k = vscreen s k \<and> vkeys ?t k = vkeys s k \<and> vcursor ?t k = vcursor s k"
      if "k < 3" for k
      using vscreen_switched [OF len i j ne that] vkeys_switched [OF len i j ne that]
      by simp
    moreover have "phys ?t a = phys s a" if "a \<notin> {0xB8000..<0xBC000}" for a
      using phys_switched_outside [OF len i j ne that] by simp
    ultimately show ?thesis using new(1) t by auto
  qed
qed

section \<open>Properties\<close>

text \<open>
  C12. Switching terminals loses nothing: from a state in which the terminals are as the kernel
  keeps them, \<open>terminal_switch\<close> returns, the requested terminal is on display, and for each
  of the three terminals its 4000 bytes of screen (in video memory when it is on display, in
  its own frame otherwise), its typed keys and its cursor are what they were; memory outside
  the four video frames is untouched and the invariant holds again. An index above 2 is
  refused with no change.
\<close>

theorem terminal_switch_refines:
  assumes "terms_ok s"
  shows "if idx < 3
         then \<exists>t. terminal_switch idx s = Inr (0, t) \<and> terms_ok t \<and> curr_terminal t = idx
                \<and> (\<forall>k < 3. vscreen t k = vscreen s k \<and> vkeys t k = vkeys s k \<and> vcursor t k = vcursor s k)
                \<and> (\<forall>a. a \<notin> {0xB8000..<0xBC000} \<longrightarrow> phys t a = phys s a)
         else terminal_switch idx s = Inr (-1, s)"
  using terminal_switch_view [OF assms, of idx] by (auto split: if_splits)

text \<open>The terminals after \<open>paging_initialize\<close> and \<open>init_terminal\<close>.\<close>

lemma init_terminal_fields:
  assumes "length (term_arr s) = 3"
  shows "init_terminal s = s\<lparr>term_arr := map (\<lambda>i. (term_arr s ! i)\<lparr>t_screen_x := 0, t_screen_y := 0,
      visible := (if i = 0 then 1 else 0), vid_mem_addr := video_addr ! i, newline_tracker := 0,
      enterFlag := 0\<rparr>) [0, 1, 2], curr_terminal := 0\<rparr>"
proof -
  from assms obtain a b c where "term_arr s = [a, b, c]"
    by (auto simp: numeral_3_eq_3 length_Suc_conv)
  then show ?thesis
    by (simp add: init_terminal_def init_terminal_at_def upd_term_def Let_def numeral_3_eq_3
        eval_nat_numeral upt_rec)
qed

definition pre_init :: "'a terms_scheme \<Rightarrow> bool" where
  "pre_init s \<longleftrightarrow> length (page_virtual_mem s) = 1024 \<and> (\<forall>i < 1024. page_virtual_mem s ! i = 0)
     \<and> drop_bit 12 (page_table_addr s) \<noteq> drop_bit 12 (page_virtual_mem_addr s)
     \<and> length (term_arr s) = 3 \<and> (\<forall>i < 3. length (keyBuf (term_arr s ! i)) = 127)
     \<and> length (keyBuffer s) = 127 \<and> proc_term s < 3
     \<and> 0 \<le> screen_x s \<and> screen_x s < 80 \<and> 0 \<le> screen_y s \<and> screen_y s < 25"

lemma terms_ok_init:
  assumes "pre_init s"
  shows "terms_ok (init_terminal (paging_initialize s))"
proof -
  let ?p = "paging_initialize s"
  have tok: "tables_ok ?p" using assms by (intro tables_ok_paging_initialize) (auto simp: pre_init_def)
  have p: "term_arr ?p = term_arr s" "curr_process ?p = curr_process s" "keyBuffer ?p = keyBuffer s"
    "screen_x ?p = screen_x s" "screen_y ?p = screen_y s"
    "page_table ?p = (replicate 1024 0)[0xB8 := map_frame 0xB8 0]"
    unfolding paging_initialize_eq map_frame_order [symmetric]
    by (simp_all add: set_field_def map_frame_order)
  have len: "length (term_arr ?p) = 3" using assms p by (simp add: pre_init_def)
  have "maps (map_frame 0xB8 0) 0xB8" by (rule map_frame_maps) simp
  then have "base_ok (init_terminal ?p)"
    using tok p unfolding init_terminal_fields [OF len] base_ok_def
    by (auto simp: dest!: less_3_cases)
  moreover have "cursor_ok (init_terminal ?p)"
    using assms p unfolding init_terminal_fields [OF len] cursor_ok_def pre_init_def by auto
  ultimately show ?thesis
    using assms p unfolding init_terminal_fields [OF len] terms_ok_def pre_init_def
    by (auto dest!: less_3_cases)
qed

text \<open>The variables at boot, for evaluation.\<close>

definition terms_boot :: terms where
  "terms_boot = \<lparr>io_hist = [], int_flag = False, phys = (\<lambda>_. 0), master_mask = 0, slave_mask = 0,
      rtc_tick = 0, rtc_status = 0, page_dir = [], page_table = [],
      page_virtual_mem = replicate 1024 0, page_dir_addr = 0x410000, page_table_addr = 0x411000,
      page_virtual_mem_addr = 0x412000, cr3 = 0, paging_on = False,
      screen_x = 0, screen_y = 0, video_mem = 0xB8000, scrollFlag = 0,
      term_arr = replicate 3 \<lparr>t_screen_x = 0, t_screen_y = 0, keyBuf = replicate 127 0, visible = 0,
        vid_mem_addr = 0, newline_tracker = 0, enterFlag = 0\<rparr>,
      curr_terminal = 0, curr_process = 0, keyBuffer = replicate 127 0, keyBufferIndex = 0,
      mode = 0, ctrlPressed = 0, altPressed = 0\<rparr>"

lemma pre_init_boot: "pre_init terms_boot"
  by (simp add: pre_init_def terms_boot_def)

theorem terminal_switch_refines_witness:
  "\<exists>t. terminal_switch 2 (init_terminal (paging_initialize terms_boot)) = Inr (0, t)
     \<and> terms_ok t \<and> curr_terminal t = 2"
  using terminal_switch_refines [OF terms_ok_init [OF pre_init_boot], of 2] by auto

text \<open>
  C23. From the cleared variables of a fresh boot, \<open>paging_initialize\<close> followed by
  \<open>init_terminal\<close> establishes the invariant of the terminals: well-formed tables, each
  window at its address, terminal 0 on display and visible.
\<close>

theorem init_establishes_terms_ok:
  assumes "pre_init s"
  shows "terms_ok (init_terminal (paging_initialize s)) \<and> curr_terminal (init_terminal (paging_initialize s)) = 0
     \<and> visible (term_arr (init_terminal (paging_initialize s)) ! 0) = 1"
proof -
  have ok: "terms_ok (init_terminal (paging_initialize s))" by (rule terms_ok_init [OF assms])
  have "length (term_arr (paging_initialize s)) = 3"
    using assms by (simp add: paging_initialize_eq pre_init_def)
  with ok show ?thesis by (simp add: init_terminal_fields)
qed

theorem init_establishes_terms_ok_witness:
  "terms_ok (init_terminal (paging_initialize terms_boot))"
  using init_establishes_terms_ok [OF pre_init_boot] by simp

section \<open>The remapping of the scheduler\<close>

lemma scheduler_remap_table:
  assumes "base_ok s" and "i < 3"
  shows "page_table (scheduler_remap_video i s) = (page_table s)[0xB9 + i :=
           map_frame (if i = user_term s then 0xB8 else own_frame i) (page_table s ! (0xB9 + i))]"
    and "page_virtual_mem (scheduler_remap_video i s) ! 0 =
           set_user 1 (set_read_write 1 (set_present 1 (set_base_entry
             (if i = user_term s then 0xB8 else own_frame i) (page_virtual_mem s ! 0))))"
proof -
  have len: "length (page_virtual_mem s) = 1024" using assms(1) by (simp add: base_ok_def tables_ok_def)
  have w: "window_index (VIDEO_MEM + (1 + of_nat i) * 0x1000) = 0xB9 + i"
    "drop_bit 12 (VIDEO_MEM + (1 + of_nat i) * 0x1000) = own_frame i"
    using less_3_cases [OF assms(2)] by (auto simp: window_index_def own_frame_def)
  show "page_table (scheduler_remap_video i s) = (page_table s)[0xB9 + i :=
           map_frame (if i = user_term s then 0xB8 else own_frame i) (page_table s ! (0xB9 + i))]"
    using assms(2) w
    by (auto simp: scheduler_remap_video_def Let_def upd_table_def upd_vmem_def)
  show "page_virtual_mem (scheduler_remap_video i s) ! 0 =
           set_user 1 (set_read_write 1 (set_present 1 (set_base_entry
             (if i = user_term s then 0xB8 else own_frame i) (page_virtual_mem s ! 0))))"
    using assms(2) w len
    by (auto simp: scheduler_remap_video_def Let_def upd_table_def upd_vmem_def)
qed

text \<open>The entry field of a four-megabyte page in a page-table entry: a frame above 32 MB.\<close>

lemma vmem_entry_safe:
  assumes "f \<in> {0xB8, 0xB9, 0xBA, 0xBB}"
  shows "pte_safe (set_user 1 (set_read_write 1 (set_present 1 (set_base_entry f e))))"
    and "0x2E000 \<le> get_base_pte (set_user 1 (set_read_write 1 (set_present 1 (set_base_entry f e))))"
proof -
  let ?e = "set_user 1 (set_read_write 1 (set_present 1 (set_base_entry f e)))"
  have "drop_bit 10 (get_base_pte ?e) = get_base_entry ?e"
    by (rule bit_word_eqI) (auto simp: get_field_def bit_simps)
  also have "\<dots> = f" using assms by auto
  finally have "drop_bit 10 (get_base_pte ?e) = f" .
  moreover have "uint (drop_bit 10 w) = uint w div 1024" for w :: u32
    by (simp add: drop_bit_eq_div uint_div)
  ultimately have "uint (get_base_pte ?e) div 1024 = uint f" by metis
  moreover have "0xB8 \<le> uint f" using assms by auto
  ultimately have "0x2E000 \<le> uint (get_base_pte ?e)" by linarith
  then show 1: "0x2E000 \<le> get_base_pte ?e" by (simp add: word_le_def)
  then show "pte_safe ?e" by (auto simp: pte_safe_def word_le_def word_less_def)
qed

lemma terms_ok_scheduler_remap:
  assumes ok: "terms_ok s"
  shows "terms_ok (scheduler_remap_video i s)"
proof (cases "i < 3")
  case False
  then show ?thesis using ok by (simp add: scheduler_remap_video_def)
next
  case True
  let ?t = "scheduler_remap_video i s" and ?f = "if i = user_term s then 0xB8 else own_frame i"
  have b: "base_ok s" and len: "length (page_table s) = 1024" "length (page_virtual_mem s) = 1024"
    using ok by (auto simp: terms_ok_def base_ok_def tables_ok_def)
  note tab = scheduler_remap_table [OF b True]
  have f: "take_bit 20 ?f = ?f" "?f < 0x400" "?f \<in> {0xB8, 0xB9, 0xBA, 0xBB}"
    using less_3_cases [OF True] own_facts [OF True] by (auto simp: own_frame_def)
  have w: "window_index (VIDEO_MEM + (1 + of_nat i) * 0x1000) = 0xB9 + i"
    "drop_bit 12 (VIDEO_MEM + (1 + of_nat i) * 0x1000) = own_frame i"
    using less_3_cases [OF True] by (auto simp: window_index_def own_frame_def)
  have t: "?t = upd_vmem 0 (\<lambda>e. set_user 1 (set_read_write 1 (set_present 1 (set_base_entry ?f e))))
      (upd_table (0xB9 + i) (map_frame ?f) s)"
    using True w len by (simp add: scheduler_remap_video_def Let_def upd_table_def upd_vmem_def)
  have tok: "tables_ok ?t" unfolding t
    using b f by (intro tables_ok_upd_vmem tables_ok_upd_table map_frame_safe vmem_entry_safe(1))
      (simp_all add: base_ok_def)
  have same: "term_arr ?t = term_arr s" "keyBuffer ?t = keyBuffer s" "curr_terminal ?t = curr_terminal s"
    "curr_process ?t = curr_process s" "screen_x ?t = screen_x s" "screen_y ?t = screen_y s"
    unfolding t by (simp_all add: upd_vmem_def upd_table_def)
  have win: "get_present (page_table ?t ! (0xB9 + k)) \<noteq> 1
      \<or> maps (page_table ?t ! (0xB9 + k)) (if k = user_term s then 0xB8 else own_frame k)" if "k < 3" for k
    using ok that True len f map_frame_maps [OF f(1)]
    by (cases "k = i") (auto simp: tab(1) terms_ok_def nth_list_update)
  show ?thesis
    using ok tok win tab(1) True unfolding terms_ok_def base_ok_def cursor_ok_def same by simp
qed

lemma window_scheduler_remap:
  assumes "terms_ok s" and "i < 3"
  shows "terms_ok (scheduler_remap_video i s)
     \<and> window (scheduler_remap_video i s) i (if i = user_term s then 0xB8000 else 0xB9000 + int i * 0x1000)"
proof -
  let ?t = "scheduler_remap_video i s" and ?f = "if i = user_term s then 0xB8 else own_frame i"
  have ok: "terms_ok ?t" by (rule terms_ok_scheduler_remap [OF assms(1)])
  have b: "base_ok s" "base_ok ?t" and len: "length (page_table s) = 1024"
    using assms(1) ok by (auto simp: terms_ok_def base_ok_def tables_ok_def)
  have f: "take_bit 20 ?f = ?f" using own_facts [OF assms(2)] by auto
  have "maps (page_table ?t ! (0xB9 + i)) ?f"
    unfolding scheduler_remap_table(1) [OF b(1) assms(2)]
    using assms(2) len map_frame_maps [OF f] by simp
  note x = xlate_own [OF b(2) assms(2) this]
  have "uint (vid_mem_addr (term_arr ?t ! i)) = own_base i"
    using b(2) assms(2) own_facts(1) [OF assms(2)] by (simp add: base_ok_def)
  moreover have "uint ?f * 0x1000 = (if i = user_term s then 0xB8000 else 0xB9000 + int i * 0x1000)"
    using own_facts(6) [OF assms(2)] by (simp add: own_base_def)
  ultimately have "window ?t i (if i = user_term s then 0xB8000 else 0xB9000 + int i * 0x1000)"
    using x unfolding window_def by simp
  with ok show ?thesis by blast
qed

text \<open>
  \<open>scheduler_remap_video\<close> keeps the invariant of the terminals and maps the window of the
  terminal that is scheduled: to video memory when it is on display, to its own frame when
  it is hidden, so that \<open>putc\<close> of a hidden process cannot touch the display.
\<close>

theorem scheduler_remap_window:
  assumes "terms_ok s" and "i < 3"
  shows "terms_ok (scheduler_remap_video i s)
     \<and> window (scheduler_remap_video i s) i (if i = user_term s then 0xB8000 else 0xB9000 + int i * 0x1000)"
  using assms by (rule window_scheduler_remap)

theorem scheduler_remap_window_witness:
  "window (scheduler_remap_video 1 (init_terminal (paging_initialize terms_boot))) 1 0xBA000"
proof -
  let ?s = "init_terminal (paging_initialize terms_boot)"
  have ok: "terms_ok ?s" by (rule terms_ok_init [OF pre_init_boot])
  have "length (term_arr (paging_initialize terms_boot)) = 3"
    by (simp add: paging_initialize_eq terms_boot_def)
  then have "user_term ?s = 0" by (simp add: init_terminal_fields)
  then show ?thesis using scheduler_remap_window [OF ok, of 1] by simp
qed

text \<open>
  C30. The same call rewrites the page that \<open>vidmap\<close> gives to programs through the wrong bit
  field (the base of a four-megabyte page in a page-table entry): afterwards the page points
  to a frame at or above 0x2E000, never to video memory or to a terminal's frame.
\<close>

theorem scheduler_remap_breaks_vidmap:
  assumes "terms_ok s" and "i < 3"
  shows "get_present (page_virtual_mem (scheduler_remap_video i s) ! 0) = 1
     \<and> 0x2E000 \<le> get_base_pte (page_virtual_mem (scheduler_remap_video i s) ! 0)"
proof -
  have b: "base_ok s" using assms(1) by (simp add: terms_ok_def)
  have "(if i = user_term s then 0xB8 else own_frame i) \<in> {0xB8, 0xB9, 0xBA, 0xBB}"
    using less_3_cases [OF assms(2)] by (auto simp: own_frame_def)
  from vmem_entry_safe(2) [OF this] show ?thesis
    unfolding scheduler_remap_table(2) [OF b assms(2)] by simp
qed

theorem scheduler_remap_breaks_vidmap_witness:
  "0x2E000 \<le> get_base_pte (page_virtual_mem
     (scheduler_remap_video 0 (init_terminal (paging_initialize terms_boot))) ! 0)"
  using scheduler_remap_breaks_vidmap [OF terms_ok_init [OF pre_init_boot], of 0] by simp

end
