(* ===== verification/Keyboard.thy ===== *)
theory Keyboard
  imports Terminals
begin

text \<open>
  The keyboard driver, \<^verbatim>\<open>mp3/student-distrib/keyboard.c\<close> and \<^verbatim>\<open>keyboard.h\<close>: the scan-code table,
  \<open>key_press\<close> and the interrupt handler. \<open>keyBuffer\<close> has 127 elements and every access to it
  is checked: an index outside \<open>0..126\<close> is the fault \<open>OutOfBounds\<close>. The scan code is the
  answer of the device at port 0x60.

  The lemmas show when the handler stays inside the buffer and keeps the invariant of the
  terminals, that typed text reaches the buffer, and the key sequences that leave it.
\<close>

section \<open>The table and the buffer\<close>

definition keys_map :: "u8 list list" where
  "keys_map =
    [[0, 9, 49, 50, 51, 52, 53, 54, 55, 56, 57, 48, 45, 61, 0, 0, 113, 119, 101, 114, 116, 121,
      117, 105, 111, 112, 91, 93, 0, 0, 97, 115, 100, 102, 103, 104, 106, 107, 108, 59, 39, 96,
      0, 92, 122, 120, 99, 118, 98, 110, 109, 44, 46, 47, 0, 42, 0, 32, 0],
     [0, 9, 49, 50, 51, 52, 53, 54, 55, 56, 57, 48, 45, 61, 0, 0, 81, 87, 69, 82, 84, 89, 85, 73,
      79, 80, 91, 93, 0, 0, 65, 83, 68, 70, 71, 72, 74, 75, 76, 59, 39, 96, 0, 92, 90, 88, 67,
      86, 66, 78, 77, 44, 46, 47, 0, 42, 0, 32, 0],
     [0, 9, 33, 64, 35, 36, 37, 94, 38, 42, 40, 41, 95, 43, 0, 0, 81, 87, 69, 82, 84, 89, 85, 73,
      79, 80, 123, 125, 0, 0, 65, 83, 68, 70, 71, 72, 74, 75, 76, 58, 34, 126, 0, 124, 90, 88,
      67, 86, 66, 78, 77, 60, 62, 63, 0, 42, 0, 32, 0],
     [0, 9, 33, 64, 35, 36, 37, 94, 38, 42, 40, 41, 95, 43, 0, 0, 113, 119, 101, 114, 116, 121,
      117, 105, 111, 112, 123, 125, 0, 0, 97, 115, 100, 102, 103, 104, 106, 107, 108, 58, 34,
      126, 0, 92, 122, 120, 99, 118, 98, 110, 109, 60, 62, 63, 0, 42, 0, 32, 0]]"

definition kb_read :: "int \<Rightarrow> 'a terms_scheme \<Rightarrow> u8 res" where
  "kb_read i s = (if 0 \<le> i \<and> i < 127 then Inr (keyBuffer s ! nat i) else Inl OutOfBounds)"

definition kb_write :: "int \<Rightarrow> u8 \<Rightarrow> 'a terms_scheme \<Rightarrow> 'a terms_scheme res" where
  "kb_write i v s = check (0 \<le> i \<and> i < 127) OutOfBounds (s\<lparr>keyBuffer := (keyBuffer s)[nat i := v]\<rparr>)"

section \<open>The operations\<close>

definition keyboard_init :: "device \<Rightarrow> 'a terms_scheme \<Rightarrow> 'a terms_scheme" where
  "keyboard_init dev s = enable_irq dev 1 s"

text \<open>The branch of \<open>key_press\<close> that wraps the line, and the one that types \<open>v\<close>.\<close>

definition key_wrap :: "'a terms_scheme \<Rightarrow> 'a terms_scheme res" where
  "key_wrap s =
     (if keyBufferIndex s \<noteq> 0 \<and> keyBufferIndex s smod (80 - 7) = 0
      then and_then (kb_write (keyBufferIndex s) 0x0A s) (\<lambda>s.
           and_then (enter (s\<lparr>keyBufferIndex := keyBufferIndex s + 1\<rparr>)) (\<lambda>s.
           and_then (vert_scroll s) update_cursor))
      else Inr s)"

definition key_type :: "u8 \<Rightarrow> 'a terms_scheme \<Rightarrow> 'a terms_scheme res" where
  "key_type v s =
     and_then (key_wrap s) (\<lambda>s.
     and_then (putc_user v s) (\<lambda>s.
     and_then (kb_write (keyBufferIndex s) v s) (\<lambda>s.
     Inr (s\<lparr>keyBufferIndex := keyBufferIndex s + 1\<rparr>))))"

definition key_finish :: "'a terms_scheme \<Rightarrow> 'a terms_scheme res" where
  "key_finish s =
     and_then (if keyBufferIndex s = 128 - 1 then kb_write (keyBufferIndex s) 0x0A s else Inr s)
       update_cursor"

definition key_press :: "int \<Rightarrow> 'a terms_scheme \<Rightarrow> 'a terms_scheme res" where
  "key_press key s =
     (if key \<ge> 59 then Inr s
      else if keyBufferIndex s < 128 - 2
      then let keyValue = keys_map ! nat (mode s) ! nat key
           in if keyValue = 0 then Inr s
              else if ctrlPressed s = 1 \<and> (keyValue = 0x6C \<or> keyValue = 0x4C)
              then and_then (reset s) (\<lambda>s.
                   and_then (fold_res (\<lambda>k. kb_write (int k) 0) [0..<128] s) (\<lambda>s.
                   Inr (s\<lparr>keyBufferIndex := 0\<rparr>)))
              else if ctrlPressed s = 1 \<and> (keyValue = 0x63 \<or> keyValue = 0x43) then Inr s
              else and_then (key_type keyValue s) key_finish
      else key_finish s)"

definition do_switch :: "u8 \<Rightarrow> 'a terms_scheme \<Rightarrow> 'a terms_scheme res" where
  "do_switch idx s =
     (if altPressed s = 1 then and_then (terminal_switch idx s) (\<lambda>rs. Inr (snd rs)) else Inr s)"

definition key_backspace :: "'a terms_scheme \<Rightarrow> 'a terms_scheme res" where
  "key_backspace s =
     and_then (if keyBufferIndex s > 0
               then and_then (kb_read (keyBufferIndex s) s) (\<lambda>b.
                    and_then (if b = 0x0A
                              then and_then (kb_write (keyBufferIndex s) 0 s)
                                     (\<lambda>s. Inr (s\<lparr>keyBufferIndex := keyBufferIndex s - 1\<rparr>))
                              else Inr s) (\<lambda>s.
                    and_then (backspace s) (\<lambda>s.
                    and_then (kb_write (keyBufferIndex s) 0 s) (\<lambda>s.
                    Inr (s\<lparr>keyBufferIndex := keyBufferIndex s - 1\<rparr>)))))
               else Inr s) update_cursor"

definition key_enter :: "'a terms_scheme \<Rightarrow> 'a terms_scheme res" where
  "key_enter s =
     and_then (enter_user s) (\<lambda>s.
     and_then (vert_scroll_user s) (\<lambda>s.
     and_then (kb_write (keyBufferIndex s) 0x0A s) (\<lambda>s.
     update_cursor (s\<lparr>keyBufferIndex := keyBufferIndex s + 1\<rparr>))))"

text \<open>The \<open>switch\<close> of the handler on the scan code. \<open>mode\<close> is 0 to 3.\<close>

definition key_switch :: "int \<Rightarrow> 'a terms_scheme \<Rightarrow> 'a terms_scheme res" where
  "key_switch input s =
     (if input = 0x2A \<or> input = 0x36 then Inr (s\<lparr>mode := mode s OR 2\<rparr>)
      else if input = 0xAA \<or> input = 0xB6 then Inr (s\<lparr>mode := mode s AND NOT 2\<rparr>)
      else if input = 0x3A then Inr (s\<lparr>mode := mode s XOR 1\<rparr>)
      else if input = 0x1D then Inr (s\<lparr>ctrlPressed := 1\<rparr>)
      else if input = 0x9D then Inr (s\<lparr>ctrlPressed := 0\<rparr>)
      else if input = 0x38 then Inr (s\<lparr>altPressed := 1\<rparr>)
      else if input = 0xB8 then Inr (s\<lparr>altPressed := 0\<rparr>)
      else if input = 0x3B then do_switch 0 s
      else if input = 0x3C then do_switch 1 s
      else if input = 0x3D then do_switch 2 s
      else if input = 0x0E then key_backspace s
      else if input = 0x1C then key_enter s
      else Inr s)"

definition keyboard_inter_handler :: "device \<Rightarrow> 'a terms_scheme \<Rightarrow> 'a terms_scheme res" where
  "keyboard_inter_handler dev s =
     (let s = outb 1 0x64 s;
          (b, s) = inb dev 0x60 s;
          input = uint b
      in and_then (key_switch input s) (\<lambda>s.
         and_then (key_press input s) (\<lambda>s.
         Inr (send_eoi 1 s))))"

section \<open>The invariant\<close>

text \<open>
  \<open>kb_at m e\<close>: the invariant with key mode \<open>m\<close>, which only the \<open>switch\<close> changes, and with \<open>e\<close>
  above the terminals in the state, which the driver never changes.
\<close>

definition kb_at :: "int \<Rightarrow> 'a \<Rightarrow> 'a terms_scheme \<Rightarrow> bool" where
  "kb_at m e s \<longleftrightarrow> terms_ok s \<and> mode s = m \<and> terms.more s = e"

definition kb_inv :: "'a terms_scheme \<Rightarrow> bool" where
  "kb_inv s \<longleftrightarrow> terms_ok s \<and> 0 \<le> mode s \<and> mode s < 4"

lemma erase_more:
  fixes s t :: "'a terms_scheme"
  assumes "erase t = erase s" shows "terms.more t = terms.more s"
proof -
  have "terms.more (erase u) = terms.more u" for u :: "'a terms_scheme" by (simp add: erase_def)
  from this [of s] this [of t] assms show ?thesis by simp
qed

lemma kb_at_step: "kb_at m e s \<Longrightarrow> screen_step s t \<Longrightarrow> kb_at m e t"
  using terms_ok_step [of s t] erase_view(6) [of t s] erase_more [of t s] by (simp add: kb_at_def)

lemma kb_screen_posts:
  assumes "kb_at m e s"
  shows "post (update_cursor s) (kb_at m e)" "post (reset s) (kb_at m e)" "post (backspace s) (kb_at m e)"
    "post (enter s) (kb_at m e)" "post (enter_user s) (kb_at m e)" "post (vert_scroll s) (kb_at m e)"
    "post (vert_scroll_user s) (kb_at m e)" "post (putc c s) (kb_at m e)" "post (putc_user c s) (kb_at m e)"
  using kb_at_step [OF assms] by (auto intro!: postI intro: screen_step.intros)

lemmas kb_seq = post_seq [where Q = "kb_at m e" for m e]

lemma terms_ok_kb_fields [simp]:
  "terms_ok (s\<lparr>keyBufferIndex := i\<rparr>) = terms_ok s" "terms_ok (s\<lparr>mode := m\<rparr>) = terms_ok s"
  "terms_ok (s\<lparr>ctrlPressed := c\<rparr>) = terms_ok s" "terms_ok (s\<lparr>altPressed := c\<rparr>) = terms_ok s"
  "terms_ok (s\<lparr>keyBuffer := (keyBuffer s)[k := v]\<rparr>) = terms_ok s"
  by (simp_all add: terms_ok_def base_ok_def cursor_ok_def tables_ok_def low_pde_def vidmap_pde_ok_def)

lemma kb_at_fields [simp]:
  "kb_at m e (s\<lparr>keyBufferIndex := i\<rparr>) = kb_at m e s" "kb_at m e (s\<lparr>ctrlPressed := c\<rparr>) = kb_at m e s"
  "kb_at m e (s\<lparr>altPressed := c\<rparr>) = kb_at m e s" "kb_at m e (s\<lparr>io_hist := h\<rparr>) = kb_at m e s"
  by (simp_all add: kb_at_def)

lemma kb_write_post: "kb_at m e s \<Longrightarrow> post (kb_write i v s) (kb_at m e)"
  by (simp add: kb_write_def kb_at_def)

interpretation kb_clear: keeps "kb_at m e" "\<lambda>k. kb_write (int k) 0" for m e
  by unfold_locales (rule postD [OF kb_write_post])

lemma key_type_post: "kb_at m e s \<Longrightarrow> post (key_type v s) (kb_at m e)"
  by (auto simp: key_type_def key_wrap_def intro!: kb_seq kb_screen_posts kb_write_post)

lemma key_finish_post: "kb_at m e s \<Longrightarrow> post (key_finish s) (kb_at m e)"
  by (auto simp: key_finish_def intro!: kb_seq kb_screen_posts kb_write_post)

lemma key_clear_post: "kb_at m e s \<Longrightarrow> post (fold_res (\<lambda>k. kb_write (int k) 0) ks s) (kb_at m e)"
  by (rule postI) (rule kb_clear.loop_inv)

lemma key_press_post: "kb_at m e s \<Longrightarrow> post (key_press key s) (kb_at m e)"
  by (auto simp: key_press_def Let_def simp del: upt_rec_numeral
      intro!: kb_seq kb_screen_posts key_type_post key_finish_post key_clear_post)

lemma do_switch_post: "kb_at m e s \<Longrightarrow> idx < 3 \<Longrightarrow> post (do_switch idx s) (kb_at m e)"
  using terminal_switch_view [of s idx]
  by (auto simp: do_switch_def kb_at_def switch_frame_def)

lemma kb_read_any: "(\<And>b. post (f b) P) \<Longrightarrow> post (and_then (kb_read i s) f) P"
  by (rule post_any)

lemma key_backspace_post: "kb_at m e s \<Longrightarrow> post (key_backspace s) (kb_at m e)"
  by (auto simp: key_backspace_def intro!: kb_seq kb_screen_posts kb_write_post kb_read_any)

lemma key_enter_post: "kb_at m e s \<Longrightarrow> post (key_enter s) (kb_at m e)"
  by (auto simp: key_enter_def intro!: kb_seq kb_screen_posts kb_write_post)

lemma mode_bits:
  fixes m :: int
  assumes "0 \<le> m" and "m < 4"
  shows "m = 0 \<or> m = 1 \<or> m = 2 \<or> m = 3"
  using assms by auto

text \<open>The effect of a scan code on the key mode.\<close>

definition mode_step :: "int \<Rightarrow> int \<Rightarrow> int" where
  "mode_step input m =
     (if input = 0x2A \<or> input = 0x36 then m OR 2
      else if input = 0xAA \<or> input = 0xB6 then m AND NOT 2
      else if input = 0x3A then m XOR 1 else m)"

lemma mode_step_range:
  assumes "0 \<le> m" and "m < 4"
  shows "0 \<le> mode_step input m \<and> mode_step input m < 4"
  using mode_bits [OF assms] by (auto simp: mode_step_def)

lemma kb_at_mode: "kb_at m e s \<Longrightarrow> kb_at m' e (s\<lparr>mode := m'\<rparr>)"
  by (simp add: kb_at_def)

lemma key_switch_post: "kb_at m e s \<Longrightarrow> post (key_switch input s) (kb_at (mode_step input m) e)"
proof -
  assume s: "kb_at m e s"
  then have m: "mode s = m" by (simp add: kb_at_def)
  show ?thesis
    unfolding key_switch_def mode_step_def m
    using do_switch_post [OF s] key_backspace_post [OF s] key_enter_post [OF s] kb_at_mode [OF s] s
    by auto
qed

lemma send_eoi_kb_at: "kb_at m e s \<Longrightarrow> kb_at m e (send_eoi n s)"
  by (simp add: send_eoi_def outb_def)

lemma handler_mode_post:
  "kb_at m e s \<Longrightarrow> post (keyboard_inter_handler dev s)
     (kb_at (mode_step (uint (dev (io_hist s @ [Out 0x64 1]) 0x60)) m) e)"
  unfolding keyboard_inter_handler_def Let_def inb_def outb_def
  by (auto intro!: kb_seq key_switch_post key_press_post send_eoi_kb_at)

lemma keyboard_handler_post: "kb_inv s \<Longrightarrow> post (keyboard_inter_handler dev s) kb_inv"
  using handler_mode_post [of "mode s" "terms.more s" s dev] mode_step_range [of "mode s"]
  by (auto simp: kb_inv_def kb_at_def post_def)

lemma kb_inv_fields [simp]:
  "kb_inv (s\<lparr>keyBufferIndex := i\<rparr>) = kb_inv s" "kb_inv (s\<lparr>ctrlPressed := c\<rparr>) = kb_inv s"
  "kb_inv (s\<lparr>altPressed := c\<rparr>) = kb_inv s" "kb_inv (s\<lparr>io_hist := h\<rparr>) = kb_inv s"
  by (simp_all add: kb_inv_def)

lemma kb_inv_step: "kb_inv s \<Longrightarrow> screen_step s t \<Longrightarrow> kb_inv t"
  using kb_at_step [of "mode s" "terms.more s" s t] by (simp add: kb_inv_def kb_at_def)

section \<open>Typing\<close>

text \<open>The character of scan code \<open>k\<close> in key mode \<open>m\<close>, as the driver looks it up.\<close>

definition key_char :: "int \<Rightarrow> u8 \<Rightarrow> u8" where
  "key_char m k = (if uint k < 59 then keys_map ! nat m ! nat (uint k) else 0)"

lemma keys_map_rows: "map length keys_map = [59, 59, 59, 59]"
  by (simp add: keys_map_def)

lemma keys_map_no_newline: "list_all (list_all (\<lambda>v. v \<noteq> 0x0A \<and> v \<noteq> 0x0D)) keys_map"
  by (simp add: keys_map_def)

text \<open>The keys that the handler treats in its \<open>switch\<close> have no character.\<close>

lemma keys_map_special: "list_all (\<lambda>row. list_all (\<lambda>k. row ! k = 0) [0x2A, 0x36, 0x3A, 0x1D, 0x38, 0x0E, 0x1C]) keys_map"
  by (simp add: keys_map_def)

lemma key_char_facts:
  assumes m: "0 \<le> m" "m < 4" and v: "key_char m k \<noteq> 0"
  shows "uint k < 59" "key_char m k \<noteq> 0x0A" "key_char m k \<noteq> 0x0D"
    "uint k \<notin> {0x2A, 0x36, 0x3A, 0x1D, 0x38, 0x0E, 0x1C}"
proof -
  have "length keys_map = 4" by (simp add: keys_map_def)
  then have row: "keys_map ! nat m \<in> set keys_map" using m by simp
  show k: "uint k < 59" using v by (auto simp: key_char_def split: if_splits)
  have "length (keys_map ! nat m) = 59"
    using row arg_cong [OF keys_map_rows, of set] by auto
  moreover have "nat (uint k) < nat 59" using k by (subst nat_less_eq_zless) simp_all
  ultimately have "keys_map ! nat m ! nat (uint k) \<in> set (keys_map ! nat m)" by (intro nth_mem) simp
  then show "key_char m k \<noteq> 0x0A" "key_char m k \<noteq> 0x0D"
    using row keys_map_no_newline k by (auto simp: key_char_def list_all_iff)
  show "uint k \<notin> {0x2A, 0x36, 0x3A, 0x1D, 0x38, 0x0E, 0x1C}"
  proof
    assume "uint k \<in> {0x2A, 0x36, 0x3A, 0x1D, 0x38, 0x0E, 0x1C}"
    then have "nat (uint k) \<in> nat ` {0x2A, 0x36, 0x3A, 0x1D, 0x38, 0x0E, 0x1C}" by (rule imageI)
    also have "\<dots> = set [0x2A, 0x36, 0x3A, 0x1D, 0x38, 0x0E, 0x1C]" by simp
    finally have "nat (uint k) \<in> set [0x2A, 0x36, 0x3A, 0x1D, 0x38, 0x0E, 0x1C]" .
    with row keys_map_special have "keys_map ! nat m ! nat (uint k) = 0"
      unfolding list_all_iff by blast
    with v k show False by (simp add: key_char_def)
  qed
qed

text \<open>A state in which the terminal on display can be typed at.\<close>

definition typable :: "'a terms_scheme \<Rightarrow> bool" where
  "typable s \<longleftrightarrow> kb_inv s \<and> ctrlPressed s \<noteq> 1 \<and> maps (page_table s ! (0xB9 + user_term s)) 0xB8"

lemma typable_window: "typable s \<Longrightarrow> window s (user_term s) 0xB8000"
proof -
  assume t: "typable s"
  then have b: "base_ok s" and u: "user_term s < 3" and m: "maps (page_table s ! (0xB9 + user_term s)) 0xB8"
    by (auto simp: typable_def kb_inv_def terms_ok_def cursor_ok_def)
  have "uint (vid_mem_addr (term_arr s ! user_term s)) = own_base (user_term s)"
    using b u own_facts(1) [OF u] by (simp add: base_ok_def)
  then show ?thesis using xlate_own [OF b u m] by (simp add: window_def)
qed

text \<open>The cell under the cursor of the terminal on display, in video memory.\<close>

definition cursor_cell :: "'a terms_scheme \<Rightarrow> addr" where
  "cursor_cell s = cell_addr 0xB8000 (uint (t_screen_x (term_arr s ! user_term s)))
     (uint (t_screen_y (term_arr s ! user_term s)))"

lemma putc_user_typed:
  assumes "typable s" and "v \<noteq> 0x0A" and "v \<noteq> 0x0D"
  obtains t where "putc_user v s = Inr t" and "erase t = erase s" and "kb_inv t"
    and "phys t = (phys s)(cursor_cell s := v, cursor_cell s + 1 := 7)"
proof -
  have kb: "kb_inv s" and c: "cursor_ok s" and u: "user_term s < 3"
    using assms(1) by (auto simp: typable_def kb_inv_def terms_ok_def cursor_ok_def)
  obtain t where t: "putc_user v s = Inr t"
    and p: "phys t = (phys s)(cursor_cell s := v, cursor_cell s + 1 := 7)"
    using putc_on_total [OF c u typable_window [OF assms(1)], of v] assms(2,3)
    by (simp add: putc_user_def putc_result_def save_cursor_def upd_term_def Let_def cursor_cell_def
        del: fun_upd_apply)
  moreover have "screen_step s t" using t by (rule step_putc_user)
  ultimately show thesis
    using terms_ok_step [of s t] kb_inv_step [OF kb] kb that by (auto simp: kb_inv_def)
qed

lemma typable_io [simp]: "typable (s\<lparr>io_hist := h\<rparr>) = typable s"
  by (simp add: typable_def)

lemma kb_update_cursor: "kb_inv s \<Longrightarrow> update_cursor s = Inr (s\<lparr>io_hist := io_hist s @ cursor_outs s\<rparr>)"
  by (simp add: update_cursor_total kb_inv_def terms_ok_def)

lemma send_eoi_1: "\<exists>h. send_eoi 1 s = s\<lparr>io_hist := h\<rparr>"
  by (simp add: send_eoi_def outb_def) blast

text \<open>One printable key: what \<open>key_press\<close> does, and the handler around it.\<close>

definition typed :: "u8 \<Rightarrow> 'a terms_scheme \<Rightarrow> 'a terms_scheme \<Rightarrow> bool" where
  "typed v s t \<longleftrightarrow> typable t \<and> mode t = mode s \<and> curr_terminal t = curr_terminal s
     \<and> keyBuffer t = (keyBuffer s)[nat (keyBufferIndex s) := v]
     \<and> keyBufferIndex t = keyBufferIndex s + 1
     \<and> phys t = (phys s)(cursor_cell s := v, cursor_cell s + 1 := 7)"

lemma key_press_typed:
  assumes s: "typable s" and v: "key_char (mode s) k \<noteq> 0"
    and i: "0 \<le> keyBufferIndex s" "keyBufferIndex s < 126"
    and w: "keyBufferIndex s = 0 \<or> keyBufferIndex s smod 73 \<noteq> 0"
  shows "\<exists>t. key_press (uint k) s = Inr t \<and> typed (key_char (mode s) k) s t"
proof -
  let ?v = "key_char (mode s) k"
  have m: "0 \<le> mode s" "mode s < 4" and ctrl: "ctrlPressed s \<noteq> 1"
    using s by (auto simp: typable_def kb_inv_def)
  note f = key_char_facts [OF m v]
  obtain u where u: "putc_user ?v s = Inr u" "erase u = erase s" "kb_inv u"
    and p: "phys u = (phys s)(cursor_cell s := ?v, cursor_cell s + 1 := 7)"
    using putc_user_typed [OF s f(2,3)] by blast
  note e = erase_view [OF u(2)]
  let ?w = "u\<lparr>keyBuffer := (keyBuffer s)[nat (keyBufferIndex s) := ?v], keyBufferIndex := keyBufferIndex s + 1\<rparr>"
  have "kb_inv (u\<lparr>keyBuffer := (keyBuffer u)[nat (keyBufferIndex s) := ?v]\<rparr>)"
    using u(3) by (simp add: kb_inv_def)
  then have w': "kb_inv ?w" using e by simp
  have "key_type ?v s = Inr ?w"
    using u(1) e i w by (auto simp: key_type_def key_wrap_def kb_write_def)
  moreover have "key_finish ?w = Inr (?w\<lparr>io_hist := io_hist ?w @ cursor_outs ?w\<rparr>)"
    using i kb_update_cursor [OF w'] by (simp add: key_finish_def)
  ultimately have "key_press (uint k) s = Inr (?w\<lparr>io_hist := io_hist ?w @ cursor_outs ?w\<rparr>)"
    using f(1) i v ctrl by (simp add: key_press_def key_char_def Let_def)
  moreover have "typable ?w" using w' s e by (simp add: typable_def)
  ultimately show ?thesis using e p by (simp add: typed_def)
qed

lemma handler_typed:
  assumes s: "typable s" and v: "key_char (mode s) k \<noteq> 0"
    and dev: "dev (io_hist s @ [Out 0x64 1]) 0x60 = k"
    and i: "0 \<le> keyBufferIndex s" "keyBufferIndex s < 126"
    and w: "keyBufferIndex s = 0 \<or> keyBufferIndex s smod 73 \<noteq> 0"
  shows "\<exists>t. keyboard_inter_handler dev s = Inr t \<and> typed (key_char (mode s) k) s t"
proof -
  let ?s = "s\<lparr>io_hist := io_hist s @ [Out 0x64 1, In 0x60]\<rparr>"
  have m: "0 \<le> mode s" "mode s < 4" using s by (auto simp: typable_def kb_inv_def)
  note f = key_char_facts [OF m v]
  have "key_switch (uint k) ?s = Inr ?s" using f(1,4) by (auto simp: key_switch_def)
  moreover obtain t where "key_press (uint k) ?s = Inr t" and t: "typed (key_char (mode s) k) ?s t"
    using key_press_typed [of ?s k] s v i w by auto
  moreover obtain h where "send_eoi 1 t = t\<lparr>io_hist := h\<rparr>" using send_eoi_1 by blast
  ultimately have "keyboard_inter_handler dev s = Inr (t\<lparr>io_hist := h\<rparr>)"
    using dev by (simp add: keyboard_inter_handler_def outb_def inb_def)
  moreover have "typed (key_char (mode s) k) s (t\<lparr>io_hist := h\<rparr>)"
    using t by (simp add: typed_def cursor_cell_def)
  ultimately show ?thesis by blast
qed

text \<open>A run of printable keys, one interrupt each.\<close>

definition type_keys :: "u8 list \<Rightarrow> 'a terms_scheme \<Rightarrow> 'a terms_scheme res" where
  "type_keys ks s = fold_res (\<lambda>k. keyboard_inter_handler (\<lambda>_ _. k)) ks s"

lemma type_keys_typed:
  assumes "typable s" and "keyBufferIndex s = int n" and "n + length ks \<le> 73"
    and "\<forall>k \<in> set ks. key_char (mode s) k \<noteq> 0"
  shows "\<exists>t. type_keys ks s = Inr t \<and> typable t \<and> mode t = mode s \<and> curr_terminal t = curr_terminal s
     \<and> keyBufferIndex t = int (n + length ks) \<and> length (keyBuffer t) = length (keyBuffer s)
     \<and> take (n + length ks) (keyBuffer t) = take n (keyBuffer s) @ map (key_char (mode s)) ks
     \<and> drop (n + length ks) (keyBuffer t) = drop (n + length ks) (keyBuffer s)"
  using assms
proof (induction ks arbitrary: s n)
  case Nil
  then show ?case by (simp add: type_keys_def)
next
  case (Cons k ks)
  let ?v = "key_char (mode s) k"
  have n: "n < 73" and len: "length (keyBuffer s) = 127"
    using Cons.prems by (auto simp: typable_def kb_inv_def terms_ok_def)
  have "keyBufferIndex s = 0 \<or> keyBufferIndex s smod 73 \<noteq> 0"
    using Cons.prems(2) n by (auto simp: smod_nonneg)
  then obtain u where u: "keyboard_inter_handler (\<lambda>_ _. k) s = Inr u" and t: "typed ?v s u"
    using handler_typed [of s k "\<lambda>_ _. k"] Cons.prems n by auto
  have "\<exists>t. type_keys ks u = Inr t \<and> typable t \<and> mode t = mode u \<and> curr_terminal t = curr_terminal u
     \<and> keyBufferIndex t = int (Suc n + length ks) \<and> length (keyBuffer t) = length (keyBuffer u)
     \<and> take (Suc n + length ks) (keyBuffer t) = take (Suc n) (keyBuffer u) @ map (key_char (mode u)) ks
     \<and> drop (Suc n + length ks) (keyBuffer t) = drop (Suc n + length ks) (keyBuffer u)"
    using Cons.prems t by (intro Cons.IH) (auto simp: typed_def)
  moreover have "take (Suc n) (keyBuffer u) = take n (keyBuffer s) @ [?v]"
    "drop (Suc n + length ks) (keyBuffer u) = drop (Suc n + length ks) (keyBuffer s)"
    "length (keyBuffer u) = length (keyBuffer s)"
    using t n len Cons.prems(2) by (auto simp: typed_def take_Suc_conv_app_nth)
  ultimately show ?case using u t by (auto simp: type_keys_def typed_def)
qed

section \<open>Properties\<close>

text \<open>
  C22. Whatever key arrives, if the keyboard handler returns then the invariant of the
  terminals still holds (page tables, cursors, one visible terminal, buffer lengths) and the
  key mode is one of the four rows of the table.
\<close>

theorem keyboard_handler_invariant:
  assumes "terms_ok s" and "0 \<le> mode s" and "mode s < 4" and "keyboard_inter_handler dev s = Inr t"
  shows "terms_ok t \<and> 0 \<le> mode t \<and> mode t < 4"
  using postD [OF keyboard_handler_post assms(4)] assms(1-3) by (simp add: kb_inv_def)

lemma kb_boot:
  "kb_inv (init_terminal (paging_initialize terms_boot))"
  "mode (init_terminal (paging_initialize terms_boot)) = 0"
  "keyBufferIndex (init_terminal (paging_initialize terms_boot)) = 0"
  "ctrlPressed (init_terminal (paging_initialize terms_boot)) = 0"
  "user_term (init_terminal (paging_initialize terms_boot)) = 0"
proof -
  have len: "length (term_arr (paging_initialize terms_boot)) = 3"
    by (simp add: paging_initialize_eq terms_boot_def)
  show "mode (init_terminal (paging_initialize terms_boot)) = 0"
    "keyBufferIndex (init_terminal (paging_initialize terms_boot)) = 0"
    "ctrlPressed (init_terminal (paging_initialize terms_boot)) = 0"
    "user_term (init_terminal (paging_initialize terms_boot)) = 0"
    unfolding init_terminal_fields [OF len] by (simp_all add: paging_initialize_eq terms_boot_def)
  then show "kb_inv (init_terminal (paging_initialize terms_boot))"
    using terms_ok_init [OF pre_init_boot] by (simp add: kb_inv_def)
qed

theorem keyboard_handler_invariant_witness:
  "\<exists>t. keyboard_inter_handler (\<lambda>_ _. 0x2A) (init_terminal (paging_initialize terms_boot)) = Inr t
     \<and> terms_ok t \<and> mode t < 4"
proof -
  let ?s = "init_terminal (paging_initialize terms_boot)"
  have "\<exists>t. keyboard_inter_handler (\<lambda>_ _. 0x2A) ?s = Inr t"
    using kb_boot
    by (simp add: keyboard_inter_handler_def inb_def outb_def key_switch_def key_press_def keys_map_def)
  then obtain t where "keyboard_inter_handler (\<lambda>_ _. 0x2A) ?s = Inr t" ..
  with keyboard_handler_invariant [OF _ _ _ this] kb_boot show ?thesis by (auto simp: kb_inv_def)
qed

text \<open>
  C20. Typed text reaches the line buffer: from an empty buffer, with the window of the
  displayed terminal mapped and no control key held, a run of at most 73 printable keys is
  handled without a fault; the buffer then starts with exactly the characters that the
  keyboard table gives for them in the current mode, in order, its index is their number
  and the rest of the buffer is as before.
\<close>

theorem typed_text_reaches_buffer:
  assumes "typable s" and "keyBufferIndex s = 0" and "length ks \<le> 73"
    and "\<forall>k \<in> set ks. key_char (mode s) k \<noteq> 0"
  shows "\<exists>t. fold_res (\<lambda>k. keyboard_inter_handler (\<lambda>_ _. k)) ks s = Inr t
     \<and> keyBufferIndex t = int (length ks)
     \<and> take (length ks) (keyBuffer t) = map (key_char (mode s)) ks
     \<and> drop (length ks) (keyBuffer t) = drop (length ks) (keyBuffer s) \<and> terms_ok t"
proof -
  obtain t where "type_keys ks s = Inr t" and "typable t" and "keyBufferIndex t = int (length ks)"
    and "take (length ks) (keyBuffer t) = map (key_char (mode s)) ks"
    and "drop (length ks) (keyBuffer t) = drop (length ks) (keyBuffer s)"
    using type_keys_typed [of s 0 ks] assms by auto
  then show ?thesis by (auto simp: type_keys_def typable_def kb_inv_def)
qed

text \<open>The boot state once the scheduler has mapped the window of terminal 0.\<close>

definition kb_example :: terms where
  "kb_example = scheduler_remap_video 0 (init_terminal (paging_initialize terms_boot))"

lemma kb_example_facts:
  "typable kb_example" "keyBufferIndex kb_example = 0" "mode kb_example = 0"
proof -
  let ?s = "init_terminal (paging_initialize terms_boot)"
  have b: "base_ok ?s" and kb: "kb_inv ?s" "user_term ?s = 0" and len: "length (page_table ?s) = 1024"
    using kb_boot by (auto simp: kb_inv_def terms_ok_def base_ok_def tables_ok_def)
  have fields: "mode kb_example = mode ?s" "keyBufferIndex kb_example = keyBufferIndex ?s"
    "ctrlPressed kb_example = ctrlPressed ?s" "curr_terminal kb_example = curr_terminal ?s"
    by (simp_all add: kb_example_def scheduler_remap_video_def Let_def upd_table_def upd_vmem_def)
  have "terms_ok kb_example"
    unfolding kb_example_def using kb by (intro terms_ok_scheduler_remap) (simp add: kb_inv_def)
  moreover have "page_table kb_example ! 0xB9 = map_frame 0xB8 (page_table ?s ! 0xB9)"
    unfolding kb_example_def using scheduler_remap_table(1) [OF b, of 0] kb len by simp
  ultimately show "typable kb_example"
    using fields kb_boot by (simp add: typable_def kb_inv_def map_frame_maps)
  show "keyBufferIndex kb_example = 0" "mode kb_example = 0" using fields kb_boot by simp_all
qed

theorem typed_text_reaches_buffer_witness:
  "\<exists>t. fold_res (\<lambda>k. keyboard_inter_handler (\<lambda>_ _. k)) [0x26, 0x1F] kb_example = Inr t
     \<and> take 2 (keyBuffer t) = [0x6C, 0x73]"
proof -
  have c: "key_char 0 0x26 = 0x6C" "key_char 0 0x1F = 0x73" by (simp_all add: key_char_def keys_map_def)
  have "\<forall>k \<in> set [0x26, 0x1F]. key_char (mode kb_example) k \<noteq> 0"
    using c kb_example_facts(3) by simp
  from typed_text_reaches_buffer [OF kb_example_facts(1,2) _ this] show ?thesis
    using c kb_example_facts(3) by (auto simp: numeral_2_eq_2)
qed

text \<open>
  After a sequence of scan codes: whether the last event of a shift key was a press, which shift
  keys are held down (by their make codes, \<open>0x2A\<close> left and \<open>0x36\<close> right), and toggled caps lock.
\<close>

definition shift_after :: "bool \<Rightarrow> u8 list \<Rightarrow> bool" where
  "shift_after b ks = fold (\<lambda>k b. if k \<in> {0x2A, 0x36} then True else if k \<in> {0xAA, 0xB6} then False else b) ks b"

definition shift_held :: "u8 set \<Rightarrow> u8 list \<Rightarrow> u8 set" where
  "shift_held H ks = fold (\<lambda>k H. if k \<in> {0x2A, 0x36} then insert k H
     else if k = 0xAA then H - {0x2A} else if k = 0xB6 then H - {0x36} else H) ks H"

definition caps_after :: "bool \<Rightarrow> u8 list \<Rightarrow> bool" where
  "caps_after b ks = fold (\<lambda>k b. if k = 0x3A then \<not> b else b) ks b"

definition mode_of :: "bool \<Rightarrow> bool \<Rightarrow> int" where
  "mode_of sh ca = (if sh then 2 else 0) + (if ca then 1 else 0)"

lemma mode_step_of:
  "mode_step (uint k) (mode_of sh ca) = mode_of (shift_after sh [k]) (caps_after ca [k])"
proof -
  have "uint k = 0x2A \<longleftrightarrow> k = 0x2A" "uint k = 0x36 \<longleftrightarrow> k = 0x36" "uint k = 0xAA \<longleftrightarrow> k = 0xAA"
    "uint k = 0xB6 \<longleftrightarrow> k = 0xB6" "uint k = 0x3A \<longleftrightarrow> k = 0x3A"
    by (auto simp: word_uint_eq_iff)
  then show ?thesis
    by (cases sh; cases ca) (auto simp: mode_step_def mode_of_def shift_after_def caps_after_def)
qed

lemma mode_run:
  "kb_at (mode_of sh ca) e s \<Longrightarrow> fold_res (\<lambda>k. keyboard_inter_handler (\<lambda>_ _. k)) ks s = Inr t \<Longrightarrow>
     kb_at (mode_of (shift_after sh ks) (caps_after ca ks)) e t"
proof (induction ks arbitrary: s sh ca)
  case Nil
  then show ?case by (simp add: shift_after_def caps_after_def)
next
  case (Cons k ks)
  from Cons.prems(2) obtain u where "keyboard_inter_handler (\<lambda>_ _. k) s = Inr u"
    and u: "fold_res (\<lambda>k. keyboard_inter_handler (\<lambda>_ _. k)) ks u = Inr t"
    by (auto simp: and_then_Inr_iff)
  with handler_mode_post [OF Cons.prems(1), of "\<lambda>_ _. k"]
  have "kb_at (mode_of (shift_after sh [k]) (caps_after ca [k])) e u"
    by (auto simp: mode_step_of dest: postD)
  from Cons.IH [OF this u] show ?case by (simp add: shift_after_def caps_after_def)
qed

lemma shift_after_held: "(sh \<Longrightarrow> H \<noteq> {}) \<Longrightarrow> shift_after sh ks \<Longrightarrow> shift_held H ks \<noteq> {}"
proof (induction ks arbitrary: sh H)
  case Nil
  then show ?case by (simp add: shift_after_def shift_held_def)
next
  case (Cons k ks)
  let ?sh = "if k \<in> {0x2A, 0x36} then True else if k \<in> {0xAA, 0xB6} then False else sh"
  let ?H = "if k \<in> {0x2A, 0x36} then insert k H
     else if k = 0xAA then H - {0x2A} else if k = 0xB6 then H - {0x36} else H"
  have "shift_held ?H ks \<noteq> {}"
    using Cons.prems by (intro Cons.IH [of ?sh]) (auto simp: shift_after_def split: if_splits)
  then show ?case unfolding shift_held_def fold_simps .
qed



lemma kb_clear_fold:
  "fold_res (\<lambda>k. kb_write (int k) 0) ks s =
     (if \<forall>k \<in> set ks. k < 127
      then Inr (s\<lparr>keyBuffer := fold (\<lambda>k b. b[k := 0]) ks (keyBuffer s)\<rparr>) else Inl OutOfBounds)"
  by (induction ks arbitrary: s) (auto simp: kb_write_def check_def)

text \<open>
  C31. Control-L always leaves the line buffer: \<open>key_press\<close> clears 128 elements of the
  127-element array, so once \<open>reset\<close> has cleared the screen the key is an out-of-bounds
  write, whatever is in the buffer.
\<close>

theorem control_l_overruns_buffer:
  fixes k :: u8
  assumes "ctrlPressed s = 1" and "keyBufferIndex s < 126" and "uint k < 59"
    and "keys_map ! nat (mode s) ! nat (uint k) \<in> {0x6C, 0x4C}" and "reset s = Inr u"
  shows "key_press (uint k) s = Inl OutOfBounds"
proof -
  have "fold_res (\<lambda>k. kb_write (int k) 0) [0..<128] u = Inl OutOfBounds"
    unfolding kb_clear_fold by (simp only: set_upt atLeastLessThan_iff) (force split: if_splits)
  then show ?thesis
    using assms by (auto simp: key_press_def Let_def simp del: upt_rec_numeral)
qed

theorem control_l_overruns_buffer_witness:
  "key_press 0x26 (kb_example\<lparr>ctrlPressed := 1\<rparr>) = Inl OutOfBounds"
proof -
  let ?s = "kb_example\<lparr>ctrlPressed := 1\<rparr>"
  have "terms_ok ?s" using kb_example_facts by (simp add: typable_def kb_inv_def)
  then have b: "base_ok ?s" and c: "cursor_ok ?s" by (simp_all add: terms_ok_def)
  have "length (term_arr (paging_initialize terms_boot)) = 3"
    by (simp add: paging_initialize_eq terms_boot_def)
  note init = init_terminal_fields [OF this]
  have v: "video_mem ?s = 0xB8000"
    unfolding kb_example_def init
    by (simp add: scheduler_remap_video_def upd_table_def upd_vmem_def Let_def paging_initialize_eq terms_boot_def)
  have "\<forall>d. 0 \<le> d \<and> d < 4096 \<longrightarrow> xlate ?s (video_mem ?s + d) = Some (0xB8000 + d)"
    unfolding v using xlate_video [OF b] by simp
  then obtain u where "reset ?s = Inr u" using reset_total [OF c] by blast
  from control_l_overruns_buffer [OF _ _ _ _ this, of "0x26"] kb_example_facts show ?thesis
    by (simp add: keys_map_def)
qed

text \<open>
  C32. Two backspaces after an unread line leave the buffer at the low end: when the index is
  1 and the newline of the line is still at that place, the handler's backspace decrements
  the index twice, to \<open>-1\<close>; the next printable key is then an out-of-bounds write, unless
  the terminal cannot be drawn on at all.
\<close>

theorem backspace_underflows_index:
  assumes "keyBufferIndex s = 1" and "keyBuffer s ! 1 = 0x0A" and "key_backspace s = Inr t" and "terms_ok s"
  shows "keyBufferIndex t = -1 \<and> (\<forall>v u. key_type v t \<noteq> Inr u)"
proof -
  let ?s = "s\<lparr>keyBuffer := (keyBuffer s)[1 := 0], keyBufferIndex := 0\<rparr>"
  obtain u w where u: "backspace ?s = Inr u" and w: "kb_write (keyBufferIndex u) 0 u = Inr w"
    and t: "update_cursor (w\<lparr>keyBufferIndex := keyBufferIndex w - 1\<rparr>) = Inr t"
    using assms(1-3) by (auto simp: key_backspace_def kb_read_def kb_write_def and_then_Inr_iff)
  have "terms_ok ?s" using assms(4) by simp
  from terms_ok_step(2) [OF this step_backspace [OF u]] have "keyBufferIndex u = 0"
    using erase_view(7) by force
  then have "keyBufferIndex w = 0" using w by (auto simp: kb_write_def)
  then have t1: "keyBufferIndex t = -1"
    using arg_cong [OF update_cursor_eq [OF t], of keyBufferIndex] by simp
  have "terms_ok t"
    using postD [OF key_backspace_post assms(3), of "mode s" "terms.more s"] assms(4) by (simp add: kb_at_def)
  have "key_type v t \<noteq> Inr u'" for v u'
  proof
    assume "key_type v t = Inr u'"
    then obtain x y where x: "putc_user v t = Inr x" and y: "kb_write (keyBufferIndex x) v x = Inr y"
      using t1 by (auto simp: key_type_def key_wrap_def and_then_Inr_iff signed_modulo_int_def)
    have "keyBufferIndex x = -1"
      using erase_view(7) [OF terms_ok_step(2) [OF \<open>terms_ok t\<close> step_putc_user [OF x]]] t1 by simp
    with y show False by (simp add: kb_write_def)
  qed
  with t1 show ?thesis by blast
qed

lemma xlate_kb_fields [simp]: "xlate (s\<lparr>keyBuffer := b\<rparr>) = xlate s" "xlate (s\<lparr>keyBufferIndex := i\<rparr>) = xlate s"
  by (auto simp: fun_eq_iff xlate_def walk_def table_at_def Let_def split: option.splits)

lemma backspace_total:
  assumes "typable s" and "cursor_cell s \<noteq> 0xB8000"
  shows "\<exists>t. backspace s = Inr t"
proof -
  let ?t = "term_arr s ! user_term s"
  have c: "cursor_ok s" and u: "user_term s < 3"
    using assms(1) by (auto simp: typable_def kb_inv_def terms_ok_def cursor_ok_def)
  note xy = cursor_ok_nth [OF c u] and w = typable_window [OF assms(1)]
  have nn: "0 \<le> 2 * (80 * b + a - 1)" if "0 \<le> a" "0 \<le> b" "2 * (80 * b + a) \<noteq> 0" for a b :: int
    using that by presburger
  have "0 \<le> 2 * (80 * uint (t_screen_y ?t) + uint (t_screen_x ?t) - 1)"
    using assms(2) by (intro nn) (auto simp: cursor_cell_def cell_addr_def)
  moreover have "2 * (80 * uint (t_screen_y ?t) + uint (t_screen_x ?t) - 1) < 4096" using xy by simp
  ultimately have "\<exists>p. xlate s (uint (vid_mem_addr ?t)
      + 2 * (80 * uint (t_screen_y ?t) + uint (t_screen_x ?t) - 1)) = Some p"
    using w unfolding window_def by blast
  then show ?thesis
    using c u by (auto simp: backspace_def load_cursor_total load_video_mem_def vwrite_def Let_def cursor_ok_def)
qed

text \<open>One character typed at the start of the line, and the newline of an unread line.\<close>

definition unread_example :: terms where
  "unread_example = (upd_term 0 (\<lambda>t. t\<lparr>t_screen_x := 1\<rparr>) kb_example)
     \<lparr>keyBuffer := (keyBuffer kb_example)[1 := 0x0A], keyBufferIndex := 1\<rparr>"

lemma unread_example_facts:
  "terms_ok unread_example" "typable unread_example" "cursor_cell unread_example \<noteq> 0xB8000"
  "keyBuffer unread_example ! 1 = 0x0A"
proof -
  let ?s = "upd_term 0 (\<lambda>t. t\<lparr>t_screen_x := 1\<rparr>) kb_example"
  have k: "terms_ok kb_example" and len: "length (keyBuffer kb_example) = 127" "length (term_arr kb_example) = 3"
    using kb_example_facts by (auto simp: typable_def kb_inv_def terms_ok_def base_ok_def)
  have "scr_inv (erase kb_example) ?s"
    using k by (intro scr_inv_upd_term) (auto simp: scr_inv_def terms_ok_def erase_term_def)
  then have "terms_ok ?s" by (rule terms_ok_scr [OF k])
  then show ok: "terms_ok unread_example"
    unfolding unread_example_def using terms_ok_kb_fields(5) [of ?s 1 "0x0A"] by simp
  have u: "user_term kb_example = 0"
  proof -
    have "curr_terminal kb_example = curr_terminal (init_terminal (paging_initialize terms_boot))"
      by (simp add: kb_example_def scheduler_remap_video_def Let_def upd_table_def upd_vmem_def)
    then show ?thesis using kb_boot(5) by simp
  qed
  show "typable unread_example"
    using ok kb_example_facts by (simp add: typable_def kb_inv_def unread_example_def upd_term_def)
  show "cursor_cell unread_example \<noteq> 0xB8000"
  proof -
    have "2 + 160 * y \<noteq> 0" if "0 \<le> y" for y :: int using that by simp
    from this [OF uint_ge_0, of "t_screen_y (term_arr kb_example ! 0)"] show ?thesis
      using u len by (simp add: cursor_cell_def unread_example_def cell_addr_def)
  qed
  show "keyBuffer unread_example ! 1 = 0x0A" using len by (simp add: unread_example_def)
qed

theorem backspace_underflows_index_witness:
  "\<exists>t. key_backspace unread_example = Inr t \<and> keyBufferIndex t = -1"
proof -
  let ?s = "unread_example\<lparr>keyBuffer := (keyBuffer unread_example)[1 := 0], keyBufferIndex := 0\<rparr>"
  note f = unread_example_facts
  have i: "keyBufferIndex unread_example = 1" by (simp add: unread_example_def)
  have ty: "typable ?s" using f(1,2) by (simp add: typable_def kb_inv_def)
  moreover have "cursor_cell ?s \<noteq> 0xB8000" using f(3) by (simp add: cursor_cell_def)
  ultimately obtain u where u: "backspace ?s = Inr u" using backspace_total by blast
  have kb: "kb_inv ?s" using ty by (simp add: typable_def)
  have "keyBufferIndex u = 0"
    using erase_view(7) [OF terms_ok_step(2) [OF _ step_backspace [OF u]]] kb by (simp add: kb_inv_def)
  moreover have "kb_inv u" using kb_inv_step [OF kb step_backspace [OF u]] .
  then have "kb_inv (u\<lparr>keyBuffer := (keyBuffer u)[0 := 0], keyBufferIndex := -1\<rparr>)"
    by (simp add: kb_inv_def)
  note kb_update_cursor [OF this]
  ultimately have "\<exists>t. key_backspace unread_example = Inr t"
    using u i f(4) by (simp add: key_backspace_def kb_read_def kb_write_def)
  with backspace_underflows_index [OF i f(4) _ f(1)] show ?thesis by blast
qed

end
