(* ===== verification/Terminal.thy ===== *)
theory Terminal
  imports Keyboard
begin

text \<open>
  The terminal driver, \<^verbatim>\<open>mp3/student-distrib/terminal.c\<close>: \<open>terminal_read\<close>, \<open>terminal_write\<close>,
  \<open>terminal_open\<close> and \<open>terminal_close\<close>. User buffers are read and written through the page
  tables. \<open>terminal_read\<close> waits with interrupts enabled: the list \<open>ints\<close> is what the
  interrupt handlers do to the state between two tests of the loop, and \<open>None\<close> means that the
  loop is still spinning when the list ends.

  The lemmas show that a write keeps the terminals well formed and never touches the display
  when its process is hidden, and that a typed line is what a read returns.
\<close>

section \<open>The operations\<close>

abbreviation "upd_proc f s \<equiv> upd_term (proc_term s) f s"

definition read_ready :: "'a terms_scheme \<Rightarrow> bool" where
  "read_ready s \<longleftrightarrow> enterFlag (term_arr s ! user_term s) \<noteq> 0 \<and> keyBuffer s ! 0 \<noteq> 0
     \<and> visible (term_arr s ! proc_term s) = 1"

fun read_wait :: "('a terms_scheme \<Rightarrow> 'a terms_scheme) list \<Rightarrow> 'a terms_scheme \<Rightarrow> 'a terms_scheme option" where
  "read_wait [] s = (if read_ready s then Some s else None)"
| "read_wait (f # fs) s = (if read_ready s then Some s else read_wait fs (f s))"

text \<open>The loop that copies the line: \<open>i\<close> runs while it is below \<open>nbytes\<close> or below 127.\<close>

definition read_char :: "addr \<Rightarrow> nat \<Rightarrow> int \<times> 'a terms_scheme \<Rightarrow> (int \<times> 'a terms_scheme) res" where
  "read_char buf i cs =
     (let (count, s) = cs
      in and_then (kb_read (int i) s) (\<lambda>b.
         if b \<noteq> 0 \<and> b \<noteq> 0x0A
         then and_then (vwrite (buf + int i) b s) (\<lambda>s. Inr (count + 1, s))
         else Inr cs))"

definition read_clear :: "nat \<Rightarrow> 'a terms_scheme \<Rightarrow> 'a terms_scheme res" where
  "read_clear i s = and_then (kb_write (int i) 0 s) (\<lambda>s. Inr (s\<lparr>keyBufferIndex := 0\<rparr>))"

definition terminal_read ::
  "('a terms_scheme \<Rightarrow> 'a terms_scheme) list \<Rightarrow> addr \<Rightarrow> u32 \<Rightarrow> 'a terms_scheme \<Rightarrow>
     (int \<times> 'a terms_scheme) res option" where
  "terminal_read ints buf nbytes s =
     (case read_wait ints (sti s) of
        None \<Rightarrow> None
      | Some s \<Rightarrow> Some (
          and_then (fold_res (read_char buf) [0..<max (unat nbytes) 127] (0, cli s)) (\<lambda>(count, s).
          and_then (fold_res read_clear [0..<127] s) (\<lambda>s.
          let s = sti s
          in Inr (count, upd_proc (\<lambda>t. t\<lparr>t_screen_x := word_of_int (get_screen_x s),
                                          t_screen_y := word_of_int (get_screen_y s)\<rparr>) s)))))"

text \<open>One byte of a write. The counter is an \<open>int8_t\<close>.\<close>

definition write_newline :: "u8 \<Rightarrow> 'a terms_scheme \<Rightarrow> 'a terms_scheme res" where
  "write_newline b s =
     (if b = 0x0A \<and> visible (term_arr s ! proc_term s) = 1
      then and_then (newline_check_user s) (\<lambda>s.
           and_then (vert_scroll_user s) (\<lambda>s.
           Inr (upd_term (user_term s) (\<lambda>t. t\<lparr>newline_tracker := 0\<rparr>) s)))
      else if b = 0x0A
      then and_then (newline_check s) (\<lambda>s.
           and_then (vert_scroll s) (\<lambda>s.
           Inr (upd_proc (\<lambda>t. t\<lparr>newline_tracker := 0\<rparr>) s)))
      else Inr s)"

definition write_wrap :: "'a terms_scheme \<Rightarrow> 'a terms_scheme res" where
  "write_wrap s =
     (if sint (newline_tracker (term_arr s ! proc_term s)) \<ge> 80
      then if visible (term_arr s ! proc_term s) = 0
           then and_then (enter s) (\<lambda>s.
                and_then (vert_scroll s) (\<lambda>s.
                Inr (upd_proc (\<lambda>t. t\<lparr>newline_tracker := 0\<rparr>) s)))
           else and_then (enter_user s) (\<lambda>s.
                and_then (vert_scroll_user s) (\<lambda>s.
                Inr (upd_term (user_term s) (\<lambda>t. t\<lparr>newline_tracker := 0\<rparr>) s)))
      else Inr s)"

definition write_byte :: "u8 \<Rightarrow> 'a terms_scheme \<Rightarrow> 'a terms_scheme res" where
  "write_byte b s =
     and_then (write_newline b s) (\<lambda>s.
     and_then (if visible (term_arr s ! proc_term s) = 0 then putc b s else putc_user b s) (\<lambda>s.
     and_then (update_cursor s) (\<lambda>s.
     write_wrap (upd_proc (\<lambda>t. t\<lparr>newline_tracker := newline_tracker t + 1\<rparr>) s))))"

definition write_char :: "addr \<Rightarrow> nat \<Rightarrow> u8 \<times> 'a terms_scheme \<Rightarrow> (u8 \<times> 'a terms_scheme) res" where
  "write_char buf i cs =
     (let (count, s) = cs
      in and_then (vread (buf + int i) s) (\<lambda>b.
         if b \<noteq> 0 then and_then (write_byte b s) (\<lambda>s. Inr (count + 1, s)) else Inr cs))"

definition terminal_write :: "addr \<Rightarrow> int \<Rightarrow> 'a terms_scheme \<Rightarrow> (int \<times> 'a terms_scheme) res" where
  "terminal_write buf nbytes s =
     and_then (check (proc_term s < length (term_arr s)) OutOfBounds (cli s)) (\<lambda>s.
     let s = set_screen_x (t_screen_x (term_arr s ! proc_term s)) s;
         s = set_screen_y (t_screen_y (term_arr s ! proc_term s)) s;
         s = upd_proc (\<lambda>t. t\<lparr>newline_tracker := 0, enterFlag := 0\<rparr>) s
     in and_then (fold_res (write_char buf) [0..<nat nbytes] (0, s)) (\<lambda>(count, s).
        let s = upd_proc (\<lambda>t. t\<lparr>t_screen_x := word_of_int (get_screen_x s),
                                  t_screen_y := word_of_int (get_screen_y s)\<rparr>) s
        in Inr (sint count, sti s)))"

definition terminal_open :: int where "terminal_open = 0"
definition terminal_close :: int where "terminal_close = 0"

section \<open>The invariant\<close>

lemma terms_ok_scr_self: "terms_ok s \<Longrightarrow> scr_inv (erase s) s"
  by (simp add: scr_inv_def terms_ok_def)

lemma terms_ok_upd_term:
  assumes "terms_ok s" and "\<And>t. erase_term (f t) = erase_term t"
    and "\<And>t. t_screen_x t < 80 \<Longrightarrow> t_screen_x (f t) < 80"
    and "\<And>t. t_screen_y t < 25 \<Longrightarrow> t_screen_y (f t) < 25"
  shows "terms_ok (upd_term i f s)" and "erase (upd_term i f s) = erase s"
  using scr_inv_upd_term [OF terms_ok_scr_self [OF assms(1)] assms(2-4)] terms_ok_scr [OF assms(1)]
  by (auto simp: scr_inv_def)

lemma terms_ok_flags [simp]:
  "terms_ok (upd_term i (\<lambda>t. t\<lparr>newline_tracker := n t\<rparr>) s) = terms_ok s" if "terms_ok s"
  using that by (simp add: terms_ok_upd_term erase_term_def)

lemma terms_ok_int_flag [simp]: "terms_ok (s\<lparr>int_flag := b\<rparr>) = terms_ok s"
  by (simp add: terms_ok_def base_ok_def cursor_ok_def)

text \<open>A process of a well-formed terminal set, between two bytes of its write.\<close>

definition write_inv :: "'a terms_scheme \<Rightarrow> 'a terms_scheme \<Rightarrow> bool" where
  "write_inv e s \<longleftrightarrow> terms_ok s \<and> erase s = e"

lemma write_inv_step: "write_inv e s \<Longrightarrow> screen_step s t \<Longrightarrow> write_inv e t"
  using terms_ok_step [of s t] by (auto simp: write_inv_def)

lemma write_inv_upd:
  "write_inv e s \<Longrightarrow> write_inv e (upd_term i (\<lambda>t. t\<lparr>newline_tracker := n t\<rparr>) s)"
  using terms_ok_upd_term [of s "\<lambda>t. t\<lparr>newline_tracker := n t\<rparr>" i] by (auto simp: write_inv_def erase_term_def)

lemma write_screen_posts:
  assumes "write_inv e s"
  shows "post (update_cursor s) (write_inv e)" "post (newline_check s) (write_inv e)"
    "post (newline_check_user s) (write_inv e)" "post (enter s) (write_inv e)"
    "post (enter_user s) (write_inv e)" "post (vert_scroll s) (write_inv e)"
    "post (vert_scroll_user s) (write_inv e)" "post (putc c s) (write_inv e)"
    "post (putc_user c s) (write_inv e)"
  using write_inv_step [OF assms] by (auto intro!: postI intro: screen_step.intros)

lemmas write_seq = post_seq [where Q = "write_inv e" for e]

lemma write_byte_post: "write_inv e s \<Longrightarrow> post (write_byte b s) (write_inv e)"
  by (auto simp: write_byte_def write_newline_def write_wrap_def
      intro!: write_seq write_screen_posts write_inv_upd)

interpretation write_char: keeps "\<lambda>cs. write_inv e (snd cs)" "write_char buf" for e :: "'a terms_scheme" and buf
proof
  fix cs ct :: "u8 \<times> 'a terms_scheme" and i
  assume s: "write_inv e (snd cs)" and "write_char buf i cs = Inr ct"
  then show "write_inv e (snd ct)"
    by (auto simp: write_char_def Let_def and_then_Inr_iff split_beta split: if_splits
        intro: postD [OF write_byte_post])
qed

text \<open>The start and the end of a write.\<close>

definition write_start :: "'a terms_scheme \<Rightarrow> 'a terms_scheme" where
  "write_start s = upd_proc (\<lambda>t. t\<lparr>newline_tracker := 0, enterFlag := 0\<rparr>)
     (set_screen_y (t_screen_y (term_arr s ! proc_term s))
       (set_screen_x (t_screen_x (term_arr s ! proc_term s)) (cli s)))"

definition write_end :: "'a terms_scheme \<Rightarrow> 'a terms_scheme" where
  "write_end s = sti (upd_proc (\<lambda>t. t\<lparr>t_screen_x := word_of_int (screen_x s),
                                       t_screen_y := word_of_int (screen_y s)\<rparr>) s)"

lemma terminal_write_eq:
  assumes "terms_ok s"
  shows "terminal_write buf n s = and_then (fold_res (write_char buf) [0..<nat n] (0, write_start s))
           (\<lambda>(count, s). Inr (sint count, write_end s))"
proof -
  have "proc_term s < length (term_arr s)" using assms by (simp add: terms_ok_def cursor_ok_def)
  then show ?thesis
    by (simp add: terminal_write_def write_start_def write_end_def Let_def cli_def set_screen_x_def
        set_screen_y_def get_screen_x_def get_screen_y_def)
qed

lemma write_inv_start:
  assumes "terms_ok s"
  shows "write_inv (erase (cli s)) (write_start s)"
proof -
  let ?u = "set_screen_y (t_screen_y (term_arr s ! proc_term s))
       (set_screen_x (t_screen_x (term_arr s ! proc_term s)) (cli s))"
  have c: "terms_ok (cli s)" using assms by (simp add: cli_def)
  have p: "proc_term s < 3" and cur: "cursor_ok s" using assms by (auto simp: terms_ok_def cursor_ok_def)
  have "scr_inv (erase (cli s)) ?u"
    unfolding set_screen_x_def set_screen_y_def
    using terms_ok_scr_self [OF c] cursor_ok_nth [OF cur p] by (intro scr_inv_xy) simp_all
  then have "terms_ok ?u" "erase ?u = erase (cli s)" using terms_ok_scr [OF c] by (auto simp: scr_inv_def)
  then show ?thesis
    unfolding write_start_def write_inv_def
    using terms_ok_upd_term [of ?u "\<lambda>t. t\<lparr>newline_tracker := 0, enterFlag := 0\<rparr>" "proc_term ?u"]
    by (simp add: erase_term_def)
qed

lemma terms_ok_write_end: "terms_ok s \<Longrightarrow> terms_ok (write_end s)"
proof -
  assume s: "terms_ok s"
  then have r: "0 \<le> screen_x s" "screen_x s < 80" "0 \<le> screen_y s" "screen_y s < 25"
    by (auto simp: terms_ok_def cursor_ok_def)
  show ?thesis
    unfolding write_end_def sti_def
    using s r by (simp, intro terms_ok_upd_term) (auto simp: erase_term_def intro!: u8_less)
qed

section \<open>What a write touches\<close>

lemma window_erase:
  fixes s t :: "'a terms_scheme"
  assumes "erase t = erase s" and "i < length (term_arr s)"
  shows "window t i base = window s i base"
  unfolding window_def erase_term_view(1) [OF assms] erase_view(11) [OF assms(1)] ..

text \<open>The terminal that a visible process writes to is its own.\<close>

lemma visible_is_user:
  assumes "terms_ok s"
  shows "visible (term_arr s ! proc_term s) = (if proc_term s = user_term s then 1 else 0)"
  using assms by (auto simp: terms_ok_def cursor_ok_def)

text \<open>A result that exists, keeps the invariant and stays in the page at \<open>base\<close>.\<close>

definition paged :: "addr \<Rightarrow> 'a terms_scheme \<Rightarrow> 'a terms_scheme \<Rightarrow> 'a terms_scheme res \<Rightarrow> bool" where
  "paged base e s r \<longleftrightarrow> (\<exists>t. r = Inr t \<and> write_inv e t \<and> outside_page base (phys s) (phys t))"

lemma paged_Inr: "write_inv e t \<Longrightarrow> outside_page base (phys s) (phys t) \<Longrightarrow> paged base e s (Inr t)"
  by (simp add: paged_def)

lemma paged_seq:
  assumes "paged base e s m" and "\<And>u. write_inv e u \<Longrightarrow> paged base e u (f u)"
  shows "paged base e s (and_then m f)"
proof -
  from assms(1) obtain u where u: "m = Inr u" "write_inv e u" "outside_page base (phys s) (phys u)"
    by (auto simp: paged_def)
  from assms(2) [OF u(2)] obtain t where "f u = Inr t" "write_inv e t" "outside_page base (phys u) (phys t)"
    by (auto simp: paged_def)
  with u show ?thesis by (auto simp: paged_def intro: outside_page_trans)
qed

lemma paged_ops:
  assumes s: "write_inv e s" and w: "window e (proc_term e) base"
  defines "p \<equiv> proc_term s"
  shows "paged base e s (newline_check_on p s)" "paged base e s (vert_scroll_on p s)"
    "paged base e s (putc_on p b s)" "paged base e s (enter_on p s)" "paged base e s (update_cursor s)"
proof -
  have ok: "terms_ok s" and er: "erase s = e" using s by (auto simp: write_inv_def)
  have c: "cursor_ok s" and p3: "p < 3" and len: "length (term_arr s) = 3"
    using ok by (auto simp: terms_ok_def cursor_ok_def p_def)
  have ee: "erase (erase s) = erase s" by (simp add: erase_def erase_term_def comp_def)
  have "proc_term e = p" using erase_view(3) [of e s] ee er by (simp add: p_def)
  then have ws: "window s p base" using w window_erase [of e s p base] ee er p3 len by simp
  have inv: "r = Inr t \<Longrightarrow> screen_step s t \<Longrightarrow> outside_page base (phys s) (phys t) \<Longrightarrow> paged base e s r" for r t
    using write_inv_step [OF s] by (simp add: paged_def)
  show "paged base e s (newline_check_on p s)"
    using newline_check_on_total [OF c p3]
    by (auto intro!: inv step_newline_check simp: newline_check_def p_def)
  show "paged base e s (vert_scroll_on p s)"
    using vert_scroll_on_page [OF c p3 ws]
    by (auto intro!: inv step_vert_scroll simp: vert_scroll_def p_def)
  show "paged base e s (putc_on p b s)"
    using putc_on_page [OF c p3 ws, of b] by (auto intro!: inv step_putc simp: putc_def p_def)
  show "paged base e s (enter_on p s)"
    using enter_on_total [OF c p3] by (auto intro!: inv step_enter simp: enter_def p_def)
  show "paged base e s (update_cursor s)"
    using update_cursor_total [OF c] by (auto intro!: inv intro: step_update_cursor)
qed

lemma write_inv_view:
  assumes "write_inv e u"
  shows "proc_term u = proc_term e" "user_term u = user_term e"
    "visible (term_arr u ! proc_term u) = (if proc_term e = user_term e then 1 else 0)"
proof -
  have ee: "erase (erase u) = erase u" by (simp add: erase_def erase_term_def comp_def)
  have er: "erase u = e" using assms by (simp add: write_inv_def)
  show p: "proc_term u = proc_term e" and q: "user_term u = user_term e"
    using erase_view(2,3) [of e u] ee er by simp_all
  show "visible (term_arr u ! proc_term u) = (if proc_term e = user_term e then 1 else 0)"
    using visible_is_user [of u] assms unfolding p q by (simp add: write_inv_def)
qed

lemma paged_upd:
  assumes "write_inv e s"
  shows "paged base e s (Inr (upd_term i (\<lambda>t. t\<lparr>newline_tracker := n t\<rparr>) s))"
    and "paged base e s (Inr (upd_term i (\<lambda>t. t\<lparr>enterFlag := 1\<rparr>) s))"
  using write_inv_upd [OF assms, of i n] assms
    terms_ok_upd_term [of s "\<lambda>t. t\<lparr>enterFlag := 1\<rparr>" i]
  by (auto simp: paged_def write_inv_def erase_term_def)

text \<open>Shown or hidden, each piece of a write acts on the terminal of the process.\<close>

lemma paged_named:
  assumes s: "write_inv e s" and w: "window e (proc_term e) base"
  shows "paged base e s (newline_check s)" "paged base e s (vert_scroll s)" "paged base e s (putc b s)"
    "paged base e s (enter s)"
  using paged_ops [OF s w] by (simp_all add: newline_check_def vert_scroll_def putc_def enter_def)

lemma paged_named_user:
  assumes s: "write_inv e s" and w: "window e (proc_term e) base" and u: "proc_term e = user_term e"
  shows "paged base e s (newline_check_user s)" "paged base e s (vert_scroll_user s)"
    "paged base e s (putc_user b s)" "paged base e s (enter_user s)"
proof -
  have "user_term s = proc_term s" using write_inv_view [OF s] u by simp
  then show "paged base e s (newline_check_user s)" "paged base e s (vert_scroll_user s)"
    "paged base e s (putc_user b s)" "paged base e s (enter_user s)"
    using paged_ops [OF s w]
    by (auto simp: newline_check_user_def vert_scroll_user_def putc_user_def enter_user_def
        intro!: paged_seq paged_upd)
qed

lemma paged_write_newline:
  assumes s: "write_inv e s" and w: "window e (proc_term e) base"
  shows "paged base e s (write_newline b s)"
  using paged_Inr [OF s] write_inv_view(3) [OF s] paged_named(1) [OF s w] paged_named_user(1) [OF s w]
  by (auto simp: write_newline_def intro!: paged_seq paged_named(2) [OF _ w] paged_named_user(2) [OF _ w] paged_upd
      split: if_splits)

lemma paged_write_wrap:
  assumes s: "write_inv e s" and w: "window e (proc_term e) base"
  shows "paged base e s (write_wrap s)"
  using paged_Inr [OF s] write_inv_view(3) [OF s] paged_named(4) [OF s w] paged_named_user(4) [OF s w]
  by (auto simp: write_wrap_def intro!: paged_seq paged_named(2) [OF _ w] paged_named_user(2) [OF _ w] paged_upd
      split: if_splits)

lemma paged_write_byte:
  assumes s: "write_inv e s" and w: "window e (proc_term e) base"
  shows "paged base e s (write_byte b s)"
proof -
  have put: "paged base e u (if visible (term_arr u ! proc_term u) = 0 then putc b u else putc_user b u)"
    if "write_inv e u" for u
    using write_inv_view(3) [OF that] paged_named(3) [OF that w] paged_named_user(3) [OF that w]
    by (simp split: if_splits)
  have "paged base e u (write_wrap (upd_proc (\<lambda>t. t\<lparr>newline_tracker := newline_tracker t + 1\<rparr>) u))"
    if "write_inv e u" for u
    using paged_write_wrap [OF write_inv_upd [OF that] w, of "proc_term u" "\<lambda>t. newline_tracker t + 1"]
    by (simp add: paged_def)
  then show ?thesis
    unfolding write_byte_def
    using paged_write_newline [OF s w] put paged_ops(5) [OF _ w] by (intro paged_seq) auto
qed

text \<open>The whole loop over a readable buffer outside the page that is drawn on.\<close>

lemma write_loop_paged:
  assumes w: "window e (proc_term e) base"
    and buf: "\<forall>i \<in> set is. xlate e (buf + int i) = Some (pb i) \<and> (pb i < base \<or> base + 4096 \<le> pb i)"
    and m: "\<forall>i \<in> set is. m (pb i) = phys s (pb i)" and s: "write_inv e s"
  shows "\<exists>t. fold_res (write_char buf) is (c, s) =
       Inr (c + of_nat (length (filter (\<lambda>i. m (pb i) \<noteq> 0) is)), t)
     \<and> write_inv e t \<and> outside_page base (phys s) (phys t)"
  using buf m s
proof (induction "is" arbitrary: c s)
  case Nil
  then show ?case by simp
next
  case (Cons i "is")
  have ee: "erase (erase s) = erase s" by (simp add: erase_def erase_term_def comp_def)
  have "xlate s = xlate e" using erase_view(11) [of e s] ee Cons.prems(3) by (simp add: write_inv_def)
  then have rd: "vread (buf + int i) s = Inr (m (pb i))" using Cons.prems by (simp add: vread_def)
  show ?case
  proof (cases "m (pb i) = 0")
    case True
    with rd have "write_char buf i (c, s) = Inr (c, s)" by (simp add: write_char_def)
    with Cons.IH [of s c] Cons.prems True show ?thesis by simp
  next
    case False
    obtain u where u: "write_byte (m (pb i)) s = Inr u" "write_inv e u" "outside_page base (phys s) (phys u)"
      using paged_write_byte [OF Cons.prems(3) w] by (auto simp: paged_def)
    have step: "write_char buf i (c, s) = Inr (c + 1, u)" using rd u(1) False by (simp add: write_char_def)
    have "\<forall>i \<in> set is. m (pb i) = phys u (pb i)"
      using Cons.prems u(3) by (auto simp: outside_page_def)
    from Cons.IH [OF _ this u(2), of "c + 1"] Cons.prems(1) obtain t where
      "fold_res (write_char buf) is (c + 1, u) =
         Inr (c + 1 + of_nat (length (filter (\<lambda>i. m (pb i) \<noteq> 0) is)), t)"
      "write_inv e t" "outside_page base (phys u) (phys t)" by auto
    with step False u(3) show ?thesis by (auto simp: ac_simps intro: outside_page_trans)
  qed
qed

section \<open>Reading a line\<close>

lemma kb_read_cli [simp]: "kb_read i (cli s) = kb_read i s"
  by (simp add: kb_read_def cli_def)

text \<open>The copy loop on a line of \<open>n\<close> printable bytes followed by bytes it skips.\<close>

lemma read_loop_copies:
  assumes x: "\<forall>i < n. xlate s (buf + int i) = Some (pb + int i)" and n: "n \<le> 127"
    and printable: "\<forall>i < n. keyBuffer s ! i \<noteq> 0 \<and> keyBuffer s ! i \<noteq> 0x0A"
  shows "fold_res (read_char buf) [0..<n] (0, s) =
     Inr (int n, s\<lparr>phys := mwrite (phys s) pb (map ((!) (keyBuffer s)) [0..<n])\<rparr>)"
  using assms
proof (induction n)
  case 0
  then show ?case by simp
next
  case (Suc n)
  let ?t = "s\<lparr>phys := mwrite (phys s) pb (map ((!) (keyBuffer s)) [0..<n])\<rparr>"
  have "fold_res (read_char buf) [0..<Suc n] (0, s) = read_char buf n (int n, ?t)"
    using Suc by (simp add: fold_res_append)
  also have "\<dots> = Inr (int n + 1, ?t\<lparr>phys := (phys ?t)(pb + int n := keyBuffer s ! n)\<rparr>)"
    using Suc.prems by (simp add: read_char_def kb_read_def vwrite_def del: fun_upd_apply)
  finally show ?case by (simp add: mwrite_append del: fun_upd_apply)
qed

lemma read_loop_skips:
  assumes "\<forall>i \<in> set is. i < 127 \<and> (keyBuffer s ! i = 0 \<or> keyBuffer s ! i = 0x0A)"
  shows "fold_res (read_char buf) is (c, s) = Inr (c, s)"
  using assms by (induction "is") (auto simp: read_char_def kb_read_def)

lemma read_clear_eq:
  "i < 127 \<Longrightarrow> read_clear i s = Inr (s\<lparr>keyBuffer := (keyBuffer s)[i := 0], keyBufferIndex := 0\<rparr>)"
  by (simp add: read_clear_def kb_write_def)

lemma read_clear_loop:
  "n < 127 \<Longrightarrow> fold_res read_clear [0..<Suc n] s =
     Inr (s\<lparr>keyBuffer := fold (\<lambda>i b. b[i := 0]) [0..<Suc n] (keyBuffer s), keyBufferIndex := 0\<rparr>)"
proof (induction n)
  case 0
  show ?case by (simp add: read_clear_eq)
next
  case (Suc n)
  then have "fold_res read_clear ([0..<Suc n] @ [Suc n]) s =
      read_clear (Suc n) (s\<lparr>keyBuffer := fold (\<lambda>i b. b[i := 0]) [0..<Suc n] (keyBuffer s), keyBufferIndex := 0\<rparr>)"
    unfolding fold_res_append by simp
  with Suc.prems show ?case by (simp add: read_clear_eq)
qed

lemma clear_all: "n \<le> length xs \<Longrightarrow> fold (\<lambda>i b. b[i := (0 :: u8)]) [0..<n] xs = replicate n 0 @ drop n xs"
proof (induction n)
  case 0
  then show ?case by simp
next
  case (Suc n)
  have "drop n xs = xs ! n # drop (Suc n) xs" using Suc.prems by (intro Cons_nth_drop_Suc [symmetric]) simp
  moreover have "replicate n 0 @ 0 # ys = (0 :: u8) # replicate n 0 @ ys" for ys by (induction n) auto
  ultimately show ?case using Suc by (simp add: list_update_append)
qed

section \<open>Properties\<close>

text \<open>
  C33. A write of a process never touches the display of another terminal: with the terminals
  well formed, the process's window mapped, and a readable buffer that is not in that
  window's frame, \<open>terminal_write\<close> returns; the result is the number of bytes that are not
  NUL, as an 8-bit signed counter; every byte of physical memory outside one frame is as
  before, the frame being video memory only if the process's terminal is the one on display;
  the terminals are well formed again and interrupts are enabled.
\<close>

theorem terminal_write_confined:
  assumes "terms_ok s" and "get_present (page_table s ! (0xB9 + proc_term s)) = 1"
    and "\<forall>i < nat n. xlate s (buf + int i) = Some (pb i)
           \<and> (pb i < 0xB8000 \<or> 0xBC000 \<le> pb i)"
  shows "\<exists>t. terminal_write buf n s =
       Inr (sint (of_nat (length (filter (\<lambda>i. phys s (pb i) \<noteq> 0) [0..<nat n])) :: u8), t)
     \<and> terms_ok t \<and> int_flag t
     \<and> (let base = if proc_term s = user_term s then 0xB8000 else 0xB9000 + int (proc_term s) * 0x1000
         in \<forall>a. a < base \<or> base + 4096 \<le> a \<longrightarrow> phys t a = phys s a)"
proof -
  let ?p = "proc_term s"
  define base where "base = (if ?p = user_term s then 0xB8000 else own_base ?p)"
  have p: "?p < 3" and b: "base_ok s" and len: "length (term_arr s) = 3"
    using assms(1) by (auto simp: terms_ok_def cursor_ok_def)
  have "maps (page_table s ! (0xB9 + ?p)) (if ?p = user_term s then 0xB8 else own_frame ?p)"
    using assms(1,2) p by (auto simp: terms_ok_def)
  from xlate_own [OF b p this] have "window s ?p base"
    using b p own_facts [OF p] by (auto simp: window_def base_ok_def base_def)
  moreover let ?e = "erase (cli s)" and ?s = "write_start s"
  have inv: "write_inv ?e ?s" by (rule write_inv_start [OF assms(1)])
  have view: "proc_term ?e = ?p" "term_arr ?e = map erase_term (term_arr s)" "xlate ?e = xlate s"
    by (simp_all add: erase_def cli_def)
  ultimately have w: "window ?e (proc_term ?e) base"
    using p len by (simp add: window_def erase_term_def)
  have base: "0xB8000 \<le> base" "base + 4096 \<le> 0xBC000"
    using less_3_cases [OF p] by (auto simp: base_def own_base_def simp del: of_nat_unat)
  have ph: "phys ?s = phys s" by (simp add: write_start_def set_screen_x_def set_screen_y_def)
  obtain t where t: "fold_res (write_char buf) [0..<nat n] (0, ?s) =
      Inr (of_nat (length (filter (\<lambda>i. phys s (pb i) \<noteq> 0) [0..<nat n])), t)"
    and t': "write_inv ?e t" "outside_page base (phys s) (phys t)"
    using write_loop_paged [OF w, of "[0..<nat n]" buf pb "phys s" ?s 0] assms(3) base inv
    by (fastforce simp: view ph)
  have "terms_ok (write_end t)" using t'(1) by (intro terms_ok_write_end) (simp add: write_inv_def)
  moreover have "int_flag (write_end t)" "phys (write_end t) = phys t" by (simp_all add: write_end_def)
  ultimately show ?thesis
    using t t'(2) unfolding terminal_write_eq [OF assms(1)] base_def
    by (auto simp: outside_page_def own_base_def Let_def)
qed

lemma kb_example_terms:
  "terms_ok kb_example" "proc_term kb_example = 0" "user_term kb_example = 0"
  "get_present (page_table kb_example ! 0xB9) = 1" "keyBuffer kb_example ! 0 = 0"
proof -
  let ?s = "init_terminal (paging_initialize terms_boot)"
  have len: "length (term_arr (paging_initialize terms_boot)) = 3"
    by (simp add: paging_initialize_eq terms_boot_def)
  have f: "curr_process kb_example = curr_process ?s" "curr_terminal kb_example = curr_terminal ?s"
    "keyBuffer kb_example = keyBuffer ?s"
    by (simp_all add: kb_example_def scheduler_remap_video_def Let_def upd_table_def upd_vmem_def)
  show "proc_term kb_example = 0" "user_term kb_example = 0" "keyBuffer kb_example ! 0 = 0"
    unfolding f init_terminal_fields [OF len] by (simp_all add: paging_initialize_eq terms_boot_def)
  then show "terms_ok kb_example" "get_present (page_table kb_example ! 0xB9) = 1"
    using kb_example_facts(1) by (auto simp: typable_def kb_inv_def maps_def)
qed

theorem terminal_write_confined_witness:
  "\<exists>t. terminal_write 0x500000 2 (kb_example\<lparr>phys := (\<lambda>_. 0)(0x500000 := 0x41)\<rparr>) = Inr (1, t) \<and> terms_ok t"
proof -
  let ?s = "kb_example\<lparr>phys := (\<lambda>_. 0)(0x500000 := 0x41)\<rparr>"
  have ok: "terms_ok ?s" using kb_example_terms by (simp add: terms_ok_def)
  have x: "\<forall>i < nat 2. xlate ?s (0x500000 + int i) = Some (0x500000 + int i)
      \<and> (0x500000 + int i < 0xB8000 \<or> 0xBC000 \<le> 0x500000 + int i)"
    using xlate_kernel [of kb_example] kb_example_terms by (auto simp: terms_ok_def base_ok_def)
  have "get_present (page_table ?s ! (0xB9 + proc_term ?s)) = 1" using kb_example_terms by simp
  moreover have "[0..<nat 2] = [0, 1]" by (simp add: upt_rec)
  ultimately show ?thesis using terminal_write_confined [OF ok _ x] by auto
qed

text \<open>
  The states at which \<open>terminal_read\<close> tests its condition: \<open>run_ints ints k s\<close> is \<open>s\<close> after the first
  \<open>k\<close> interrupts. In a state where Enter has not been pressed on the display, the key buffer is
  empty or the process's terminal is not on display, it has no line to read.
\<close>

definition run_ints :: "('s \<Rightarrow> 's) list \<Rightarrow> nat \<Rightarrow> 's \<Rightarrow> 's" where
  "run_ints ints k s = fold (\<lambda>f s. f s) (take k ints) s"

definition no_line :: "'a terms_scheme \<Rightarrow> bool" where
  "no_line s \<longleftrightarrow> enterFlag (term_arr s ! user_term s) = 0 \<or> keyBuffer s ! 0 = 0
     \<or> visible (term_arr s ! proc_term s) \<noteq> 1"

lemma read_wait_first:
  "k \<le> length ints \<Longrightarrow> \<forall>j < k. no_line (run_ints ints j s) \<Longrightarrow> \<not> no_line (run_ints ints k s) \<Longrightarrow>
     read_wait ints s = Some (run_ints ints k s)"
proof (induction ints arbitrary: s k)
  case Nil
  then show ?case by (simp add: run_ints_def no_line_def read_ready_def)
next
  case (Cons f fs)
  show ?case
  proof (cases k)
    case 0
    then show ?thesis using Cons.prems by (simp add: run_ints_def no_line_def read_ready_def)
  next
    case (Suc n)
    have "no_line s" using Cons.prems(2) Suc by (auto simp: run_ints_def dest: spec [of _ 0])
    moreover have "read_wait fs (f s) = Some (run_ints fs n (f s))"
      using Cons.prems Suc by (intro Cons.IH) (auto simp: run_ints_def dest: spec [of _ "Suc _"])
    ultimately show ?thesis using Suc by (auto simp: run_ints_def no_line_def read_ready_def)
  qed
qed

lemma read_wait_none:
  "\<forall>j \<le> length ints. no_line (run_ints ints j s) \<Longrightarrow> read_wait ints s = None"
proof (induction ints arbitrary: s)
  case Nil
  then show ?case by (simp add: run_ints_def no_line_def read_ready_def)
next
  case (Cons f fs)
  have "no_line s" using Cons.prems by (auto simp: run_ints_def dest: spec [of _ 0])
  moreover have "read_wait fs (f s) = None"
    using Cons.prems by (intro Cons.IH) (auto simp: run_ints_def dest: spec [of _ "Suc _"])
  ultimately show ?case by (simp add: no_line_def read_ready_def)
qed

lemma read_returns_line:
  assumes "terms_ok s" and "line \<noteq> []" and "take (length line) (keyBuffer s) = line" and "0 \<notin> set line"
    and "0x0A \<notin> set line" and "\<forall>b \<in> set (drop (length line) (keyBuffer s)). b = 0 \<or> b = 0x0A"
    and "unat nbytes \<le> 127" and "\<forall>i < length line. xlate s (buf + int i) = Some (pb + int i)"
    and wait: "read_wait ints s0 = Some s" and s0: "s0 = sti u"
  shows "\<exists>t. terminal_read ints buf nbytes u = Some (Inr (int (length line), t))
     \<and> phys t = mwrite (phys s) pb line \<and> keyBuffer t = replicate 127 0 \<and> keyBufferIndex t = 0 \<and> int_flag t"
proof -
  let ?n = "length line" and ?s = "cli s"
  have kb: "length (keyBuffer s) = 127" using assms(1) by (simp add: terms_ok_def)
  have len: "?n \<le> 127" using assms(3) kb by (metis length_take min.cobounded1)
  have nth: "keyBuffer s ! i = line ! i" if "i < ?n" for i
    using that assms(3) by (metis nth_take)
  have line: "map ((!) (keyBuffer s)) [0..<?n] = line" using nth by (intro nth_equalityI) auto
  have xs: "\<forall>i < ?n. xlate ?s (buf + int i) = Some (pb + int i)"
    using assms(8) by (simp add: cli_def)
  have prn: "\<forall>i < ?n. keyBuffer ?s ! i \<noteq> 0 \<and> keyBuffer ?s ! i \<noteq> 0x0A"
    using nth assms(4,5) by (auto simp: cli_def) (metis nth_mem)+
  let ?t = "?s\<lparr>phys := mwrite (phys ?s) pb (map ((!) (keyBuffer ?s)) [0..<?n])\<rparr>"
  have skip: "\<forall>i \<in> set [?n..<127]. i < 127 \<and> (keyBuffer ?t ! i = 0 \<or> keyBuffer ?t ! i = 0x0A)"
  proof
    fix i assume "i \<in> set [?n..<127]"
    then have i: "?n \<le> i" "i < 127" by simp_all
    then have "keyBuffer s ! i = drop ?n (keyBuffer s) ! (i - ?n)" using kb by simp
    also have "\<dots> \<in> set (drop ?n (keyBuffer s))" using i kb by (intro nth_mem) simp
    finally show "i < 127 \<and> (keyBuffer ?t ! i = 0 \<or> keyBuffer ?t ! i = 0x0A)"
      using i assms(6) by (simp add: cli_def)
  qed
  have "[0..<?n + (127 - ?n)] = [0..<?n] @ [?n..<?n + (127 - ?n)]" by (rule upt_add_eq_append) simp
  moreover have "?n + (127 - ?n) = 127" "max (unat nbytes) 127 = 127" using len assms(7) by simp_all
  ultimately have split: "[0..<max (unat nbytes) 127] = [0..<?n] @ [?n..<127]" by (simp only:)
  then have "fold_res (read_char buf) [0..<max (unat nbytes) 127] (0, ?s) = Inr (int ?n, ?t)"
    using read_loop_copies [OF xs len prn] read_loop_skips [OF skip, of buf "int ?n"]
    by (simp add: fold_res_append del: upt_rec_numeral)
  moreover have "fold_res read_clear [0..<127] ?t = Inr (?t\<lparr>keyBuffer := replicate 127 0, keyBufferIndex := 0\<rparr>)"
    using read_clear_loop [of 126 ?t] clear_all [of 127 "keyBuffer s"] kb
    by (simp add: cli_def eval_nat_numeral del: upt_rec_numeral upt_Suc)
  ultimately show ?thesis
    using line wait unfolding s0 by (simp add: terminal_read_def Let_def del: upt_rec_numeral)
      (simp add: cli_def sti_def upd_term_def)
qed

text \<open>
  C34. A read waits for the line and returns it. \<open>ints\<close> is what the interrupt handlers do while it
  spins with interrupts enabled. As long as Enter has not been pressed on the display, or the key
  buffer is empty, or the process's terminal is not on display, it waits: if this is so before and
  after each of the interrupts it has not returned. If \<open>v\<close>, the state after \<open>k\<close> of them, is the
  first where it is not so, and the key buffer of \<open>v\<close> holds \<open>line\<close> (no NUL and no newline in it) and
  then only bytes that are NUL or newline, a read of at most 127 bytes returns the length of
  the line; the line is in the user's buffer and no other byte of memory changes from \<open>v\<close>, also
  when \<open>nbytes\<close> is below the line's length; the key buffer is empty and interrupts are enabled.
\<close>

theorem terminal_read_line:
  assumes "k \<le> length ints" and "v = run_ints ints k (sti s)"
    and "\<forall>j < k. no_line (run_ints ints j (sti s))"
    and "terms_ok v" and "enterFlag (term_arr v ! user_term v) \<noteq> 0" and "proc_term v = user_term v"
    and "line \<noteq> []" and "take (length line) (keyBuffer v) = line" and "0 \<notin> set line" and "0x0A \<notin> set line"
    and "\<forall>b \<in> set (drop (length line) (keyBuffer v)). b = 0 \<or> b = 0x0A" and "unat nbytes \<le> 127"
    and "\<forall>i < length line. xlate v (buf + int i) = Some (pb + int i)"
  shows "(\<exists>t. terminal_read ints buf nbytes s = Some (Inr (int (length line), t))
            \<and> phys t = mwrite (phys v) pb line \<and> keyBuffer t = replicate 127 0
            \<and> keyBufferIndex t = 0 \<and> int_flag t)
       \<and> (\<forall>ints'. (\<forall>j \<le> length ints'. no_line (run_ints ints' j (sti s))) \<longrightarrow>
            terminal_read ints' buf nbytes s = None)"
proof -
  have "take (length line) (keyBuffer v) ! 0 = line ! 0" using assms(8) by simp
  then have "keyBuffer v ! 0 \<in> set line" using assms(7) by (simp add: in_set_conv_nth) (metis length_greater_0_conv)
  then have "\<not> no_line v"
    using assms(4,5,6,9) visible_is_user [of v] by (auto simp: no_line_def)
  then have wait: "read_wait ints (sti s) = Some v"
    using read_wait_first [OF assms(1,3)] assms(2) by simp
  have "terminal_read ints' buf nbytes s = None"
    if "\<forall>j \<le> length ints'. no_line (run_ints ints' j (sti s))" for ints'
    using read_wait_none [OF that] by (simp add: terminal_read_def)
  then show ?thesis using read_returns_line [OF assms(4,7-13) wait refl] by blast
qed

lemma enter_kb_example: "enterFlag (term_arr kb_example ! 0) = 0"
proof -
  let ?s = "init_terminal (paging_initialize terms_boot)"
  have len: "length (term_arr (paging_initialize terms_boot)) = 3"
    by (simp add: paging_initialize_eq terms_boot_def)
  have "term_arr kb_example = term_arr ?s"
    by (simp add: kb_example_def scheduler_remap_video_def Let_def upd_table_def upd_vmem_def)
  then show ?thesis by (simp add: init_terminal_fields [OF len])
qed

text \<open>Two characters, unread; then Enter.\<close>

definition typed_example :: terms where
  "typed_example = kb_example\<lparr>keyBuffer := [0x6C, 0x73, 0x0A] @ replicate 124 0\<rparr>"

definition press_enter :: "terms \<Rightarrow> terms" where
  "press_enter s = upd_term 0 (\<lambda>t. t\<lparr>enterFlag := 1\<rparr>) s"

theorem terminal_read_line_witness:
  "(\<exists>t. terminal_read [id, press_enter] 0x500000 127 typed_example = Some (Inr (2, t))
     \<and> phys t = mwrite (phys kb_example) 0x500000 [0x6C, 0x73])
   \<and> terminal_read [id, id] 0x500000 127 typed_example = None"
proof -
  note kb = kb_example_terms
  let ?v = "press_enter (sti typed_example)"
  have "terms_ok (sti typed_example)" using kb by (simp add: typed_example_def terms_ok_def base_ok_def cursor_ok_def sti_def)
  then have ok: "terms_ok ?v"
    unfolding press_enter_def by (intro terms_ok_upd_term(1)) (simp_all add: erase_term_def)
  have len: "length (term_arr kb_example) = 3" using kb(1) by (simp add: terms_ok_def base_ok_def)
  have f: "keyBuffer ?v = [0x6C, 0x73, 0x0A] @ replicate 124 0" "phys ?v = phys kb_example"
    "user_term ?v = 0" "proc_term ?v = 0" "enterFlag (term_arr ?v ! 0) = 1"
    using kb len by (simp_all add: typed_example_def press_enter_def upd_term_def sti_def)
  have x: "\<forall>i < length [0x6C, 0x73 :: u8]. xlate ?v (0x500000 + int i) = Some (0x500000 + int i)"
    using xlate_kernel [of ?v] ok by (auto simp: terms_ok_def base_ok_def)
  have "user_term kb_example = 0" by (rule kb)
  then have e: "no_line (sti typed_example)" using enter_kb_example by (simp add: no_line_def typed_example_def sti_def)
  have r: "?v = run_ints [id, press_enter] 2 (sti typed_example)" by (simp add: run_ints_def)
  have n: "\<forall>j < 2. no_line (run_ints [id, press_enter] j (sti typed_example))"
    using e by (auto simp: run_ints_def less_Suc_eq numeral_2_eq_2)
  have "\<forall>j \<le> length [id, id]. no_line (run_ints [id, id] j (sti typed_example))"
    using e by (auto simp: run_ints_def le_Suc_eq numeral_2_eq_2)
  then show ?thesis
    using terminal_read_line [OF _ r n ok _ _ _ _ _ _ _ _ x, of 127] f by (auto simp del: fun_upd_apply)
qed

end
