(* ===== verification/Printf.thy ===== *)
theory Printf
  imports Screen
begin

text \<open>
  Formatted output, \<^verbatim>\<open>mp3/student-distrib/lib.c\<close>: \<open>puts\<close> and \<open>printf\<close>. Strings are read from a
  memory \<open>m\<close>, the one the caller sees when it calls (no string is in video memory); the
  arguments after the format are the stack words \<open>args\<close>, and a conversion that needs more of
  them than there are is a fault. The local \<open>conv_buf\<close> is a memory of its own. A loop over a
  string that never ends is \<open>None\<close>.

  The lemmas show that \<open>printf\<close> prints exactly the text that the format and the arguments
  stand for, character by character through \<open>putc\<close>.
\<close>

section \<open>The operations\<close>

partial_function (option) puts_loop ::
  "mem \<Rightarrow> addr \<Rightarrow> int \<Rightarrow> 'a screen_scheme \<Rightarrow> (int \<times> 'a screen_scheme) res option" where
  "puts_loop m str index s =
     (if m (str + index) \<noteq> 0
      then case putc (m (str + index)) s of
             Inl e \<Rightarrow> Some (Inl e)
           | Inr s \<Rightarrow> puts_loop m str (index + 1) s
      else Some (Inr (index, s)))"

definition puts :: "mem \<Rightarrow> addr \<Rightarrow> 'a screen_scheme \<Rightarrow> (int \<times> 'a screen_scheme) res option" where
  "puts m str s = puts_loop m str 0 s"

text \<open>The padding loop of \<open>%#x\<close>: \<open>k\<close> places left before index 8.\<close>

fun pad_zeros :: "mem \<Rightarrow> nat \<Rightarrow> nat \<Rightarrow> mem" where
  "pad_zeros m i 0 = m"
| "pad_zeros m i (Suc k) = pad_zeros (m(int i := 0x30)) (Suc i) k"

definition conv_x :: "bool \<Rightarrow> u32 \<Rightarrow> 'a screen_scheme \<Rightarrow> (int \<times> 'a screen_scheme) res option" where
  "conv_x alternate v s =
     (if \<not> alternate then Option.bind (itoa (\<lambda>_. 0) v 0 16) (\<lambda>m. puts m 0 s)
      else Option.bind (itoa (\<lambda>_. 0) v 8 16) (\<lambda>m.
           Option.bind (strlen m 8) (\<lambda>starting_index.
           puts (pad_zeros m starting_index (8 - starting_index)) (int starting_index) s)))"

definition conv_u :: "u32 \<Rightarrow> 'a screen_scheme \<Rightarrow> (int \<times> 'a screen_scheme) res option" where
  "conv_u v s = Option.bind (itoa (\<lambda>_. 0) v 0 10) (\<lambda>m. puts m 0 s)"

definition conv_d :: "u32 \<Rightarrow> 'a screen_scheme \<Rightarrow> (int \<times> 'a screen_scheme) res option" where
  "conv_d v s =
     (if sint v < 0 then Option.bind (itoa ((\<lambda>_. 0)(0 := 0x2D)) (- v) 1 10) (\<lambda>m. puts m 0 s)
      else Option.bind (itoa (\<lambda>_. 0) v 0 10) (\<lambda>m. puts m 0 s))"

definition put_res :: "'a screen_scheme res \<Rightarrow> (int \<times> 'a screen_scheme) res option" where
  "put_res r = Some (and_then r (\<lambda>s. Inr (0, s)))"

text \<open>
  The conversion at \<open>buf\<close>; \<open>#\<close> sets \<open>alternate\<close> and moves on by the \<open>goto\<close>. The result is the
  position of the conversion character, the arguments left and the state.
\<close>

definition takes_arg :: "u8 \<Rightarrow> bool" where
  "takes_arg c \<longleftrightarrow> c \<in> {0x78, 0x75, 0x64, 0x63, 0x73}"

definition conv_out ::
  "mem \<Rightarrow> bool \<Rightarrow> u8 \<Rightarrow> u32 \<Rightarrow> 'a screen_scheme \<Rightarrow> (int \<times> 'a screen_scheme) res option" where
  "conv_out m alternate c v s =
     (if c = 0x78 then conv_x alternate v s
      else if c = 0x75 then conv_u v s
      else if c = 0x64 then conv_d v s
      else if c = 0x63 then put_res (putc (ucast v) s)
      else puts m (uint v) s)"

partial_function (option) printf_conv ::
  "mem \<Rightarrow> bool \<Rightarrow> addr \<Rightarrow> u32 list \<Rightarrow> 'a screen_scheme \<Rightarrow>
     (addr \<times> u32 list \<times> 'a screen_scheme) res option" where
  "printf_conv m alternate buf args s =
     (if m buf = 0x23 then printf_conv m True (buf + 1) args s
      else if m buf = 0x25 then Some (and_then (putc 0x25 s) (\<lambda>s. Inr (buf, args, s)))
      else if takes_arg (m buf)
      then (case args of
              [] \<Rightarrow> Some (Inl OutOfBounds)
            | v # args \<Rightarrow> Option.bind (conv_out m alternate (m buf) v s)
                            (\<lambda>r. Some (and_then r (\<lambda>(_, s). Inr (buf, args, s)))))
      else Some (Inr (buf, args, s)))"

partial_function (option) printf_loop ::
  "mem \<Rightarrow> addr \<Rightarrow> u32 list \<Rightarrow> 'a screen_scheme \<Rightarrow> (addr \<times> 'a screen_scheme) res option" where
  "printf_loop m buf args s =
     (if m buf = 0 then Some (Inr (buf, s))
      else if m buf = 0x25
      then Option.bind (printf_conv m False (buf + 1) args s) (\<lambda>r.
             case r of Inl e \<Rightarrow> Some (Inl e)
             | Inr bas \<Rightarrow> printf_loop m (fst bas + 1) (fst (snd bas)) (snd (snd bas)))
      else case putc (m buf) s of
             Inl e \<Rightarrow> Some (Inl e)
           | Inr s \<Rightarrow> printf_loop m (buf + 1) args s)"

definition printf :: "mem \<Rightarrow> addr \<Rightarrow> u32 list \<Rightarrow> 'a screen_scheme \<Rightarrow> (int \<times> 'a screen_scheme) res option" where
  "printf m format args s =
     Option.bind (printf_loop m format args s) (\<lambda>r. Some (and_then r (\<lambda>(buf, s).
       and_then (update_cursor s) (\<lambda>s. Inr (buf - format, s)))))"

section \<open>What is printed\<close>

text \<open>The text of one conversion, and of a whole format; \<open>str\<close> gives the string at an address.\<close>

definition numeral_bytes :: "nat \<Rightarrow> nat \<Rightarrow> u8 list" where
  "numeral_bytes r v = map ((!) itoa_lookup) (itoa_digits r v)"

definition conv_text :: "(addr \<Rightarrow> u8 list option) \<Rightarrow> bool \<Rightarrow> u8 \<Rightarrow> u32 \<Rightarrow> u8 list option" where
  "conv_text str alternate c v =
     (if c = 0x78 then let d = numeral_bytes 16 (unat v)
                       in Some (if alternate then replicate (8 - length d) 0x30 @ d else d)
      else if c = 0x75 then Some (numeral_bytes 10 (unat v))
      else if c = 0x64 then Some (if sint v < 0 then 0x2D # numeral_bytes 10 (unat (- v))
                                  else numeral_bytes 10 (unat v))
      else if c = 0x63 then Some [ucast v]
      else str (uint v))"

fun render :: "(addr \<Rightarrow> u8 list option) \<Rightarrow> u8 list \<Rightarrow> u32 list \<Rightarrow> u8 list option"
  and render_conv :: "(addr \<Rightarrow> u8 list option) \<Rightarrow> bool \<Rightarrow> u8 list \<Rightarrow> u32 list \<Rightarrow> u8 list option" where
  "render str [] args = Some []"
| "render str (c # cs) args =
     (if c = 0x25 then render_conv str False cs args else map_option ((#) c) (render str cs args))"
| "render_conv str alternate [] args = None"
| "render_conv str alternate (c # cs) args =
     (if c = 0x23 then render_conv str True cs args
      else if c = 0x25 then map_option ((#) 0x25) (render str cs args)
      else if takes_arg c
      then (case args of
              [] \<Rightarrow> None
            | v # args \<Rightarrow> Option.bind (conv_text str alternate c v)
                           (\<lambda>t. map_option ((@) t) (render str cs args)))
      else render str cs args)"

section \<open>Lemmas\<close>

text \<open>Printing the bytes \<open>bs\<close> one after the other, then returning \<open>f\<close> of the state.\<close>

definition prints :: "u8 list \<Rightarrow> ('a screen_scheme \<Rightarrow> 'b) \<Rightarrow> 'a screen_scheme \<Rightarrow> 'b res option" where
  "prints bs f s = Some (and_then (fold_res putc bs s) (\<lambda>s. Inr (f s)))"

lemma prints_Nil [simp]: "prints [] f s = Some (Inr (f s))"
  by (simp add: prints_def)

lemma prints_Cons:
  "prints (b # bs) f s = (case putc b s of Inl e \<Rightarrow> Some (Inl e) | Inr s \<Rightarrow> prints bs f s)"
  by (simp add: prints_def split: sum.splits)

lemma prints_append:
  "Option.bind (prints bs (\<lambda>s. s) s) (\<lambda>r. case r of Inl e \<Rightarrow> Some (Inl e) | Inr s \<Rightarrow> prints cs f s) =
     prints (bs @ cs) f s"
  by (induction bs arbitrary: s) (auto simp: prints_Cons split: sum.splits)

lemma puts_loop_eq:
  "cstr m (str + index) xs \<Longrightarrow> puts_loop m str index s = prints xs (\<lambda>s. (index + int (length xs), s)) s"
proof (induction xs arbitrary: index s)
  case Nil
  then show ?case by (simp add: puts_loop.simps)
next
  case (Cons x xs)
  then have "cstr m (str + (index + 1)) xs" by (simp add: add.assoc)
  from Cons.IH [OF this] show ?case
    using Cons.prems by (simp add: puts_loop.simps [of m str index] prints_Cons ac_simps split: sum.splits)
qed

lemma puts_eq: "cstr m str xs \<Longrightarrow> puts m str s = prints xs (\<lambda>s. (int (length xs), s)) s"
  using puts_loop_eq [of m str 0 xs] by (simp add: puts_def)

lemma numeral_bytes_nonzero: "2 \<le> r \<Longrightarrow> r \<le> 36 \<Longrightarrow> 0 \<notin> set (numeral_bytes r v)"
  using itoa_digits_less [of r _ v] itoa_lookup_nonzero by (fastforce simp: numeral_bytes_def)

lemma itoa_numeral:
  assumes "r = 10 \<or> r = 16"
  shows "itoa m v buf r = Some (mwrite m buf (numeral_bytes (unat r) (unat v) @ [0]))"
    and "cstr (mwrite m buf (numeral_bytes (unat r) (unat v) @ [0])) buf (numeral_bytes (unat r) (unat v))"
  using assms itoa_eq [of r m v buf] numeral_bytes_nonzero [of "unat r" "unat v"]
  by (auto simp: numeral_bytes_def cstr_mwrite)

lemma pad_zeros_eq: "pad_zeros m i k = mwrite m (int i) (replicate k 0x30)"
  by (induction m i k rule: pad_zeros.induct) (simp_all add: ac_simps del: fun_upd_apply)

lemma numeral_bytes_16: "length (numeral_bytes 16 (unat (v :: u32))) \<le> 8"
proof -
  have "unat v < 16 ^ 8" using unsigned_less [of v] by simp
  from length_ldigits [OF this] show ?thesis by (auto simp: numeral_bytes_def itoa_digits_def)
qed

lemma cstr_padded:
  assumes "0 \<notin> set d" and "length d \<le> 8"
  shows "cstr (mwrite (mwrite m 8 (d @ [0])) (int (length d)) (replicate (8 - length d) 0x30)) (int (length d))
           (replicate (8 - length d) 0x30 @ d)"
proof -
  let ?n = "length d"
  let ?m = "mwrite (mwrite m 8 (d @ [0])) (int ?n) (replicate (8 - ?n) 0x30)"
  have "?m (int ?n + int i) = (replicate (8 - ?n) 0x30 @ d) ! i" if "i < 8" for i
  proof (cases "i < 8 - ?n")
    case True
    then show ?thesis by (simp add: mwrite_inside nth_append)
  next
    case False
    define j where "j = i - (8 - ?n)"
    have j: "int ?n + int i = 8 + int j" "j < ?n" using False that assms(2) by (auto simp: j_def)
    have "?m (8 + int j) = mwrite m 8 (d @ [0]) (8 + int j)" using assms(2) by (intro mwrite_outside) simp
    also have "\<dots> = d ! j" using j(2) by (simp add: mwrite_inside nth_append)
    finally show ?thesis using False by (simp add: j(1) nth_append j_def)
  qed
  moreover have "?m (int ?n + 8) = 0" using assms(2) by (simp add: mwrite_apply nth_append)
  ultimately show ?thesis using assms by (simp add: cstr_iff)
qed

text \<open>A conversion prints its text.\<close>

lemma conv_out_eq:
  assumes c: "takes_arg c" and t: "conv_text str alternate c v = Some t"
    and str: "\<forall>a xs. str a = Some xs \<longrightarrow> cstr m a xs"
  shows "\<exists>n. conv_out m alternate c v s = prints t (\<lambda>s. (n, s)) s"
proof -
  consider "c = 0x78" | "c = 0x75" | "c = 0x64" | "c = 0x63" | "c = 0x73"
    using c by (auto simp: takes_arg_def)
  then show ?thesis
  proof cases
    case 1
    let ?d = "numeral_bytes 16 (unat v)"
    have nz: "0 \<notin> set ?d" by (rule numeral_bytes_nonzero) simp_all
    note digits = itoa_numeral [of 16 "\<lambda>_. 0", simplified]
    show ?thesis
    proof (cases alternate)
      case True
      have "conv_out m alternate c v s =
          prints (replicate (8 - length ?d) 0x30 @ ?d) (\<lambda>s. (int (length (replicate (8 - length ?d) (0x30 :: u8) @ ?d)), s)) s"
        unfolding puts_eq [OF cstr_padded [OF nz numeral_bytes_16, of "\<lambda>_. 0"], symmetric]
        using 1 True digits(1) [of v 8] strlen_cstr [OF digits(2) [of 8 v]]
        by (simp add: conv_out_def conv_x_def pad_zeros_eq)
      then show ?thesis using 1 True t by (auto simp: conv_text_def Let_def)
    next
      case False
      have "conv_out m alternate c v s = prints ?d (\<lambda>s. (int (length ?d), s)) s"
        unfolding puts_eq [OF digits(2) [of 0 v], symmetric]
        using 1 False digits(1) [of v 0] by (simp add: conv_out_def conv_x_def)
      then show ?thesis using 1 False t by (auto simp: conv_text_def Let_def)
    qed
  next
    case 2
    then show ?thesis
      using t itoa_numeral(1) [of 10 "\<lambda>_. 0" v] puts_eq [OF itoa_numeral(2) [of 10 "\<lambda>_. 0" 0 v]]
      by (auto simp: conv_out_def conv_u_def conv_text_def)
  next
    case 3
    let ?d = "numeral_bytes 10 (unat (- v))"
    have "cstr (mwrite ((\<lambda>_. 0)(0 := 0x2D)) 1 (?d @ [0])) 0 (0x2D # ?d)"
      using itoa_numeral(2) [of 10 "(\<lambda>_. 0)(0 := 0x2D)" 1 "- v"] by (simp add: mwrite_outside)
    from puts_eq [OF this] show ?thesis
      using 3 t itoa_numeral(1) [of 10 "(\<lambda>_. 0)(0 := 0x2D)" "- v" 1] itoa_numeral(1) [of 10 "\<lambda>_. 0" v 0]
        puts_eq [OF itoa_numeral(2) [of 10 "\<lambda>_. 0" 0 v]]
      by (auto simp: conv_out_def conv_d_def conv_text_def simp del: fun_upd_apply split: if_splits)
  next
    case 4
    then show ?thesis
      using t by (auto simp: conv_out_def conv_text_def put_res_def prints_def)
  next
    case 5
    then show ?thesis
      using t str puts_eq [of m "uint v" t] by (auto simp: conv_out_def conv_text_def)
  qed
qed

text \<open>The loop after a conversion.\<close>

definition printf_rest ::
  "mem \<Rightarrow> (addr \<times> u32 list \<times> 'a screen_scheme) res option \<Rightarrow> (addr \<times> 'a screen_scheme) res option" where
  "printf_rest m c = Option.bind c (\<lambda>r. case r of Inl e \<Rightarrow> Some (Inl e)
     | Inr bas \<Rightarrow> printf_loop m (fst bas + 1) (fst (snd bas)) (snd (snd bas)))"

lemma printf_loop_unfold:
  "printf_loop m buf args s =
     (if m buf = 0 then Some (Inr (buf, s))
      else if m buf = 0x25 then printf_rest m (printf_conv m False (buf + 1) args s)
      else case putc (m buf) s of Inl e \<Rightarrow> Some (Inl e) | Inr s \<Rightarrow> printf_loop m (buf + 1) args s)"
  by (subst printf_loop.simps) (simp add: printf_rest_def)

lemma printf_rest_prints:
  assumes "\<And>s. printf_loop m (buf + 1) args s = prints bs f s"
  shows "printf_rest m (prints t (\<lambda>s. (buf, args, s)) s) = prints (t @ bs) f s"
  using assms by (induction t arbitrary: s)
    (auto simp: printf_rest_def prints_Cons split: sum.splits)

lemma printf_loop_render:
  "\<And>buf bs (s :: 'a screen_scheme). \<forall>a xs. str a = Some xs \<longrightarrow> cstr m a xs \<Longrightarrow> cstr m buf fmt \<Longrightarrow> render str fmt args = Some bs \<Longrightarrow>
     printf_loop m buf args s = prints bs (\<lambda>s. (buf + int (length fmt), s)) s"
  "\<And>buf bs (s :: 'a screen_scheme). \<forall>a xs. str a = Some xs \<longrightarrow> cstr m a xs \<Longrightarrow> cstr m buf fmt' \<Longrightarrow>
     render_conv str alternate fmt' args' = Some bs \<Longrightarrow>
     printf_rest m (printf_conv m alternate buf args' s) = prints bs (\<lambda>s. (buf + int (length fmt'), s)) s"
proof (induction str fmt args and str alternate fmt' args' rule: render_render_conv.induct)
  case (1 str args)
  then show ?case by (simp add: printf_loop_unfold)
next
  case (2 str c cs args)
  have c: "m buf = c" "c \<noteq> 0" "cstr m (buf + 1) cs" using "2.prems"(2) by auto
  have len: "buf + 1 + int (length cs) = buf + int (length (c # cs))" by simp
  show ?case
  proof (cases "c = 0x25")
    case True
    then have "printf_rest m (printf_conv m False (buf + 1) args s) =
        prints bs (\<lambda>s. (buf + 1 + int (length cs), s)) s"
      using "2.prems"(1,3) c by (intro "2.IH"(1)) simp_all
    with True c show ?thesis unfolding len by (simp add: printf_loop_unfold)
  next
    case False
    then obtain ds where ds: "render str cs args = Some ds" "bs = c # ds" using "2.prems"(3) by auto
    have "printf_loop m (buf + 1) args u = prints ds (\<lambda>s. (buf + 1 + int (length cs), s)) u" for u :: "'a screen_scheme"
      using False "2.prems"(1) c ds by (intro "2.IH"(2)) simp_all
    with False c ds show ?thesis unfolding len
      by (simp add: printf_loop_unfold [of m buf] prints_Cons split: sum.splits)
  qed
next
  case (3 str alternate args)
  then show ?case by simp
next
  case (4 str alternate c cs args)
  have c: "m buf = c" "c \<noteq> 0" "cstr m (buf + 1) cs" using "4.prems"(2) by auto
  have len: "buf + 1 + int (length cs) = buf + int (length (c # cs))" by simp
  let ?f = "\<lambda>s. (buf + 1 + int (length cs), s)"
  consider (alt) "c = 0x23" | (percent) "c = 0x25" | (arg) "c \<noteq> 0x23" "c \<noteq> 0x25" "takes_arg c"
    | (other) "c \<noteq> 0x23" "c \<noteq> 0x25" "\<not> takes_arg c" by blast
  then have "printf_rest m (printf_conv m alternate buf args s) = prints bs ?f s"
  proof cases
    case alt
    then have "printf_rest m (printf_conv m True (buf + 1) args s) = prints bs ?f s"
      using "4.prems"(1,3) c by (intro "4.IH"(1)) simp_all
    with alt c show ?thesis by (simp add: printf_conv.simps [of m alternate buf])
  next
    case percent
    then obtain ds where ds: "render str cs args = Some ds" "bs = [0x25] @ ds" using "4.prems"(3) by auto
    have "printf_loop m (buf + 1) args u = prints ds ?f u" for u :: "'a screen_scheme"
      using percent "4.prems"(1) c ds by (intro "4.IH"(2)) simp_all
    from printf_rest_prints [OF this, of "[0x25]" s] show ?thesis
      using percent c ds by (simp add: printf_conv.simps [of m alternate buf] prints_def)
  next
    case arg
    then obtain v vs t ds where v: "args = v # vs" and t: "conv_text str alternate c v = Some t"
      and ds: "render str cs vs = Some ds" "bs = t @ ds"
      using "4.prems"(3) by (auto split: list.splits simp: bind_eq_Some_conv)
    have loop: "printf_loop m (buf + 1) vs u = prints ds ?f u" for u :: "'a screen_scheme"
      using arg "4.prems"(1) c ds v t by (intro "4.IH"(3)) (assumption | simp)+
    obtain n where "conv_out m alternate c v s = prints t (\<lambda>s. (n, s)) s"
      using conv_out_eq [OF arg(3) t "4.prems"(1)] by blast
    then have "printf_conv m alternate buf args s = prints t (\<lambda>s. (buf, vs, s)) s"
      using arg c v by (simp add: printf_conv.simps [of m alternate buf] prints_def and_then_assoc)
    with printf_rest_prints [OF loop, of t s] ds show ?thesis by simp
  next
    case other
    then have "render str cs args = Some bs" using "4.prems"(3) by simp
    then have "printf_loop m (buf + 1) args u = prints bs ?f u" for u :: "'a screen_scheme"
      using other "4.prems"(1) c by (intro "4.IH"(4)) simp_all
    with other c show ?thesis
      by (simp add: printf_conv.simps [of m alternate buf] printf_rest_def)
  qed
  then show ?case unfolding len .
qed

section \<open>Properties\<close>

lemma printf_eq:
  assumes "\<forall>a xs. str a = Some xs \<longrightarrow> cstr m a xs" and "cstr m format fmt"
    and "render str fmt args = Some text"
  shows "printf m format args s =
           Some (and_then (fold_res putc text s) (\<lambda>s. and_then (update_cursor s) (\<lambda>s. Inr (int (length fmt), s))))"
  using printf_loop_render(1) [OF assms, of s] by (simp add: printf_def prints_def and_then_assoc)

lemma render_plain: "0x25 \<notin> set fmt \<Longrightarrow> render str fmt args = Some fmt"
  by (induction fmt) auto

text \<open>A format without conversions, such as a fixed message.\<close>

lemma printf_plain:
  assumes "cstr m format fmt" and "0x25 \<notin> set fmt"
  shows "printf m format args s =
           Some (and_then (fold_res putc fmt s) (\<lambda>s. and_then (update_cursor s) (\<lambda>s. Inr (int (length fmt), s))))"
  using assms by (intro printf_eq [of "\<lambda>_. None"]) (simp_all add: render_plain)

text \<open>
  C35. \<open>printf\<close> prints what the format says: for a NUL-terminated format whose conversions have
  their arguments, it returns (unless \<open>putc\<close> faults), having sent to \<open>putc\<close>, one by one and in
  order, exactly the characters of the rendered text, with \<open>%x\<close>, \<open>%#x\<close> (eight digits), \<open>%u\<close>,
  \<open>%d\<close>, \<open>%c\<close>, \<open>%s\<close> and \<open>%%\<close> expanded; the result is the length of the format, not of the text.
\<close>

theorem printf_renders:
  assumes "\<forall>a xs. str a = Some xs \<longrightarrow> cstr m a xs" and "cstr m format fmt"
    and "render str fmt args = Some text"
  shows "printf m format args s =
           Some (and_then (fold_res putc text s) (\<lambda>s. and_then (update_cursor s) (\<lambda>s. Inr (int (length fmt), s))))"
  using assms by (rule printf_eq)

theorem printf_renders_witness:
  "printf (mwrite (\<lambda>_. 0) 100 [0x25, 0x23, 0x78, 0x21]) 100 [0xBEEF] screen_example =
     Some (and_then (fold_res putc [0x30, 0x30, 0x30, 0x30, 0x42, 0x45, 0x45, 0x46, 0x21] screen_example)
       (\<lambda>s. and_then (update_cursor s) (\<lambda>s. Inr (4, s))))"
proof -
  let ?m = "mwrite (\<lambda>_. 0) 100 [0x25, 0x23, 0x78, 0x21] :: mem"
  have fmt: "cstr ?m 100 [0x25, 0x23, 0x78, 0x21]" by simp
  have four: "replicate 4 0x30 = [0x30, 0x30, 0x30, 0x30 :: u8]" by (simp add: numeral_eq_Suc)
  have "numeral_bytes 16 0xBEEF = [0x42, 0x45, 0x45, 0x46]"
    by (simp add: numeral_bytes_def itoa_digits_def itoa_lookup_def ldigits.simps)
  then have "render (\<lambda>_. None) [0x25, 0x23, 0x78, 0x21] [0xBEEF] =
      Some [0x30, 0x30, 0x30, 0x30, 0x42, 0x45, 0x45, 0x46, 0x21]"
    by (simp add: takes_arg_def conv_text_def four)
  from printf_renders [OF _ fmt this] show ?thesis by simp
qed

end
