(* ===== verification/Syscall.thy ===== *)
theory Syscall
  imports Terminal Printf Filesystem
begin

text \<open>
  The system calls, \<^verbatim>\<open>mp3/student-distrib/syscall.c\<close> and \<^verbatim>\<open>syscall.h\<close>: process control blocks,
  file descriptors and the eight handlers. A process control block is an object in a store
  indexed by its address, the bottom of a kernel stack; \<open>pcb_current\<close> and \<open>parent_pcb\<close> are
  such addresses and 0 is the null pointer, whose dereference is a page fault. The four
  tables of file operations are the constructors of \<open>fops\<close>.

  User pointers are virtual addresses. Every byte that a handler reads at one is checked: a
  string goes through \<open>load_string\<close> or byte by byte through \<open>vread\<close>, a buffer through
  \<open>vread_bytes\<close>, and what is written to one goes through \<open>vwrite_bytes\<close>; an unmapped byte is the
  fault \<open>PageFault\<close>. \<open>vview\<close> is what the kernel sees through the page tables, with 0 where nothing
  is mapped: it is used below such a check, and for the file system image, which the boot loader
  puts in the kernel's page and whose reads are not checked (\<open>fs_ok\<close> says that it is there). The
  process control blocks, the tables of the processes and the task state segment are fields of
  the state and not bytes of \<open>phys\<close>. Local arrays of a
  handler and string literals are at negative addresses, where no pointer of the program
  points. A blocking read takes what happens meanwhile as arguments: \<open>ints\<close> for the terminal
  and \<open>sched\<close> for the clock, and is \<open>None\<close> while it still spins. An \<open>execute\<close> that succeeds
  enters user mode, and a \<open>halt\<close> that succeeds resumes the parent's kernel stack.
\<close>

section \<open>Structures\<close>

datatype fops = filesystem_operations_table | directory_operations_table
  | terminal_operations_table | rtc_operations_table

record file_descriptor =
  operations_pointer :: fops
  fd_inode :: u32
  file_position :: u32
  flags :: u32

record pcb =
  pcb_arr :: "file_descriptor list"
  pid :: u8
  parent_pid :: u8
  pcb_esp :: u32
  kesp :: u32
  pcb_ebp :: u32
  pcb_ss0 :: u32
  pcb_esp0 :: u32
  argbuf :: "u8 list"
  argsflag :: u8
  parent_pcb :: addr
  rtc_val :: u32
  rtc_flag :: u32

record kernel = terms +
  fsys :: fs
  pcb_at :: "addr \<Rightarrow> pcb"
  pcb_current :: addr
  program_count :: u8
  args_flag :: u8
  pid_arr :: "u8 list"
  sched_pid :: "u8 list"
  tss_ss0 :: u32
  tss_esp0 :: u32

abbreviation cur_pcb :: "'a kernel_scheme \<Rightarrow> pcb" where
  "cur_pcb s \<equiv> pcb_at s (pcb_current s)"

definition upd_pcb :: "addr \<Rightarrow> (pcb \<Rightarrow> pcb) \<Rightarrow> 'a kernel_scheme \<Rightarrow> 'a kernel_scheme" where
  "upd_pcb a f s = s\<lparr>pcb_at := (pcb_at s)(a := f (pcb_at s a))\<rparr>"

definition upd_fd :: "nat \<Rightarrow> (file_descriptor \<Rightarrow> file_descriptor) \<Rightarrow> pcb \<Rightarrow> pcb" where
  "upd_fd i f p = p\<lparr>pcb_arr := (pcb_arr p)[i := f (pcb_arr p ! i)]\<rparr>"

definition deref_pcb :: "'a kernel_scheme \<Rightarrow> 'a kernel_scheme res" where
  "deref_pcb s = check (pcb_current s \<noteq> 0) PageFault s"

definition vview :: "'a paging_scheme \<Rightarrow> mem" where
  "vview s = (\<lambda>a. case xlate s a of None \<Rightarrow> 0 | Some p \<Rightarrow> phys s p)"

text \<open>
  A routine that walks over the string at \<open>a\<close> up to its NUL. In \<open>vview\<close> the walk ends at the
  first byte that is 0 or not mapped; in the second case the routine faults there.
\<close>

definition load_string :: "addr \<Rightarrow> 'a kernel_scheme \<Rightarrow> 'a kernel_scheme res" where
  "load_string a s =
     (case strlen (vview s) a of
        None \<Rightarrow> Inl Diverges
      | Some n \<Rightarrow> check (xlate s (a + int n) \<noteq> None) PageFault s)"

definition bytes_of :: "string \<Rightarrow> u8 list" where
  "bytes_of str = map (of_nat \<circ> of_char) str"

text \<open>A memory with a string literal at address \<open>a\<close>.\<close>

definition with_literal :: "addr \<Rightarrow> string \<Rightarrow> mem \<Rightarrow> mem" where
  "with_literal a str m = mwrite m a (bytes_of str @ [0])"

section \<open>Reading and writing\<close>

definition fs_read :: "(mem \<Rightarrow> int \<times> mem) \<Rightarrow> addr \<Rightarrow> 'a kernel_scheme \<Rightarrow> (int \<times> 'a kernel_scheme) res" where
  "fs_read rd buf s =
     (let (ret, m) = rd (vview s)
      in and_then (vwrite_bytes buf (mread m buf (nat ret)) s) (\<lambda>s. Inr (ret, s)))"

definition read_ptr ::
  "device \<Rightarrow> ('a kernel_scheme \<Rightarrow> 'a kernel_scheme) list \<Rightarrow> bool list \<Rightarrow> fops \<Rightarrow> u32 \<Rightarrow> u32 \<Rightarrow> addr \<Rightarrow> u32 \<Rightarrow>
     'a kernel_scheme \<Rightarrow> (int \<times> 'a kernel_scheme) res option" where
  "read_ptr dev ints sched ops inode offset buf n s =
     (case ops of
        filesystem_operations_table \<Rightarrow> Some (fs_read (\<lambda>m. file_read m (fsys s) inode offset buf n) buf s)
      | directory_operations_table \<Rightarrow> Some (fs_read (\<lambda>m. directory_read m (fsys s) inode offset buf n) buf s)
      | terminal_operations_table \<Rightarrow> terminal_read ints buf n s
      | rtc_operations_table \<Rightarrow> map_option Inr (rtc_read dev sched s))"

definition write_ptr :: "device \<Rightarrow> fops \<Rightarrow> addr \<Rightarrow> int \<Rightarrow> 'a kernel_scheme \<Rightarrow> (int \<times> 'a kernel_scheme) res" where
  "write_ptr dev ops buf n s =
     (case ops of
        filesystem_operations_table \<Rightarrow> Inr (file_write, s)
      | directory_operations_table \<Rightarrow> Inr (directory_write, s)
      | terminal_operations_table \<Rightarrow> terminal_write buf n s
      | rtc_operations_table \<Rightarrow>
          if n = 4 \<and> buf \<noteq> 0
          then and_then (vread_bytes buf 4 s) (\<lambda>_. Inr (rtc_write dev (vview s) buf n s))
          else Inr (rtc_write dev (vview s) buf n s))"

definition open_ptr :: "device \<Rightarrow> fops \<Rightarrow> 'a kernel_scheme \<Rightarrow> int \<times> 'a kernel_scheme" where
  "open_ptr dev ops s =
     (case ops of
        filesystem_operations_table \<Rightarrow> (file_open, s)
      | directory_operations_table \<Rightarrow> (directory_open, s)
      | terminal_operations_table \<Rightarrow> (terminal_open, s)
      | rtc_operations_table \<Rightarrow> rtc_open dev s)"

definition read_handler ::
  "device \<Rightarrow> ('a kernel_scheme \<Rightarrow> 'a kernel_scheme) list \<Rightarrow> bool list \<Rightarrow> int \<Rightarrow> addr \<Rightarrow> int \<Rightarrow>
     'a kernel_scheme \<Rightarrow> (int \<times> 'a kernel_scheme) res option" where
  "read_handler dev ints sched fd buf nbytes s =
     (if buf = 0 \<or> fd < 0 \<or> fd > 7 then Some (Inr (-1, s))
      else if fd = 0 + 1 then Some (Inr (-1, s))
      else if pcb_current s = 0 then Some (Inl PageFault)
      else let f = pcb_arr (cur_pcb s) ! nat fd
           in if flags f = 1
              then if fd = 0
                   then read_ptr dev ints sched (operations_pointer f) (word_of_int fd) 0 buf (word_of_int nbytes) s
                   else map_option (\<lambda>r. and_then r (\<lambda>(ret, s).
                          Inr (ret, upd_pcb (pcb_current s) (upd_fd (nat fd)
                                 (\<lambda>f. f\<lparr>file_position := file_position f + word_of_int ret\<rparr>)) s)))
                        (read_ptr dev ints sched (operations_pointer f) (fd_inode f) (file_position f) buf
                          (word_of_int nbytes) s)
              else Some (Inr (-1, s)))"

definition write_handler :: "device \<Rightarrow> int \<Rightarrow> addr \<Rightarrow> int \<Rightarrow> 'a kernel_scheme \<Rightarrow> (int \<times> 'a kernel_scheme) res" where
  "write_handler dev fd buf nbytes s =
     (if buf = 0 \<or> fd \<le> 0 \<or> fd > 7 then Inr (-1, s)
      else and_then (deref_pcb s) (\<lambda>s.
           let f = pcb_arr (cur_pcb s) ! nat fd
           in if flags f = 1 then write_ptr dev (operations_pointer f) buf nbytes s
              else Inr (-1, s)))"

section \<open>Opening and closing\<close>

definition init_fd :: "fops \<Rightarrow> u32 \<Rightarrow> file_descriptor \<Rightarrow> file_descriptor" where
  "init_fd ops ino f = f\<lparr>operations_pointer := ops, fd_inode := ino, file_position := 0, flags := 1\<rparr>"

text \<open>The first descriptor from 2 on whose \<open>flags\<close> is 0.\<close>

definition free_fd :: "pcb \<Rightarrow> nat option" where
  "free_fd p = find (\<lambda>i. flags (pcb_arr p ! i) = 0) [2..<8]"

definition fops_of :: "u32 \<Rightarrow> fops option" where
  "fops_of ty = (if ty = 0 then Some rtc_operations_table
                 else if ty = 1 then Some directory_operations_table
                 else if ty = 2 then Some filesystem_operations_table else None)"

text \<open>The end of \<open>open_handler\<close>, for a directory entry that was found.\<close>

definition open_dentry :: "device \<Rightarrow> dentry \<Rightarrow> 'a kernel_scheme \<Rightarrow> int \<times> 'a kernel_scheme" where
  "open_dentry dev d s =
     (case free_fd (cur_pcb s) of
        None \<Rightarrow> (-1, s)
      | Some fd \<Rightarrow>
          let p = pcb_current s;
              s = upd_pcb p (upd_fd fd (\<lambda>f. f\<lparr>file_position := 0, flags := 1, fd_inode := 0\<rparr>)) s
          in case fops_of (filetype d) of
               None \<Rightarrow> (-1, s)
             | Some ops \<Rightarrow>
                 let s = upd_pcb p (upd_fd fd (\<lambda>f. f\<lparr>operations_pointer := ops\<rparr>)) s;
                     s = (if filetype d = 0 then upd_pcb p (\<lambda>q. q\<lparr>rtc_flag := 1\<rparr>) s else s);
                     s = (if filetype d = 2
                          then upd_pcb p (upd_fd fd (\<lambda>f. f\<lparr>fd_inode := inode_num d\<rparr>)) s else s);
                     (_, s) = open_ptr dev ops s
                 in (int fd, sti s))"

text \<open>\<open>open_handler\<close> for a name at \<open>fname\<close> of the memory \<open>m\<close>; \<open>fd\<close> is \<open>(uint32_t)-1\<close> at first.\<close>

definition open_named :: "device \<Rightarrow> mem \<Rightarrow> addr \<Rightarrow> 'a kernel_scheme \<Rightarrow> (int \<times> 'a kernel_scheme) res" where
  "open_named dev m fname s =
     (let s = cli s
      in if fname = 0 \<or> m fname = 0 then Inr (-1, s)
         else case strlen m fname of
           None \<Rightarrow> Inl Diverges
         | Some n \<Rightarrow>
             if strncmp (with_literal (-64) ''stdin'' m) fname (-64) n = 0
             then and_then (deref_pcb s) (\<lambda>s.
                  Inr (0, upd_pcb (pcb_current s) (upd_fd 0 (init_fd terminal_operations_table 0)) s))
             else if strncmp (with_literal (-64) ''stdout'' m) fname (-64) n = 0
             then and_then (deref_pcb s) (\<lambda>s.
                  Inr (1, upd_pcb (pcb_current s) (upd_fd 1 (init_fd terminal_operations_table 0)) s))
             else and_then (read_dentry_by_name m (fsys s) fname) (\<lambda>r.
                  case r of
                    None \<Rightarrow> Inr (-1, s)
                  | Some d \<Rightarrow> and_then (deref_pcb s) (\<lambda>s. Inr (open_dentry dev d s))))"

definition open_handler :: "device \<Rightarrow> addr \<Rightarrow> 'a kernel_scheme \<Rightarrow> (int \<times> 'a kernel_scheme) res" where
  "open_handler dev fname s =
     (if fname = 0 then Inr (-1, cli s)
      else and_then (load_string fname s) (\<lambda>s. open_named dev (vview s) fname s))"

definition close_handler :: "int \<Rightarrow> 'a kernel_scheme \<Rightarrow> int \<times> 'a kernel_scheme" where
  "close_handler fd s =
     (let s = cli s
      in if pcb_current s = 0 then (-1, s)
         else if fd < 0 + 2 \<or> fd > 7 then (-1, s)
         else if flags (pcb_arr (cur_pcb s) ! nat fd) = 0 then (-1, s)
         else (0, sti (upd_pcb (pcb_current s) (upd_fd (nat fd) (\<lambda>f. f\<lparr>flags := 0\<rparr>)) s)))"

section \<open>Arguments and video memory\<close>

definition getargs_handler :: "addr \<Rightarrow> int \<Rightarrow> 'a kernel_scheme \<Rightarrow> (int \<times> 'a kernel_scheme) res" where
  "getargs_handler buf nbytes s =
     (let s = cli s
      in if buf = 0 \<or> nbytes < 0 then Inr (-1, s)
         else and_then (deref_pcb s) (\<lambda>s.
              if argsflag (cur_pcb s) = 0 then Inr (-1, s)
              else if argbuf (cur_pcb s) ! 0 \<noteq> 0
              then let str = takeWhile (\<lambda>b. b \<noteq> 0) (argbuf (cur_pcb s))
                   in and_then (check (length str < length (argbuf (cur_pcb s))) OutOfBounds s) (\<lambda>s.
                      and_then (vwrite_bytes buf (str @ [0]) s) (\<lambda>s. Inr (0, sti s)))
              else Inr (-1, s)))"

definition vidmap_handler :: "addr \<Rightarrow> 'a kernel_scheme \<Rightarrow> (int \<times> 'a kernel_scheme) res" where
  "vidmap_handler screen_start s =
     (let s = cli s
      in if screen_start = 0 \<or> screen_start = uint KERNEL_MEM then Inr (-1, s)
         else let s = upd_dir 256 (set_base_pte (drop_bit 12 (page_virtual_mem_addr s))) s;
                  s = upd_dir 256 (set_read_write 1) s;
                  s = upd_dir 256 (set_present 1) s;
                  s = upd_dir 256 (set_user 1) s;
                  s = upd_dir 256 (set_ps 0) s;
                  s = upd_vmem 0 (set_base_pte (drop_bit 12 VIDEO_MEM)) s;
                  s = upd_vmem 0 (set_read_write 1) s;
                  s = upd_vmem 0 (set_user 1) s;
                  s = upd_vmem 0 (set_present 1) s;
                  s = flush_tlb s
              in and_then (vwrite_bytes screen_start [0, 0, 0, 0x40] s) (\<lambda>s. Inr (0, sti s)))"

section \<open>Frames\<close>

lemma xlate_kernel_fields [simp]:
  fixes s :: "'a kernel_scheme"
  shows "xlate (s\<lparr>pcb_at := v1\<rparr>) = xlate s" "xlate (s\<lparr>pcb_current := v2\<rparr>) = xlate s"
    "xlate (s\<lparr>program_count := v3\<rparr>) = xlate s" "xlate (s\<lparr>args_flag := v3\<rparr>) = xlate s"
    "xlate (s\<lparr>pid_arr := v4\<rparr>) = xlate s" "xlate (s\<lparr>sched_pid := v4\<rparr>) = xlate s"
    "xlate (s\<lparr>tss_ss0 := v5\<rparr>) = xlate s" "xlate (s\<lparr>tss_esp0 := v5\<rparr>) = xlate s"
  by (auto simp: fun_eq_iff xlate_def walk_def table_at_def Let_def split: option.splits)

lemma tables_ok_kernel_fields [simp]:
  fixes s :: "'a kernel_scheme"
  shows "tables_ok (s\<lparr>pcb_at := v1\<rparr>) = tables_ok s" "tables_ok (s\<lparr>pcb_current := v2\<rparr>) = tables_ok s"
    "tables_ok (s\<lparr>program_count := v3\<rparr>) = tables_ok s" "tables_ok (s\<lparr>args_flag := v3\<rparr>) = tables_ok s"
    "tables_ok (s\<lparr>pid_arr := v4\<rparr>) = tables_ok s" "tables_ok (s\<lparr>sched_pid := v4\<rparr>) = tables_ok s"
    "tables_ok (s\<lparr>tss_ss0 := v5\<rparr>) = tables_ok s" "tables_ok (s\<lparr>tss_esp0 := v5\<rparr>) = tables_ok s"
  by (simp_all add: tables_ok_def low_pde_def vidmap_pde_ok_def)

lemma terms_ok_kernel_fields [simp]:
  fixes s :: "'a kernel_scheme"
  shows "terms_ok (s\<lparr>pcb_at := v1\<rparr>) = terms_ok s" "terms_ok (s\<lparr>pcb_current := v2\<rparr>) = terms_ok s"
    "terms_ok (s\<lparr>program_count := v3\<rparr>) = terms_ok s" "terms_ok (s\<lparr>args_flag := v3\<rparr>) = terms_ok s"
    "terms_ok (s\<lparr>pid_arr := v4\<rparr>) = terms_ok s" "terms_ok (s\<lparr>sched_pid := v4\<rparr>) = terms_ok s"
    "terms_ok (s\<lparr>tss_ss0 := v5\<rparr>) = terms_ok s" "terms_ok (s\<lparr>tss_esp0 := v5\<rparr>) = terms_ok s"
  by (simp_all add: terms_ok_def base_ok_def cursor_ok_def)

lemma upd_pcb_fields [simp]:
  "pcb_current (upd_pcb a f s) = pcb_current s" "fsys (upd_pcb a f s) = fsys s"
  "pid_arr (upd_pcb a f s) = pid_arr s" "program_count (upd_pcb a f s) = program_count s"
  "sched_pid (upd_pcb a f s) = sched_pid s" "args_flag (upd_pcb a f s) = args_flag s"
  "pcb_at (upd_pcb a f s) a = f (pcb_at s a)" "b \<noteq> a \<Longrightarrow> pcb_at (upd_pcb a f s) b = pcb_at s b"
  "phys (upd_pcb a f s) = phys s" "int_flag (upd_pcb a f s) = int_flag s"
  "page_dir (upd_pcb a f s) = page_dir s" "curr_terminal (upd_pcb a f s) = curr_terminal s"
  "curr_process (upd_pcb a f s) = curr_process s" "xlate (upd_pcb a f s) = xlate s"
  "tables_ok (upd_pcb a f s) = tables_ok s" "terms_ok (upd_pcb a f s) = terms_ok s"
  by (simp_all add: upd_pcb_def)

lemma cli_sti_xlate [simp]: "xlate (cli s) = xlate s" "xlate (sti s) = xlate s"
  "tables_ok (cli s) = tables_ok s" "tables_ok (sti s) = tables_ok s"
  "page_dir (cli s) = page_dir s" "page_dir (sti s) = page_dir s"
  by (simp_all add: cli_def sti_def)

lemma cli_sti_terms [simp]:
  "terms_ok (cli s) = terms_ok s" "terms_ok (sti s) = terms_ok s"
  by (simp_all add: cli_def sti_def)

lemma cli_sti_kernel [simp]:
  "pcb_at (cli k) = pcb_at k" "pcb_at (sti k) = pcb_at k"
  "pcb_current (cli k) = pcb_current k" "pcb_current (sti k) = pcb_current k"
  "pid_arr (cli k) = pid_arr k" "pid_arr (sti k) = pid_arr k"
  "program_count (cli k) = program_count k" "program_count (sti k) = program_count k"
  "sched_pid (cli k) = sched_pid k" "sched_pid (sti k) = sched_pid k"
  "args_flag (cli k) = args_flag k" "args_flag (sti k) = args_flag k"
  "fsys (cli k) = fsys k" "fsys (sti k) = fsys k"
  "curr_terminal (cli k) = curr_terminal k" "curr_terminal (sti k) = curr_terminal k"
  "curr_process (cli k) = curr_process k" "curr_process (sti k) = curr_process k"
  by (simp_all add: cli_def sti_def)

lemma vview_cli_sti [simp]: "vview (cli s) = vview s" "vview (sti s) = vview s"
  by (simp_all add: vview_def cong: option.case_cong)

lemma vview_upd_pcb [simp]: "vview (upd_pcb a f s) = vview s"
  by (simp add: vview_def cong: option.case_cong)

lemma upd_fd_fields [simp]:
  "length (pcb_arr (upd_fd i f p)) = length (pcb_arr p)" "pid (upd_fd i f p) = pid p"
  "parent_pid (upd_fd i f p) = parent_pid p" "parent_pcb (upd_fd i f p) = parent_pcb p"
  "pcb_esp (upd_fd i f p) = pcb_esp p" "pcb_ebp (upd_fd i f p) = pcb_ebp p" "argbuf (upd_fd i f p) = argbuf p"
  "i < length (pcb_arr p) \<Longrightarrow> pcb_arr (upd_fd i f p) ! i = f (pcb_arr p ! i)"
  "j \<noteq> i \<Longrightarrow> pcb_arr (upd_fd i f p) ! j = pcb_arr p ! j"
  by (simp_all add: upd_fd_def)

text \<open>What \<open>set_frequency\<close> leaves alone, for the opening of the clock.\<close>

lemma rtc_open_frame:
  "\<exists>h t st b. snd (rtc_open dev s) = s\<lparr>rtc_status := st, rtc_tick := t, io_hist := h, int_flag := b\<rparr>"
  unfolding rtc_open_def set_frequency_def Let_def inb_def outb_def cli_def sti_def set_frequency_loop_eq
  by (simp only: snd_conv simp_thms) (simp, blast)

section \<open>What the kernel sees\<close>

lemma vview_kernel: "tables_ok s \<Longrightarrow> a \<in> kernel_page \<Longrightarrow> vview s a = phys s a"
  by (simp add: vview_def xlate_kernel kernel_page_def)

lemma vview_program:
  "tables_ok s \<Longrightarrow> mapped_slot s k \<Longrightarrow> k < 6 \<Longrightarrow> a \<in> {0x8000000..<0x8400000} \<Longrightarrow>
     vview s a = phys s (0x800000 + int k * 0x400000 + (a - 0x8000000))"
  by (simp add: vview_def xlate_program)

text \<open>
  A string that a reader, which may fault, finds at \<open>a\<close>: its bytes and its NUL can be read. For
  the memory of a process the reader is \<open>vread\<close>.
\<close>

fun rstr :: "(addr \<Rightarrow> u8 res) \<Rightarrow> addr \<Rightarrow> u8 list \<Rightarrow> bool" where
  "rstr rd a [] = (rd a = Inr 0)"
| "rstr rd a (b # bs) = (b \<noteq> 0 \<and> rd a = Inr b \<and> rstr rd (a + 1) bs)"

abbreviation user_string :: "'a kernel_scheme \<Rightarrow> addr \<Rightarrow> u8 list \<Rightarrow> bool" where
  "user_string s \<equiv> rstr (\<lambda>a. vread a s)"

lemma rstr_iff:
  "rstr rd a xs \<longleftrightarrow>
     (\<forall>i < length xs. rd (a + int i) = Inr (xs ! i)) \<and> 0 \<notin> set xs \<and> rd (a + int (length xs)) = Inr 0"
  by (induction xs arbitrary: a) (auto simp: less_Suc_eq_0_disj add.assoc all_conj_distrib ex_disj_distrib)

lemma rstr_total [simp]: "rstr (\<lambda>a. Inr (m a)) a xs = cstr m a xs"
  by (induction xs arbitrary: a) auto

lemma vread_Inr_iff: "vread a s = Inr b \<longleftrightarrow> xlate s a \<noteq> None \<and> vview s a = b"
  by (auto simp: vread_def vview_def split: option.split)

lemma user_string_cstr: "user_string s a xs \<Longrightarrow> cstr (vview s) a xs"
  by (auto simp: rstr_iff cstr_iff vread_Inr_iff)

lemma load_string_user: "user_string s a xs \<Longrightarrow> load_string a s = Inr s"
  using user_string_cstr [of s a xs] by (simp add: load_string_def strlen_cstr rstr_iff vread_Inr_iff)

lemma load_string_not_mapped:
  assumes "\<forall>i < n. vread (a + int i) s \<noteq> Inr 0" and "vread (a + int n) s = Inl e"
  shows "load_string a s = Inl PageFault"
proof -
  obtain k where k: "k \<le> n" "xlate s (a + int k) = None" "\<forall>i < k. xlate s (a + int i) \<noteq> None"
  proof -
    have "xlate s (a + int n) = None" using assms(2) by (simp add: vread_def split: option.splits)
    from ex_least_nat_le [of "\<lambda>k. xlate s (a + int k) = None", OF this] show ?thesis using that by blast
  qed
  have "vview s (a + int i) \<noteq> 0" if "i < k" for i
  proof -
    have "vread (a + int i) s \<noteq> Inr 0" using assms(1) k(1) that by simp
    then show ?thesis using k(3) that by (simp add: vread_Inr_iff)
  qed
  moreover have "vview s (a + int k) = 0" using k(2) by (simp add: vview_def)
  ultimately have "cstr (vview s) a (mread (vview s) a k)" by (auto simp: cstr_iff mread_def)
  from strlen_cstr [OF this] show ?thesis using k(2) by (simp add: load_string_def check_def)
qed

lemma user_string_kernel:
  assumes "tables_ok s" and "\<forall>i \<le> length xs. a + int i \<in> kernel_page" and "cstr (vview s) a xs"
  shows "user_string s a xs"
  using assms by (auto simp: rstr_iff cstr_iff vread_Inr_iff xlate_kernel kernel_page_def)

text \<open>A well-formed image that lies in the kernel's page.\<close>

definition fs_ok :: "'a kernel_scheme \<Rightarrow> bool" where
  "fs_ok s \<longleftrightarrow> fs_wf (vview s) (fsys s) \<and> (\<forall>a. in_image (vview s) (fsys s) a \<longrightarrow> a \<in> kernel_page)"

lemma same_image_frame:
  assumes "tables_ok s" and "tables_ok t" and "fs_ok s" and "\<forall>a \<in> kernel_page. phys t a = phys s a"
  shows "same_image (vview s) (vview t) (fsys s)"
  using assms by (auto simp: same_image_def fs_ok_def vview_kernel)

lemma fs_ok_frame:
  assumes "tables_ok s" and "tables_ok t" and "fs_ok s" and "fsys t = fsys s"
    and "\<forall>a \<in> kernel_page. phys t a = phys s a"
  shows "fs_ok t" and "inode_ok (vview s) (fsys s) i \<Longrightarrow> inode_ok (vview t) (fsys t) i"
    and "inode_ok (vview s) (fsys s) i \<Longrightarrow> readable (vview t) (fsys t) i = readable (vview s) (fsys s) i"
proof -
  have same: "same_image (vview s) (vview t) (fsys s)" using assms by (intro same_image_frame)
  have wf: "fs_wf (vview s) (fsys s)" using assms(3) by (simp add: fs_ok_def)
  show "fs_ok t" using assms(3,4) fs_wf_same [OF same wf] by (simp add: fs_ok_def in_image_same [OF same])
  show "inode_ok (vview s) (fsys s) i \<Longrightarrow> inode_ok (vview t) (fsys t) i"
    using inode_ok_same [OF wf _ same] assms(4) by simp
  show "inode_ok (vview s) (fsys s) i \<Longrightarrow> readable (vview t) (fsys t) i = readable (vview s) (fsys s) i"
    using readable_same [OF wf _ same] assms(4) by simp
qed

text \<open>A user buffer of \<open>n\<close> bytes at \<open>buf\<close>, and where it is in physical memory.\<close>

definition user_buffer :: "addr \<Rightarrow> nat \<Rightarrow> bool" where
  "user_buffer buf n \<longleftrightarrow> 0x8000000 \<le> buf \<and> buf + int n \<le> 0x8400000"

definition user_phys :: "nat \<Rightarrow> addr \<Rightarrow> addr" where
  "user_phys k buf = 0x800000 + int k * 0x400000 + (buf - 0x8000000)"

lemma user_phys_outside: "user_buffer buf n \<Longrightarrow> i < n \<Longrightarrow> user_phys k buf + int i \<notin> kernel_page"
  by (auto simp: user_phys_def user_buffer_def kernel_page_def)

lemma xlate_user:
  assumes "tables_ok s" and "mapped_slot s k" and "k < 6" and "user_buffer buf n" and "i < n"
  shows "xlate s (buf + int i) = Some (user_phys k buf + int i)"
  using assms xlate_program [OF assms(1-3), of "buf + int i"]
  by (auto simp: user_buffer_def user_phys_def)

lemma vwrite_user:
  assumes "tables_ok s" and "mapped_slot s k" and "k < 6" and "user_buffer buf (length bs)"
  shows "vwrite_bytes buf bs s = Inr (s\<lparr>phys := mwrite (phys s) (user_phys k buf) bs\<rparr>)"
  using xlate_user [OF assms] by (intro vwrite_bytes_eq) auto

lemma mapped_slot_phys [simp]: "mapped_slot (s\<lparr>phys := m\<rparr>) k = mapped_slot s k"
  by (simp add: mapped_slot_def)

lemma mwrite_user_kernel:
  "user_buffer buf (length bs) \<Longrightarrow> \<forall>a \<in> kernel_page. mwrite m (user_phys k buf) bs a = m a"
  by (auto simp: mwrite_apply user_buffer_def user_phys_def kernel_page_def)

lemma user_buffer_less: "user_buffer buf n \<Longrightarrow> k \<le> n \<Longrightarrow> user_buffer buf k"
  by (auto simp: user_buffer_def)

text \<open>\<open>read_data\<close> into a user buffer with room for what it returns.\<close>

lemma fs_read_eq:
  assumes "tables_ok s" and "mapped_slot s k" and "k < 6" and "fs_ok s" and "inode_ok (vview s) (fsys s) i"
    and "unat off + unat n < 2 ^ 31"
  defines "bytes \<equiv> take (unat n) (drop (unat off) (readable (vview s) (fsys s) i))"
  assumes "user_buffer buf (length bytes)"
  shows "fs_read (\<lambda>m. read_data m (fsys s) i off buf n) buf s =
           Inr (int (length bytes), s\<lparr>phys := mwrite (phys s) (user_phys k buf) bytes\<rparr>)"
proof -
  have "\<forall>j < unat n. \<not> in_image (vview s) (fsys s) (buf + int j)"
    using assms(4,8) by (force simp: fs_ok_def kernel_page_def user_buffer_def)
  then have "read_data (vview s) (fsys s) i off buf n = (int (length bytes), mwrite (vview s) buf bytes)"
    unfolding bytes_def using assms(4-6,8)
    by (intro read_data_eq) (auto simp: fs_ok_def user_buffer_def)
  then show ?thesis by (simp add: fs_read_def vwrite_user [OF assms(1-3,8)])
qed

section \<open>An example state\<close>

text \<open>
  The kernel after \<open>paging_initialize\<close> and \<open>init_terminal\<close>, with the one-file image of
  \<open>small_image\<close> at \<open>0x502000\<close> and slot 0 mapped; process 1 runs and has the file open as
  descriptor 2.
\<close>

definition closed_fd :: file_descriptor where
  "closed_fd = \<lparr>operations_pointer = terminal_operations_table, fd_inode = 0, file_position = 0, flags = 0\<rparr>"

definition empty_pcb :: pcb where
  "empty_pcb = \<lparr>pcb_arr = replicate 8 closed_fd, pid = 0, parent_pid = 0, pcb_esp = 0, kesp = 0, pcb_ebp = 0,
      pcb_ss0 = 0, pcb_esp0 = 0, argbuf = replicate 128 0, argsflag = 0, parent_pcb = 0, rtc_val = 0, rtc_flag = 0\<rparr>"

definition example_pcb :: pcb where
  "example_pcb = upd_fd 2 (init_fd filesystem_operations_table 0)
     (empty_pcb\<lparr>pid := 1, parent_pid := 1, parent_pcb := 0x7FE000\<rparr>)"

definition kernel_boot :: kernel where
  "kernel_boot = \<lparr>io_hist = [], int_flag = False, phys = (\<lambda>a. small_image (a - 0x500000)),
      master_mask = 0, slave_mask = 0,
      rtc_tick = 0, rtc_status = 0, page_dir = [], page_table = [],
      page_virtual_mem = replicate 1024 0, page_dir_addr = 0x410000, page_table_addr = 0x411000,
      page_virtual_mem_addr = 0x412000, cr3 = 0, paging_on = False,
      screen_x = 0, screen_y = 0, video_mem = 0xB8000, scrollFlag = 0,
      term_arr = replicate 3 \<lparr>t_screen_x = 0, t_screen_y = 0, keyBuf = replicate 127 0, visible = 0,
        vid_mem_addr = 0, newline_tracker = 0, enterFlag = 0\<rparr>,
      curr_terminal = 0, curr_process = 0, keyBuffer = replicate 127 0, keyBufferIndex = 0,
      mode = 0, ctrlPressed = 0, altPressed = 0,
      fsys = \<lparr>boot_block_addr = 0x502000, inode_addr = 0x503000, data_addr = 0x504000\<rparr>,
      pcb_at = (\<lambda>_. empty_pcb)(0x7FE000 := example_pcb), pcb_current = 0x7FE000, program_count = 1,
      args_flag = 0, pid_arr = [1, 0, 0, 0, 0, 0], sched_pid = [1, 0, 0], tss_ss0 = 0x18, tss_esp0 = 0x7FFFFC\<rparr>"

definition kernel_example :: kernel where
  "kernel_example = map_program_page 0 (init_terminal (paging_initialize kernel_boot))"

lemma pre_init_kernel_boot: "pre_init kernel_boot"
  by (simp add: pre_init_def kernel_boot_def)

lemma kernel_example_tables: "tables_ok kernel_example" "mapped_slot kernel_example 0"
  using terms_ok_init [OF pre_init_kernel_boot] tables_ok_map_program_page [of _ 0]
  by (auto simp: kernel_example_def terms_ok_def base_ok_def)

lemma kernel_example_fields:
  "phys kernel_example = phys kernel_boot" "fsys kernel_example = fsys kernel_boot"
  "pcb_at kernel_example = pcb_at kernel_boot" "pcb_current kernel_example = pcb_current kernel_boot"
  "program_count kernel_example = 1" "pid_arr kernel_example = [1, 0, 0, 0, 0, 0]"
  "sched_pid kernel_example = [1, 0, 0]"
proof -
  have len: "length (term_arr (paging_initialize kernel_boot)) = 3"
    by (simp add: paging_initialize_eq kernel_boot_def)
  show "phys kernel_example = phys kernel_boot" "fsys kernel_example = fsys kernel_boot"
    "pcb_at kernel_example = pcb_at kernel_boot" "pcb_current kernel_example = pcb_current kernel_boot"
    "program_count kernel_example = 1" "pid_arr kernel_example = [1, 0, 0, 0, 0, 0]"
    "sched_pid kernel_example = [1, 0, 0]"
    unfolding kernel_example_def init_terminal_fields [OF len]
    by (simp_all add: map_program_page_def Let_def upd_dir_def load_pde_def flush_tlb_def
        paging_initialize_eq kernel_boot_def)
qed

lemma load32_shift: "load32 (\<lambda>a. m (a - c)) x = load32 m (x - c)"
  by (simp add: load32_def algebra_simps)

lemma kernel_example_view:
  "a \<in> kernel_page \<Longrightarrow> vview kernel_example a = small_image (a - 0x500000)"
  using vview_kernel [OF kernel_example_tables(1)] by (simp add: kernel_example_fields kernel_boot_def)

lemma kernel_example_load:
  assumes "x \<in> kernel_page" and "x + 3 \<in> kernel_page"
  shows "load32 (vview kernel_example) x = load32 small_image (x - 0x500000)"
proof -
  have "load32 (vview kernel_example) x = load32 (\<lambda>a. small_image (a - 0x500000)) x"
    using assms by (intro load32_cong kernel_example_view) (auto simp: kernel_page_def)
  then show ?thesis by (simp only: load32_shift)
qed

lemma kernel_example_fs:
  "fs_ok kernel_example" "inode_ok (vview kernel_example) (fsys kernel_example) 0"
  "readable (vview kernel_example) (fsys kernel_example) 0 = [7, 8, 9, 0]"
proof -
  have f: "fsys kernel_example = \<lparr>boot_block_addr = 0x502000, inode_addr = 0x503000, data_addr = 0x504000\<rparr>"
    by (simp add: kernel_example_fields kernel_boot_def)
  have ld: "load32 (vview kernel_example) 0x502000 = 1" "load32 (vview kernel_example) 0x502004 = 1"
    "load32 (vview kernel_example) 0x502008 = 1" "load32 (vview kernel_example) 0x503000 = 3"
    "load32 (vview kernel_example) 0x503004 = 0"
    using small_image_loads by (simp_all add: kernel_example_load kernel_page_def inode_count_def)
  show "fs_ok kernel_example"
    by (auto simp: fs_ok_def f fs_wf_def filesystem_init_def inode_count_def dir_count_def ld in_image_def
        fs_size_def kernel_page_def)
  have "b = 0" if "0 \<le> b" "b \<le> (0::int)" for b using that by simp
  then show "inode_ok (vview kernel_example) (fsys kernel_example) 0"
    by (auto simp: f inode_ok_def inode_ptr_def inode_length_def data_block_num_def inode_count_def ld)
  show "readable (vview kernel_example) (fsys kernel_example) 0 = [7, 8, 9, 0]"
    by (simp add: f readable_def file_contents_def file_byte_def file_length_def inode_length_def inode_ptr_def
        data_block_num_def ld kernel_example_view kernel_page_def small_image_apply upt_rec)
qed

section \<open>The descriptor table\<close>

text \<open>
  What a process sees of its descriptors: a finite map from descriptor numbers to the
  operations, inode and position of the open file.
\<close>

definition fds_ok :: "pcb \<Rightarrow> bool" where
  "fds_ok p \<longleftrightarrow> length (pcb_arr p) = 8 \<and> (\<forall>i < 8. flags (pcb_arr p ! i) = 0 \<or> flags (pcb_arr p ! i) = 1)"

definition fd_map :: "pcb \<Rightarrow> nat \<rightharpoonup> fops \<times> u32 \<times> u32" where
  "fd_map p i = (if i < 8 \<and> flags (pcb_arr p ! i) = 1
     then Some (operations_pointer (pcb_arr p ! i), fd_inode (pcb_arr p ! i), file_position (pcb_arr p ! i))
     else None)"

text \<open>The lowest free descriptor from 2 on.\<close>

definition lowest_free :: "(nat \<rightharpoonup> 'v) \<Rightarrow> nat option" where
  "lowest_free M = find (\<lambda>i. M i = None) [2..<8]"

lemma find_cong: "(\<And>x. x \<in> set xs \<Longrightarrow> P x = Q x) \<Longrightarrow> find P xs = find Q xs"
  by (induction xs) auto

lemma free_fd_lowest: "fds_ok p \<Longrightarrow> free_fd p = lowest_free (fd_map p)"
  unfolding free_fd_def lowest_free_def by (rule find_cong) (auto simp: fds_ok_def fd_map_def simp del: upt_rec_numeral)

lemma lowest_free_SomeD:
  assumes "lowest_free M = Some i"
  shows "2 \<le> i" and "i < 8" and "M i = None" and "\<And>j. 2 \<le> j \<Longrightarrow> j < i \<Longrightarrow> M j \<noteq> None"
proof -
  obtain k where k: "k < length [2..<8::nat]" "M ([2..<8] ! k) = None" "i = [2..<8] ! k"
    "\<forall>j < k. M ([2..<8] ! j) \<noteq> None"
    using assms unfolding lowest_free_def find_Some_iff by blast
  then have i: "i = 2 + k" "k < 6" by (simp_all del: upt_rec_numeral)
  then show "2 \<le> i" "i < 8" by simp_all
  show "M i = None" using k(2,3) by simp
  have "M j \<noteq> None" if "2 \<le> j" "j < i" for j
  proof -
    from le_Suc_ex [OF that(1)] obtain l where "j = 2 + l" ..
    then show ?thesis using k(4) [rule_format, of l] that(2) i by (simp del: upt_rec_numeral)
  qed
  then show "\<And>j. 2 \<le> j \<Longrightarrow> j < i \<Longrightarrow> M j \<noteq> None" .
qed

lemma fd_map_upd_fd:
  assumes "length (pcb_arr p) = 8" and "i < 8" and "flags (f (pcb_arr p ! i)) = 1"
  shows "fd_map (upd_fd i f p) = (fd_map p)(i \<mapsto> (operations_pointer (f (pcb_arr p ! i)),
           fd_inode (f (pcb_arr p ! i)), file_position (f (pcb_arr p ! i))))"
  using assms by (auto simp: fun_eq_iff fd_map_def upd_fd_def nth_list_update)

lemma fd_map_clear_fd:
  assumes "length (pcb_arr p) = 8" and "i < 8" and "flags (f (pcb_arr p ! i)) = 0"
  shows "fd_map (upd_fd i f p) = (fd_map p)(i := None)"
  using assms by (auto simp: fun_eq_iff fd_map_def upd_fd_def nth_list_update)

lemma fds_ok_upd_fd:
  "fds_ok p \<Longrightarrow> i < 8 \<Longrightarrow> flags (f (pcb_arr p ! i)) = 0 \<or> flags (f (pcb_arr p ! i)) = 1 \<Longrightarrow> fds_ok (upd_fd i f p)"
  by (auto simp: fds_ok_def upd_fd_def nth_list_update)

lemma fds_rtc_flag [simp]: "fd_map (p\<lparr>rtc_flag := v\<rparr>) = fd_map p" "fds_ok (p\<lparr>rtc_flag := v\<rparr>) = fds_ok p"
  by (simp_all add: fun_eq_iff fd_map_def fds_ok_def)

lemma upd_pcb_upd_pcb: "upd_pcb a g (upd_pcb a f s) = upd_pcb a (g \<circ> f) s"
  by (simp add: upd_pcb_def)

lemma open_ptr_pcbs:
  fixes s :: "'a kernel_scheme"
  shows "pcb_at (snd (open_ptr dev ops s)) = pcb_at s" "pcb_current (snd (open_ptr dev ops s)) = pcb_current s"
    "fsys (snd (open_ptr dev ops s)) = fsys s"
proof -
  obtain h t st b where "snd (rtc_open dev s) = s\<lparr>rtc_status := st, rtc_tick := t, io_hist := h, int_flag := b\<rparr>"
    using rtc_open_frame by blast
  then show "pcb_at (snd (open_ptr dev ops s)) = pcb_at s"
    "pcb_current (snd (open_ptr dev ops s)) = pcb_current s" "fsys (snd (open_ptr dev ops s)) = fsys s"
    by (cases ops; simp add: open_ptr_def)+
qed

text \<open>The abstract \<open>open\<close>: the operations and inode of a directory entry go to the lowest free number.\<close>

definition open_abs :: "dentry option \<Rightarrow> (nat \<rightharpoonup> fops \<times> u32 \<times> u32) \<Rightarrow> int \<times> (nat \<rightharpoonup> fops \<times> u32 \<times> u32)" where
  "open_abs r M =
     (case Option.bind r (\<lambda>d. Option.bind (fops_of (filetype d)) (\<lambda>ops. map_option (\<lambda>i. (d, ops, i)) (lowest_free M))) of
        None \<Rightarrow> (-1, M)
      | Some (d, ops, i) \<Rightarrow> (int i, M(i \<mapsto> (ops, if filetype d = 2 then inode_num d else 0, 0))))"

lemma init_fd_order:
  "f\<lparr>file_position := 0, flags := 1, fd_inode := 0, operations_pointer := ops\<rparr> = init_fd ops 0 f"
  "(init_fd ops j f)\<lparr>fd_inode := i\<rparr> = init_fd ops i f"
  by (cases f; simp add: init_fd_def)+

lemma keep_rtc_flag: "\<exists>v. p\<lparr>pcb_arr := xs\<rparr> = p\<lparr>pcb_arr := xs, rtc_flag := v\<rparr>" for p :: pcb
  by (rule exI [of _ "rtc_flag p"]) (cases p, simp)

lemma open_dentry_pcb:
  assumes "fds_ok (cur_pcb s)" and "fops_of (filetype d) = Some ops" and "free_fd (cur_pcb s) = Some i"
  defines "f \<equiv> init_fd ops (if filetype d = 2 then inode_num d else 0)"
  shows "fst (open_dentry dev d s) = int i" and "int_flag (snd (open_dentry dev d s))"
    and "pcb_current (snd (open_dentry dev d s)) = pcb_current s" and "fsys (snd (open_dentry dev d s)) = fsys s"
    and "\<exists>v. cur_pcb (snd (open_dentry dev d s)) = (upd_fd i f (cur_pcb s))\<lparr>rtc_flag := v\<rparr>"
    and "\<And>a. a \<noteq> pcb_current s \<Longrightarrow> pcb_at (snd (open_dentry dev d s)) a = pcb_at s a"
proof -
  have i: "i < 8" using lowest_free_SomeD [of _ i] assms(1,3) by (auto simp: free_fd_lowest)
  have len: "length (pcb_arr (cur_pcb s)) = 8" using assms(1) by (simp add: fds_ok_def)
  obtain g where g: "open_dentry dev d s = (int i, sti (snd (open_ptr dev ops (upd_pcb (pcb_current s) g s))))"
    and gp: "\<exists>v. g (cur_pcb s) = (upd_fd i f (cur_pcb s))\<lparr>rtc_flag := v\<rparr>"
  proof -
    let ?g0 = "upd_fd i (\<lambda>f. f\<lparr>file_position := 0, flags := 1, fd_inode := 0\<rparr>)"
    let ?g1 = "upd_fd i (\<lambda>f. f\<lparr>operations_pointer := ops\<rparr>)"
    let ?g2 = "if filetype d = 0 then (\<lambda>q. q\<lparr>rtc_flag := 1\<rparr>) else id"
    let ?g3 = "if filetype d = 2 then upd_fd i (\<lambda>f. f\<lparr>fd_inode := inode_num d\<rparr>) else id"
    have "open_dentry dev d s =
        (int i, sti (snd (open_ptr dev ops (upd_pcb (pcb_current s) (?g3 \<circ> ?g2 \<circ> ?g1 \<circ> ?g0) s))))"
      using assms(2,3) by (simp add: open_dentry_def upd_pcb_upd_pcb comp_assoc Let_def split: prod.split)
    moreover have "\<exists>v. (?g3 \<circ> ?g2 \<circ> ?g1 \<circ> ?g0) (cur_pcb s) = (upd_fd i f (cur_pcb s))\<lparr>rtc_flag := v\<rparr>"
      using i len
      by (auto simp: upd_fd_def f_def init_fd_order intro: exI [of _ 1] intro!: keep_rtc_flag)
    ultimately show thesis by (rule that)
  qed
  show "fst (open_dentry dev d s) = int i" "int_flag (snd (open_dentry dev d s))" by (simp_all add: g)
  show "pcb_current (snd (open_dentry dev d s)) = pcb_current s" "fsys (snd (open_dentry dev d s)) = fsys s"
    by (simp_all add: g open_ptr_pcbs)
  show "\<exists>v. cur_pcb (snd (open_dentry dev d s)) = (upd_fd i f (cur_pcb s))\<lparr>rtc_flag := v\<rparr>"
    using gp by (simp add: g open_ptr_pcbs)
  show "\<And>a. a \<noteq> pcb_current s \<Longrightarrow> pcb_at (snd (open_dentry dev d s)) a = pcb_at s a"
    by (simp add: g open_ptr_pcbs)
qed

text \<open>A name matches a literal when it is a prefix of it.\<close>

lemma strncmp_literal:
  assumes "0 \<le> fname \<or> fname + int (length name) < -64" and "cstr m fname name" and "length lit < 64" and "0 \<notin> set (bytes_of lit)"
  shows "strncmp (with_literal (-64) lit m) fname (-64) (length name) = 0 \<longleftrightarrow> take (length name) (bytes_of lit) = name"
proof -
  have len: "length (bytes_of lit) = length lit" by (simp add: bytes_of_def)
  have "cstr (with_literal (-64) lit m) fname name"
    using assms(1-3) unfolding cstr_iff with_literal_def by (auto simp: mwrite_apply len)
  then have "cprefix (with_literal (-64) lit m) fname (length name) = name" by (simp add: cprefix_take)
  moreover have "cstr (with_literal (-64) lit m) (-64) (bytes_of lit)"
    using assms(4) by (auto simp: cstr_iff with_literal_def mwrite_apply nth_append)
  then have "cprefix (with_literal (-64) lit m) (-64) (length name) = take (length name) (bytes_of lit)"
    by (rule cprefix_take)
  ultimately show ?thesis
    using strncmp_loop_zero_iff [of "with_literal (-64) lit m" fname "-64" 0 "length name"]
    by (auto simp: strncmp_def)
qed

lemma literals_ok: "0 \<notin> set (bytes_of ''stdin'')" "0 \<notin> set (bytes_of ''stdout'')"
  by (simp_all add: bytes_of_def)

lemma open_named_file:
  assumes "pcb_current s \<noteq> 0" and "0 < fname" and "cstr m fname name" and "name \<noteq> []"
    and "take (length name) (bytes_of ''stdin'') \<noteq> name" and "take (length name) (bytes_of ''stdout'') \<noteq> name"
    and "read_dentry_by_name m (fsys s) fname = Inr r"
  shows "open_named dev m fname s =
           Inr (case r of None \<Rightarrow> (-1, cli s) | Some d \<Rightarrow> open_dentry dev d (cli s))"
proof -
  have "m fname \<noteq> 0" using assms(3,4) by (cases name) auto
  then show ?thesis
    using assms strncmp_literal [of fname name m "''stdin''"] strncmp_literal [of fname name m "''stdout''"]
    by (auto simp: open_named_def strlen_cstr deref_pcb_def literals_ok split: option.split)
qed

text \<open>What \<open>open\<close> promises of the state \<open>t\<close> and the result \<open>fd\<close>, for the lookup result \<open>r\<close>.\<close>

definition opened :: "dentry option \<Rightarrow> 'a kernel_scheme \<Rightarrow> int \<Rightarrow> 'a kernel_scheme \<Rightarrow> bool" where
  "opened r s fd t \<longleftrightarrow>
     (case (r, lowest_free (fd_map (cur_pcb s))) of
        (Some d, Some i) \<Rightarrow>
          if fops_of (filetype d) = None
          then fd = -1 \<and> dom (fd_map (cur_pcb t)) = insert i (dom (fd_map (cur_pcb s)))
          else (fd, fd_map (cur_pcb t)) = open_abs r (fd_map (cur_pcb s))
      | _ \<Rightarrow> (fd, fd_map (cur_pcb t)) = open_abs r (fd_map (cur_pcb s)))"

lemma open_dentry_bad_type:
  assumes "fds_ok (cur_pcb s)" and "lowest_free (fd_map (cur_pcb s)) = Some i" and "fops_of (filetype d) = None"
  shows "\<exists>t. open_dentry dev d s = (-1, t) \<and> opened (Some d) s (-1) t \<and> fds_ok (cur_pcb t)
     \<and> pcb_current t = pcb_current s \<and> (\<forall>a. a \<noteq> pcb_current s \<longrightarrow> pcb_at t a = pcb_at s a)
     \<and> int_flag t = int_flag s"
proof -
  let ?f = "\<lambda>f. f\<lparr>file_position := 0, flags := 1, fd_inode := 0\<rparr>"
  have "open_dentry dev d s = (-1, upd_pcb (pcb_current s) (upd_fd i ?f) s)"
    using assms by (simp add: open_dentry_def free_fd_lowest Let_def)
  moreover have "length (pcb_arr (cur_pcb s)) = 8" "i < 8"
    using assms(1) lowest_free_SomeD [OF assms(2)] by (simp_all add: fds_ok_def)
  ultimately show ?thesis
    using assms fd_map_upd_fd [of "cur_pcb s" i ?f] fds_ok_upd_fd [of "cur_pcb s" i ?f]
    by (simp add: opened_def)
qed

lemma open_dentry_good_type:
  assumes "fds_ok (cur_pcb s)" and "lowest_free (fd_map (cur_pcb s)) = Some i" and "fops_of (filetype d) = Some ops"
  shows "\<exists>t. open_dentry dev d s = (int i, t) \<and> opened (Some d) s (int i) t \<and> fds_ok (cur_pcb t)
     \<and> pcb_current t = pcb_current s \<and> (\<forall>a. a \<noteq> pcb_current s \<longrightarrow> pcb_at t a = pcb_at s a) \<and> int_flag t"
proof -
  let ?f = "init_fd ops (if filetype d = 2 then inode_num d else 0)" and ?t = "snd (open_dentry dev d s)"
  note od = open_dentry_pcb [where dev = dev, OF assms(1,3), unfolded free_fd_lowest [OF assms(1)], OF assms(2)]
  have "fd_map (cur_pcb ?t) = fd_map (upd_fd i ?f (cur_pcb s))"
    and "fds_ok (cur_pcb ?t) = fds_ok (upd_fd i ?f (cur_pcb s))"
    using od(5) by auto
  moreover have "length (pcb_arr (cur_pcb s)) = 8" "i < 8"
    using assms(1) lowest_free_SomeD [OF assms(2)] by (simp_all add: fds_ok_def)
  ultimately show ?thesis
    using assms od(1-3,6) fd_map_upd_fd [of "cur_pcb s" i ?f] fds_ok_upd_fd [of "cur_pcb s" i ?f]
    by (cases "open_dentry dev d s") (simp add: opened_def open_abs_def init_fd_def)
qed

lemma open_dentry_opened:
  assumes "fds_ok (cur_pcb s)" and "\<not> int_flag s"
  shows "\<exists>fd t. open_dentry dev d s = (fd, t) \<and> opened (Some d) s fd t \<and> fds_ok (cur_pcb t)
     \<and> pcb_current t = pcb_current s \<and> (\<forall>a. a \<noteq> pcb_current s \<longrightarrow> pcb_at t a = pcb_at s a)
     \<and> (int_flag t \<longleftrightarrow> 0 \<le> fd)"
proof (cases "lowest_free (fd_map (cur_pcb s))")
  case None
  then have "open_dentry dev d s = (-1, s)" using assms(1) by (simp add: open_dentry_def free_fd_lowest)
  then show ?thesis
    using assms None by (cases "fops_of (filetype d)") (simp_all add: opened_def open_abs_def)
next
  case (Some i)
  show ?thesis
  proof (cases "fops_of (filetype d)")
    case None
    then show ?thesis using open_dentry_bad_type [OF assms(1) Some None, of dev] assms(2) by auto
  next
    case (Some ops)
    then show ?thesis
      using open_dentry_good_type [OF assms(1) \<open>lowest_free _ = Some i\<close> Some, of dev] by force
  qed
qed

lemma open_handler_opened:
  assumes "pcb_current s \<noteq> 0" and "fds_ok (cur_pcb s)"
    and "0 < fname" and "user_string s fname name" and "name \<noteq> []"
    and "take (length name) (bytes_of ''stdin'') \<noteq> name" and "take (length name) (bytes_of ''stdout'') \<noteq> name"
    and "read_dentry_by_name (vview s) (fsys s) fname = Inr r"
  shows "\<exists>fd t. open_handler dev fname s = Inr (fd, t) \<and> opened r s fd t \<and> fds_ok (cur_pcb t)
     \<and> pcb_current t = pcb_current s \<and> (\<forall>a. a \<noteq> pcb_current s \<longrightarrow> pcb_at t a = pcb_at s a)
     \<and> (int_flag t \<longleftrightarrow> 0 \<le> fd)"
proof (cases r)
  case None
  then show ?thesis
    using open_named_file [OF assms(1,3) user_string_cstr [OF assms(4)] assms(5-8), of dev] assms(2,3)
      load_string_user [OF assms(4)]
    by (simp add: open_handler_def opened_def open_abs_def)
next
  case (Some d)
  moreover have "opened (Some d) (cli s) = opened (Some d) s" by (simp add: fun_eq_iff opened_def cong: option.case_cong)
  ultimately show ?thesis
    using open_named_file [OF assms(1,3) user_string_cstr [OF assms(4)] assms(5-8), of dev]
      open_dentry_opened [of "cli s" dev d] assms(2,3) load_string_user [OF assms(4)]
    by (auto simp: open_handler_def)
qed

text \<open>The names that \<open>open_handler\<close> takes for the terminal: the prefixes of ``stdin'' and ``stdout''.\<close>

definition std_fd :: "u8 list \<Rightarrow> nat option" where
  "std_fd name =
     (if take (length name) (bytes_of ''stdin'') = name then Some 0
      else if take (length name) (bytes_of ''stdout'') = name then Some 1 else None)"

lemma std_fd_NoneD:
  "std_fd name = None \<Longrightarrow> take (length name) (bytes_of ''stdin'') \<noteq> name"
  "std_fd name = None \<Longrightarrow> take (length name) (bytes_of ''stdout'') \<noteq> name"
  by (auto simp: std_fd_def split: if_splits)

lemma open_handler_std:
  assumes "pcb_current s \<noteq> 0" and "fds_ok (cur_pcb s)" and "0 < fname" and "user_string s fname name"
    and "name \<noteq> []" and "std_fd name = Some i"
  shows "\<exists>t. open_handler dev fname s = Inr (int i, t) \<and> fds_ok (cur_pcb t)
     \<and> fd_map (cur_pcb t) = (fd_map (cur_pcb s))(i \<mapsto> (terminal_operations_table, 0, 0))
     \<and> pcb_current t = pcb_current s \<and> (\<forall>a. a \<noteq> pcb_current s \<longrightarrow> pcb_at t a = pcb_at s a) \<and> \<not> int_flag t"
proof -
  let ?g = "init_fd terminal_operations_table 0"
  note c = user_string_cstr [OF assms(4)]
  have nz: "vview s fname \<noteq> 0" using c assms(5) by (cases name) auto
  have i: "i < 8" using assms(6) by (auto simp: std_fd_def split: if_splits)
  have "open_handler dev fname s = Inr (int i, upd_pcb (pcb_current s) (upd_fd i ?g) (cli s))"
    using assms(1,3,6) nz load_string_user [OF assms(4)]
      strncmp_literal [of fname name "vview s" "''stdin''"] strncmp_literal [of fname name "vview s" "''stdout''"] c
    by (auto simp: open_handler_def open_named_def strlen_cstr [OF c] deref_pcb_def literals_ok std_fd_def
        split: if_splits)
  moreover have "fds_ok (upd_fd i ?g (cur_pcb s))"
    using assms(2) i by (intro fds_ok_upd_fd) (simp_all add: init_fd_def)
  moreover have "fd_map (upd_fd i ?g (cur_pcb s)) = (fd_map (cur_pcb s))(i \<mapsto> (terminal_operations_table, 0, 0))"
    using assms(2) i by (subst fd_map_upd_fd) (simp_all add: init_fd_def fds_ok_def)
  ultimately show ?thesis by simp
qed

lemma close_handler_eq:
  assumes "pcb_current s \<noteq> 0" and "fds_ok (cur_pcb s)" and "2 \<le> fd" and "fd < 8"
  shows "close_handler fd s =
     (if fd_map (cur_pcb s) (nat fd) = None then (-1, cli s)
      else (0, sti (upd_pcb (pcb_current s) (upd_fd (nat fd) (\<lambda>f. f\<lparr>flags := 0\<rparr>)) (cli s))))"
proof -
  have "nat fd < 8" using assms(3,4) by simp
  then have "flags (pcb_arr (cur_pcb s) ! nat fd) = 0 \<or> flags (pcb_arr (cur_pcb s) ! nat fd) = 1"
    using assms(2) by (simp add: fds_ok_def)
  then show ?thesis using assms \<open>nat fd < 8\<close> by (auto simp: close_handler_def fd_map_def Let_def)
qed

section \<open>Properties\<close>

text \<open>
  C8. Opening a file implements the abstract \<open>open_abs\<close> on the descriptor map of the process, for
  a name that is mapped up to its NUL and not a prefix of ``stdin'' or ``stdout'', with \<open>r\<close> the
  result of the name lookup: the lowest free number from 2 to 7 gets the operations and the
  inode of the entry at position 0, and a missing name or a full table is -1 and no change. For
  an entry of an unknown type the result is -1 too, but the descriptor stays taken. Interrupts
  are enabled exactly when the call succeeds. Every non-empty prefix of ``stdin'' or ``stdout''
  opens the terminal as descriptor 0 or 1 instead, whatever files there are, and leaves the
  interrupts disabled. No other process is touched.
\<close>

theorem open_handler_refines:
  assumes "pcb_current s \<noteq> 0" and "fds_ok (cur_pcb s)" and "fs_ok s"
    and "0 < fname" and "user_string s fname name" and "name \<noteq> []"
    and "read_dentry_by_name (vview s) (fsys s) fname = Inr r"
  shows "\<exists>fd t. open_handler dev fname s = Inr (fd, t)
     \<and> pcb_current t = pcb_current s \<and> (\<forall>a. a \<noteq> pcb_current s \<longrightarrow> pcb_at t a = pcb_at s a)
     \<and> fds_ok (cur_pcb t)
     \<and> (case std_fd name of
           Some i \<Rightarrow> fd = int i \<and> \<not> int_flag t
             \<and> fd_map (cur_pcb t) = (fd_map (cur_pcb s))(i \<mapsto> (terminal_operations_table, 0, 0))
         | None \<Rightarrow> (int_flag t \<longleftrightarrow> 0 \<le> fd)
             \<and> (case (r, lowest_free (fd_map (cur_pcb s))) of
                  (Some d, Some i) \<Rightarrow>
                    if fops_of (filetype d) = None
                    then fd = -1 \<and> dom (fd_map (cur_pcb t)) = insert i (dom (fd_map (cur_pcb s)))
                    else (fd, fd_map (cur_pcb t)) = open_abs r (fd_map (cur_pcb s))
                | _ \<Rightarrow> (fd, fd_map (cur_pcb t)) = open_abs r (fd_map (cur_pcb s))))"
proof (cases "std_fd name")
  case None
  obtain fd t where o: "open_handler dev fname s = Inr (fd, t)" "opened r s fd t" "fds_ok (cur_pcb t)"
    "pcb_current t = pcb_current s" "\<forall>a. a \<noteq> pcb_current s \<longrightarrow> pcb_at t a = pcb_at s a"
    "int_flag t \<longleftrightarrow> 0 \<le> fd"
    using open_handler_opened [OF assms(1,2,4,5,6) std_fd_NoneD [OF None] assms(7), of dev] by blast
  then show ?thesis
    using None by (intro exI [of _ fd] exI [of _ t] conjI) (simp_all only: opened_def option.case)
next
  case (Some i)
  then show ?thesis using open_handler_std [OF assms(1,2,4,5,6) Some, of dev] by auto
qed

lemma kernel_example_pcb:
  "pcb_current kernel_example = 0x7FE000" "cur_pcb kernel_example = example_pcb" "fds_ok example_pcb"
  "fd_map example_pcb = [2 \<mapsto> (filesystem_operations_table, 0, 0)]"
proof -
  show "pcb_current kernel_example = 0x7FE000" "cur_pcb kernel_example = example_pcb"
    by (simp_all add: kernel_example_fields kernel_boot_def)
  show "fds_ok example_pcb"
    by (auto simp: fds_ok_def example_pcb_def empty_pcb_def closed_fd_def upd_fd_def init_fd_def nth_list_update)
  show "fd_map example_pcb = [2 \<mapsto> (filesystem_operations_table, 0, 0)]"
    by (auto simp: fun_eq_iff fd_map_def example_pcb_def empty_pcb_def closed_fd_def upd_fd_def init_fd_def
        nth_list_update)
qed

text \<open>The name of the only file, and what the lookup gives.\<close>

definition name_example :: kernel where
  "name_example = kernel_example\<lparr>phys := (phys kernel_example)(0x600000 := 97)\<rparr>"

lemma name_example_pcb:
  "pcb_current name_example = 0x7FE000" "pcb_at name_example 0x7FE000 = example_pcb"
  by (simp_all add: name_example_def kernel_example_fields kernel_boot_def)

lemma name_example_view:
  assumes "a \<in> kernel_page"
  shows "vview name_example a = (if a = 0x600000 then 97 else small_image (a - 0x500000))"
proof -
  have "tables_ok name_example" using kernel_example_tables(1) by (simp add: name_example_def)
  then show ?thesis
    using assms by (simp add: vview_kernel name_example_def kernel_example_fields kernel_boot_def)
qed

lemma name_example_fs: "tables_ok name_example" "fs_ok name_example"
proof -
  show t: "tables_ok name_example" using kernel_example_tables(1) by (simp add: name_example_def)
  have f: "fsys name_example = \<lparr>boot_block_addr = 0x502000, inode_addr = 0x503000, data_addr = 0x504000\<rparr>"
    by (simp add: name_example_def kernel_example_fields kernel_boot_def)
  have ld: "load32 (vview name_example) 0x502000 = 1" "load32 (vview name_example) 0x502004 = 1"
    "load32 (vview name_example) 0x502008 = 1"
    by (simp_all add: load32_def name_example_view kernel_page_def small_image_apply)
  show "fs_ok name_example"
    by (auto simp: fs_ok_def f fs_wf_def filesystem_init_def inode_count_def dir_count_def ld in_image_def
        fs_size_def kernel_page_def)
qed

lemma name_example_lookup:
  "user_string name_example 0x600000 [97]"
  "\<exists>d. read_dentry_by_name (vview name_example) (fsys name_example) 0x600000 = Inr (Some d)
     \<and> filetype d = 2 \<and> inode_num d = 0"
proof -
  let ?m = "vview name_example" and ?f = "fsys name_example"
  let ?d = "load_dentry ?m (direntry_addr ?f 0)"
  have name: "cstr ?m 0x600000 [97]" by (simp add: name_example_view kernel_page_def small_image_apply)
  then show "user_string name_example 0x600000 [97]"
    using name_example_fs(1) by (intro user_string_kernel) (auto simp: kernel_page_def)
  have f: "direntry_addr ?f 0 = 0x502040"
    by (simp add: name_example_def kernel_example_fields kernel_boot_def direntry_addr_def)
  have "filename ?d = 97 # replicate 31 0"
    by (rule nth_equalityI)
      (auto simp: load_dentry_def f name_example_view kernel_page_def small_image_apply nth_Cons' not_less)
  then have "takeWhile (\<lambda>b. b \<noteq> 0) (filename ?d) = [97]" by simp
  moreover have "[0..<64] = 0 # [Suc 0..<64]" by (simp add: upt_conv_Cons)
  ultimately have "read_dentry_loop ?m ?f 0x600000 0 64 = Some ?d"
    using read_dentry_loop_eq [OF name, of ?f 0 64] by (simp add: entry_name_def del: upt_Suc upt_rec_numeral)
  moreover have "filetype ?d = 2" "inode_num ?d = 0"
    by (simp_all add: load_dentry_def f load32_def name_example_view kernel_page_def small_image_apply)
  ultimately show "\<exists>d. read_dentry_by_name ?m ?f 0x600000 = Inr (Some d) \<and> filetype d = 2 \<and> inode_num d = 0"
    by (simp add: read_dentry_by_name_def strlen_cstr [OF name])
qed

theorem open_handler_refines_witness:
  "\<exists>t. open_handler (\<lambda>_ _. 0) 0x600000 name_example = Inr (3, t)
     \<and> fd_map (cur_pcb t) = [2 \<mapsto> (filesystem_operations_table, 0, 0), 3 \<mapsto> (filesystem_operations_table, 0, 0)]"
proof -
  obtain d where d: "read_dentry_by_name (vview name_example) (fsys name_example) 0x600000 = Inr (Some d)"
    "filetype d = 2" "inode_num d = 0" using name_example_lookup(2) by blast
  note p = name_example_pcb
  have "lowest_free [2 \<mapsto> e] = Some 3" for e :: "fops \<times> u32 \<times> u32" by (simp add: lowest_free_def)
  then show ?thesis
    using open_handler_refines [OF _ _ name_example_fs(2) _ name_example_lookup(1) _ d(1), of "\<lambda>_ _. 0"] d(2,3)
    by (auto simp: p kernel_example_pcb bytes_of_def std_fd_def open_abs_def fops_of_def)
qed

lemma close_handler_map:
  fixes fd :: int and s :: "'a kernel_scheme"
  assumes "pcb_current s \<noteq> 0" and "fds_ok (cur_pcb s)"
  defines "isopen \<equiv> 2 \<le> fd \<and> fd \<le> 7 \<and> fd_map (cur_pcb s) (nat fd) \<noteq> None"
  shows "\<exists>u. close_handler fd s = (if isopen then 0 else -1, u) \<and> (int_flag u \<longleftrightarrow> isopen)
     \<and> fd_map (cur_pcb u) = (if isopen then (fd_map (cur_pcb s))(nat fd := None) else fd_map (cur_pcb s))
     \<and> (\<forall>a. a \<noteq> pcb_current s \<longrightarrow> pcb_at u a = pcb_at s a)"
proof (cases isopen)
  case True
  let ?g = "\<lambda>f. f\<lparr>flags := 0\<rparr>"
  have fd: "2 \<le> fd" "fd < 8" "fd_map (cur_pcb s) (nat fd) \<noteq> None" using True by (auto simp: isopen_def)
  have "fd_map (upd_fd (nat fd) ?g (cur_pcb s)) = (fd_map (cur_pcb s))(nat fd := None)"
    using assms(2) fd by (intro fd_map_clear_fd) (auto simp: fds_ok_def)
  then show ?thesis using True close_handler_eq [OF assms(1,2) fd(1,2)] fd(3) by simp
next
  case False
  have "close_handler fd s = (-1, cli s)"
    using False assms(1) close_handler_eq [OF assms(1,2), of fd]
    by (cases "2 \<le> fd \<and> fd \<le> 7") (auto simp: isopen_def close_handler_def Let_def)
  then show ?thesis using False by simp
qed



text \<open>
  C10. Reading an open file: with the file system image in the kernel's page, the program's slot
  \<open>k\<close> mapped, and a buffer of \<open>n\<close> bytes in the program's page, \<open>read\<close> of a file descriptor
  returns the next bytes of the file (and the byte after it, once), puts them in the buffer
  and nowhere else in physical memory, and advances the position by their number; the page
  tables and the file's contents are as before, so the next call continues where this one
  stopped.
\<close>

theorem read_handler_file:
  assumes "tables_ok s" and "mapped_slot s k" and "k < 6" and "fs_ok s" and "inode_ok (vview s) (fsys s) i"
    and "pcb_current s \<noteq> 0" and "fds_ok (cur_pcb s)" and "2 \<le> fd"
    and "fd_map (cur_pcb s) (nat fd) = Some (filesystem_operations_table, i, pos)"
    and "user_buffer buf n" and "unat pos + n < 2 ^ 31"
  defines "bytes \<equiv> take n (drop (unat pos) (readable (vview s) (fsys s) i))"
  shows "\<exists>t. read_handler dev ints sched fd buf (int n) s = Some (Inr (int (length bytes), t))
     \<and> mread (vview t) buf (length bytes) = bytes
     \<and> phys t = mwrite (phys s) (user_phys k buf) bytes
     \<and> fd_map (cur_pcb t) = (fd_map (cur_pcb s))(nat fd \<mapsto>
            (filesystem_operations_table, i, pos + of_nat (length bytes)))
     \<and> tables_ok t \<and> mapped_slot t k \<and> fs_ok t \<and> readable (vview t) (fsys t) i = readable (vview s) (fsys s) i"
proof -
  let ?p = "cur_pcb s" and ?i = "nat fd"
  let ?s1 = "s\<lparr>phys := mwrite (phys s) (user_phys k buf) bytes\<rparr>"
  let ?g = "\<lambda>f. f\<lparr>file_position := file_position f + word_of_int (int (length bytes))\<rparr>"
  let ?t = "upd_pcb (pcb_current s) (upd_fd ?i ?g) ?s1"
  have n: "unat (word_of_int (int n) :: u32) = n"
    using assms(11) by (simp add: of_int_of_nat_eq unat_of_nat take_bit_nat_eq_self)
  have fd: "?i < 8" "fd \<le> 7" "buf \<noteq> 0" "flags (pcb_arr ?p ! ?i) = 1"
    and e: "operations_pointer (pcb_arr ?p ! ?i) = filesystem_operations_table" "fd_inode (pcb_arr ?p ! ?i) = i"
      "file_position (pcb_arr ?p ! ?i) = pos"
    using assms(8-10) by (auto simp: fd_map_def user_buffer_def split: if_splits)
  have ub: "user_buffer buf (length bytes)" using assms(10) by (rule user_buffer_less) (simp add: bytes_def)
  have "fs_read (\<lambda>m. file_read m (fsys s) i pos buf (word_of_int (int n))) buf s = Inr (int (length bytes), ?s1)"
    using fs_read_eq [OF assms(1-5), of pos "word_of_int (int n)" buf] ub assms(11)
    unfolding n bytes_def file_read_def by simp
  then have r: "read_handler dev ints sched fd buf (int n) s = Some (Inr (int (length bytes), ?t))"
    using fd e assms(6,8) by (simp add: read_handler_def read_ptr_def)
  have ok: "tables_ok ?t" "mapped_slot ?t k" using assms(1,2) by (simp_all add: mapped_slot_def)
  have kp: "\<forall>a \<in> kernel_page. phys ?t a = phys s a" using mwrite_user_kernel [OF ub] by simp
  have "vview ?t (buf + int j) = bytes ! j" if "j < length bytes" for j
    using xlate_user [OF ok assms(3) ub that] that by (simp add: vview_def mwrite_inside)
  then have "mread (vview ?t) buf (length bytes) = bytes" by (intro nth_equalityI) simp_all
  moreover have "fd_map (cur_pcb ?t) = (fd_map ?p)(?i \<mapsto>
      (filesystem_operations_table, i, pos + of_nat (length bytes)))"
    using fd e assms(7) fd_map_upd_fd [of ?p ?i ?g] by (simp add: fds_ok_def of_int_of_nat_eq)
  ultimately show ?thesis
    using r ok fs_ok_frame [OF assms(1) ok(1) assms(4) _ kp] assms(5)
    by (intro exI [of _ ?t] conjI) simp_all
qed

theorem read_handler_file_witness:
  "\<exists>t. read_handler (\<lambda>_ _. 0) [] [] 2 0x8100000 2 kernel_example = Some (Inr (2, t))
     \<and> vview t 0x8100000 = 7 \<and> vview t 0x8100001 = 8
     \<and> fd_map (cur_pcb t) 2 = Some (filesystem_operations_table, 0, 2)"
proof -
  note k = kernel_example_pcb and f = kernel_example_fs
  have p: "pcb_at kernel_example 0x7FE000 = example_pcb" using k by simp
  have "user_buffer 0x8100000 2" by (simp add: user_buffer_def)
  then show ?thesis
    using read_handler_file [OF kernel_example_tables _ f(1,2), of 2 0 "0x8100000" 2 "\<lambda>_ _. 0" "[]" "[]"]
    by (auto simp: k p f mread_Suc)
qed

text \<open>What \<open>vidmap_handler\<close> does to the page tables.\<close>

definition vidmap_pde :: "u32 \<Rightarrow> u32 \<Rightarrow> u32" where
  "vidmap_pde base e = set_ps 0 (set_user 1 (set_present 1 (set_read_write 1 (set_base_pte base e))))"

definition vidmapped :: "'a kernel_scheme \<Rightarrow> 'a kernel_scheme" where
  "vidmapped s = upd_vmem 0 (map_frame 0xB8) (upd_dir 256 (vidmap_pde (drop_bit 12 (page_virtual_mem_addr s))) s)"

lemma upd_dir_upd_dir: "upd_dir i g (upd_dir i f s) = upd_dir i (g \<circ> f) s"
  by (cases "i < length (page_dir s)") (simp_all add: upd_dir_def list_update_beyond)

lemma upd_vmem_upd_vmem: "upd_vmem i g (upd_vmem i f s) = upd_vmem i (g \<circ> f) s"
  by (cases "i < length (page_virtual_mem s)") (simp_all add: upd_vmem_def list_update_beyond)

lemma vidmap_handler_eq:
  assumes "a \<noteq> 0" and "a \<noteq> 0x400000"
  shows "vidmap_handler a s =
     and_then (vwrite_bytes a [0, 0, 0, 0x40] (vidmapped (cli s))) (\<lambda>s. Inr (0, sti s))"
proof -
  have "set_present 1 \<circ> (set_user 1 \<circ> (set_read_write 1 \<circ> set_base_pte f)) = map_frame f" for f
    by (rule ext) (simp only: o_apply map_frame_order)
  moreover have "set_ps 0 \<circ> (set_user 1 \<circ> (set_present 1 \<circ> (set_read_write 1 \<circ> set_base_pte f))) = vidmap_pde f" for f
    by (simp add: fun_eq_iff vidmap_pde_def)
  ultimately show ?thesis
    using assms by (simp add: vidmap_handler_def Let_def upd_dir_upd_dir upd_vmem_upd_vmem comp_assoc vidmapped_def cli_def)
qed

lemma page_base_20: "take_bit 20 (drop_bit 12 a) = drop_bit 12 a" for a :: u32
  by (rule bit_word_eqI) (auto simp: bit_simps dest: bit_imp_le_length)

lemma vidmapped_ok:
  assumes "tables_ok s"
  shows "tables_ok (vidmapped s)" and "page_dir (vidmapped s) ! 32 = page_dir s ! 32"
    and "\<And>d. 0 \<le> d \<Longrightarrow> d < 0x1000 \<Longrightarrow> user_xlate (vidmapped s) (0x40000000 + d) = Some (0xB8000 + d)"
proof -
  let ?e = "vidmap_pde (drop_bit 12 (page_virtual_mem_addr s)) (page_dir s ! 256)"
  have e: "get_present ?e = 1" "get_ps ?e = 0" "get_user ?e = 1" "get_base_pte ?e = drop_bit 12 (page_virtual_mem_addr s)"
    by (simp_all add: vidmap_pde_def page_base_20)
  have m: "get_present (map_frame 0xB8 x) = 1" "get_user (map_frame 0xB8 x) = 1" "get_base_pte (map_frame 0xB8 x) = 0xB8" for x
    by (simp_all add: map_frame_def)
  have "tables_ok (upd_dir 256 (vidmap_pde (drop_bit 12 (page_virtual_mem_addr s))) s)"
    using assms e by (auto simp: tables_ok_def upd_dir_def low_pde_def vidmap_pde_ok_def)
  then show ok: "tables_ok (vidmapped s)"
    unfolding vidmapped_def by (intro tables_ok_upd_vmem map_frame_safe) simp_all
  show "page_dir (vidmapped s) ! 32 = page_dir s ! 32" by (simp add: vidmapped_def upd_vmem_def upd_dir_def)
  have "page_dir (vidmapped s) ! 256 = ?e" "page_virtual_mem (vidmapped s) ! 0 = map_frame 0xB8 (page_virtual_mem s ! 0)"
    "page_virtual_mem_addr (vidmapped s) = page_virtual_mem_addr s"
    using assms by (simp_all add: vidmapped_def upd_vmem_def upd_dir_def tables_ok_def)
  moreover have "(0x40000000 + d) div 0x400000 = 256" "(0x40000000 + d) mod 0x400000 = d"
    "(0x40000000 + d) mod 0x1000 = d" "d div 0x1000 = 0" if "0 \<le> d" "d < 0x1000" for d :: int
    using that by (simp_all add: div_add1_eq mod_add_eq [symmetric])
  ultimately show "user_xlate (vidmapped s) (0x40000000 + d) = Some (0xB8000 + d)"
    if "0 \<le> d" "d < 0x1000" for d
    using that ok e m table_at_ok(2) [OF ok] by (simp add: user_xlate_def walk_def Let_def tables_ok_def)
qed

text \<open>
  C11. \<open>vidmap\<close> gives a program the screen: for a pointer in the program's page the call is 0, the
  page at 1 GB reaches video memory at user level, that address is what the program finds
  behind its pointer, the page tables stay well formed with the same program page, and no
  byte of the kernel's page changes. The guard refuses the null pointer and the first byte of
  the kernel's page only: any other address \<open>p\<close> in the kernel's page is written.
\<close>

theorem vidmap_maps_screen:
  assumes "tables_ok s" and "mapped_slot s k" and "k < 6" and "user_buffer a 4"
    and "p \<in> kernel_page" and "p + 3 \<in> kernel_page" and "p \<noteq> 0x400000"
  shows "(\<exists>t. vidmap_handler a s = Inr (0, t) \<and> tables_ok t \<and> mapped_slot t k \<and> int_flag t
            \<and> load32 (vview t) a = 0x40000000 \<and> (\<forall>b \<in> kernel_page. phys t b = phys s b)
            \<and> (\<forall>d. 0 \<le> d \<and> d < 0x1000 \<longrightarrow> user_xlate t (0x40000000 + d) = Some (0xB8000 + d)))
       \<and> (\<exists>t. vidmap_handler p s = Inr (0, t) \<and> load32 (phys t) p = 0x40000000)
       \<and> vidmap_handler 0 s = Inr (-1, cli s) \<and> vidmap_handler 0x400000 s = Inr (-1, cli s)"
proof -
  let ?v = "vidmapped (cli s)" and ?bs = "[0, 0, 0, 0x40] :: u8 list"
  have ok: "tables_ok ?v" and slot: "mapped_slot ?v k"
    using vidmapped_ok(1,2) [of "cli s"] assms(1,2) by (simp_all add: mapped_slot_def)
  have ph: "phys ?v = phys s" by (simp add: vidmapped_def upd_vmem_def upd_dir_def cli_def)
  have ld: "load32 m b = 0x40000000" if "\<forall>i < 4. m (b + int i) = ?bs ! i" for m b
    using that [rule_format, of 0] that [rule_format, of 1] that [rule_format, of 2] that [rule_format, of 3]
    by (simp add: load32_def)
  let ?t = "sti (?v\<lparr>phys := mwrite (phys s) (user_phys k a) ?bs\<rparr>)"
  have kp: "\<forall>b \<in> kernel_page. mwrite (phys s) (user_phys k a) ?bs b = phys s b"
    using assms(4) by (intro mwrite_user_kernel) (simp add: eval_nat_numeral)
  have "vview ?t (a + int i) = ?bs ! i" if "i < 4" for i
    using xlate_user [OF ok slot assms(3,4) that] that by (simp add: vview_def mwrite_inside del: mwrite.simps)
  moreover have "user_xlate ?t = user_xlate ?v"
    by (auto simp: fun_eq_iff user_xlate_def walk_def table_at_def Let_def sti_def split: option.splits)
  moreover have "vidmap_handler a s = Inr (0, ?t)"
    using vidmap_handler_eq [of a s] vwrite_user [OF ok slot assms(3), of a ?bs] assms(4)
    by (auto simp: ph user_buffer_def simp del: mwrite.simps vwrite_bytes.simps)
  ultimately have "\<exists>t. vidmap_handler a s = Inr (0, t) \<and> tables_ok t \<and> mapped_slot t k \<and> int_flag t
            \<and> load32 (vview t) a = 0x40000000 \<and> (\<forall>b \<in> kernel_page. phys t b = phys s b)
            \<and> (\<forall>d. 0 \<le> d \<and> d < 0x1000 \<longrightarrow> user_xlate t (0x40000000 + d) = Some (0xB8000 + d))"
    using ok slot ld vidmapped_ok(3) [of "cli s"] assms(1) kp
    by (intro exI [of _ ?t]) (simp add: mapped_slot_def del: mwrite.simps)
  moreover have "\<forall>i < 4. xlate ?v (p + int i) = Some (p + int i)"
    using assms(5,6) xlate_kernel [OF ok] by (auto simp: kernel_page_def)
  then have "vidmap_handler p s = Inr (0, sti (?v\<lparr>phys := mwrite (phys s) p ?bs\<rparr>))"
    using vidmap_handler_eq [of p s] vwrite_bytes_eq [of ?bs ?v p p] assms(5,7)
    by (auto simp: ph kernel_page_def simp del: mwrite.simps vwrite_bytes.simps)
  then have "\<exists>t. vidmap_handler p s = Inr (0, t) \<and> load32 (phys t) p = 0x40000000"
    by (simp add: ld mwrite_inside del: mwrite.simps)
  moreover have "vidmap_handler 0 s = Inr (-1, cli s)" "vidmap_handler 0x400000 s = Inr (-1, cli s)"
    by (simp_all add: vidmap_handler_def)
  ultimately show ?thesis by blast
qed

theorem vidmap_maps_screen_witness:
  "\<exists>t. vidmap_handler 0x8100000 kernel_example = Inr (0, t) \<and> user_xlate t 0x40000010 = Some 0xB8010"
proof -
  have "user_buffer 0x8100000 4" "(0x500000 :: int) \<in> kernel_page" "(0x500000 + 3 :: int) \<in> kernel_page"
    by (simp_all add: user_buffer_def kernel_page_def)
  from vidmap_maps_screen [OF kernel_example_tables _ this] obtain t
    where "vidmap_handler 0x8100000 kernel_example = Inr (0, t)"
      and "\<forall>d. 0 \<le> d \<and> d < 0x1000 \<longrightarrow> user_xlate t (0x40000000 + d) = Some (0xB8000 + d)"
    by auto
  then show ?thesis by (intro exI [of _ t]) (auto dest: spec [of _ "0x10"])
qed

end
