(* ===== verification/Process.thy ===== *)
theory Process
  imports Syscall
begin

text \<open>
  Starting and ending programs: \<open>execute_handler\<close> and \<open>halt_handler\<close> of
  \<^verbatim>\<open>mp3/student-distrib/syscall.c\<close>. The registers \<open>esp\<close> and \<open>ebp\<close> that the inline assembly
  reads are arguments; a result says how control leaves the handler. A read of an
  uninitialised local (no free slot, an executable too short for its entry point) and a
  write past a local array are the fault \<open>OutOfBounds\<close>.
\<close>

section \<open>Results\<close>

datatype 's outcome = Returns int 's | EntersUser u32 's | ResumesParent u32 u32 u8 's

fun outcome_state :: "'s outcome \<Rightarrow> 's" where
  "outcome_state (Returns r s) = s"
| "outcome_state (EntersUser eip s) = s"
| "outcome_state (ResumesParent ebp esp status s) = s"

definition pcb_addr :: "nat \<Rightarrow> addr" where
  "pcb_addr k = 0x800000 - int k * 0x2000"

section \<open>Parsing the command\<close>

text \<open>The three loops read the command byte by byte with \<open>rd\<close>; a byte that is not mapped is a fault.\<close>

function parse_exec :: "(addr \<Rightarrow> u8 res) \<Rightarrow> addr \<Rightarrow> nat \<Rightarrow> u8 list \<Rightarrow> (u8 list \<times> nat) res" where
  "parse_exec rd cmd i exec =
     (case rd (cmd + int i) of
        Inl e \<Rightarrow> Inl e
      | Inr b \<Rightarrow>
          if b = 0 \<or> b = 0x20 \<or> b = 0x0A then Inr (exec, i)
          else if i \<ge> 128 then Inl OutOfBounds
          else parse_exec rd cmd (Suc i) (exec[i := b]))"
  by pat_completeness auto
termination
  by (relation "measure (\<lambda>(rd, cmd, i, exec). 128 - i)") auto

partial_function (option) skip_spaces :: "(addr \<Rightarrow> u8 res) \<Rightarrow> addr \<Rightarrow> nat \<Rightarrow> nat res option" where
  "skip_spaces rd cmd i =
     (case rd (cmd + int i) of
        Inl e \<Rightarrow> Some (Inl e)
      | Inr b \<Rightarrow> if b = 0x20 then skip_spaces rd cmd (Suc i) else Some (Inr i))"

function parse_args :: "(addr \<Rightarrow> u8 res) \<Rightarrow> addr \<Rightarrow> nat \<Rightarrow> nat \<Rightarrow> u8 list \<Rightarrow> u8 list res" where
  "parse_args rd cmd i j args =
     (case rd (cmd + int i) of
        Inl e \<Rightarrow> Inl e
      | Inr b \<Rightarrow>
          if b \<noteq> 0 \<and> i < 127 then parse_args rd cmd (Suc i) (Suc j) (args[j := b]) else Inr args)"
  by pat_completeness auto
termination
  by (relation "measure (\<lambda>(rd, cmd, i, j, args). 127 - i)") auto

definition parse_command :: "(addr \<Rightarrow> u8 res) \<Rightarrow> addr \<Rightarrow> (u8 list \<times> u8 list) res option" where
  "parse_command rd cmd =
     (case parse_exec rd cmd 0 (replicate 128 0) of
        Inl e \<Rightarrow> Some (Inl e)
      | Inr (exec, i) \<Rightarrow>
          map_option (\<lambda>r. and_then r (\<lambda>i.
            and_then (parse_args rd cmd i 0 (replicate 128 0)) (\<lambda>args. Inr (exec, args))))
            (skip_spaces rd cmd i))"

definition next_args_flag :: "u8 list \<Rightarrow> u8 \<Rightarrow> u8" where
  "next_args_flag args f =
     (let f = (if \<exists>b \<in> set args. b \<noteq> 0 then 1 else f) in if args ! 127 \<noteq> 0 then 0 else f)"

section \<open>Loading\<close>

text \<open>The checks of the executable: its inode and entry point. \<open>exec\<close> is at \<open>-512\<close>, \<open>entryBuf\<close> at \<open>-576\<close>.\<close>

definition exec_header :: "mem \<Rightarrow> fs \<Rightarrow> u8 list \<Rightarrow> (u32 \<times> u32) option res" where
  "exec_header m f exec =
     and_then (check (0 \<in> set exec) OutOfBounds (mwrite m (-512) exec)) (\<lambda>m.
     and_then (read_dentry_by_name m f (-512)) (\<lambda>r.
     case r of
       None \<Rightarrow> Inr None
     | Some d \<Rightarrow>
         let magic = snd (read_data m f (inode_num d) 0 (-512) 4)
         in if mread magic (-512) 4 \<noteq> [0x7F, 0x45, 0x4C, 0x46] then Inr None
            else let (n, e) = read_data m f (inode_num d) 24 (-576) 4
                 in if n < 4 then Inl OutOfBounds
                    else Inr (Some (inode_num d, load32 e (-576)))))"

partial_function (option) load_program ::
  "u32 \<Rightarrow> int \<Rightarrow> 'a kernel_scheme \<Rightarrow> (bool \<times> 'a kernel_scheme) res option" where
  "load_program inode count s =
     (if 0x400000 - count > 0
      then case fs_read (\<lambda>m. read_data m (fsys s) inode (word_of_int count) (0x8048000 + count)
                              (word_of_int (0x400000 - count))) (0x8048000 + count) s of
             Inl e \<Rightarrow> Some (Inl e)
           | Inr rs \<Rightarrow>
               if fst rs = 0 then Some (Inr (True, snd rs))
               else if fst rs \<noteq> -1 then load_program inode (count + fst rs) (snd rs)
               else Some (Inr (False, snd rs))
      else Some (Inr (True, s)))"

section \<open>Bookkeeping\<close>

definition free_slot :: "'a kernel_scheme \<Rightarrow> nat option" where
  "free_slot s = find (\<lambda>i. pid_arr s ! i = 0) [0..<6]"

definition kernel_esp :: "u8 \<Rightarrow> u32" where
  "kernel_esp p = word_of_int (0x800000 - 0x2000 * (uint p - 1) - 4)"

text \<open>A base shell, while fewer than three programs run.\<close>

definition setup_base :: "u32 \<Rightarrow> u32 \<Rightarrow> 'a kernel_scheme \<Rightarrow> addr \<times> 'a kernel_scheme" where
  "setup_base esp ebp s =
     (let child = pcb_addr (unat (program_count s) + 1);
          s = s\<lparr>program_count := program_count s + 1\<rparr>;
          s = upd_pcb child (\<lambda>p. p\<lparr>pid := program_count s, parent_pid := program_count s,
                kesp := kernel_esp (program_count s), parent_pcb := child, pcb_esp := esp, pcb_ebp := ebp,
                argsflag := 0\<rparr>) s;
          s = s\<lparr>pid_arr := (pid_arr s)[unat (program_count s) - 1 := 1]\<rparr>;
          s = s\<lparr>sched_pid := (sched_pid s)[unat (program_count s) - 1 := program_count s]\<rparr>
      in (child, s))"

definition setup_child :: "nat \<Rightarrow> u32 \<Rightarrow> u32 \<Rightarrow> 'a kernel_scheme \<Rightarrow> addr \<times> 'a kernel_scheme" where
  "setup_child slot esp ebp s =
     (let child = pcb_addr (slot + 1);
          parent = pcb_current s;
          s = upd_pcb child (\<lambda>p. p\<lparr>pid := of_nat (slot + 1)\<rparr>) s;
          s = s\<lparr>program_count := program_count s + 1\<rparr>;
          ppid = pid (pcb_at s parent);
          s = upd_pcb child (\<lambda>p. p\<lparr>parent_pid := ppid, kesp := kernel_esp (pid p), parent_pcb := parent,
                pcb_esp := esp, pcb_ebp := ebp, argsflag := args_flag s\<rparr>) s;
          s = s\<lparr>pid_arr := (pid_arr s)[slot := 1]\<rparr>;
          s = s\<lparr>sched_pid := (sched_pid s)[user_term s := of_nat (slot + 1)]\<rparr>
      in (child, s))"

text \<open>The arguments, the standard descriptors, the kernel stack of the new process and \<open>iret\<close>.\<close>

definition start_user ::
  "device \<Rightarrow> u8 list \<Rightarrow> u32 \<Rightarrow> nat \<Rightarrow> addr \<Rightarrow> 'a kernel_scheme \<Rightarrow> 'a kernel_scheme outcome res" where
  "start_user dev args eip slot child s =
     (let s = upd_pcb child (\<lambda>p. p\<lparr>argbuf := args\<rparr>) s;
          s = s\<lparr>pcb_current := child\<rparr>
      in and_then (open_named dev (with_literal (-128) ''stdin'' (vview s)) (-128) s) (\<lambda>(_, s).
         and_then (open_named dev (with_literal (-128) ''stdout'' (vview s)) (-128) s) (\<lambda>(_, s).
         let s = upd_pcb (pcb_current s) (\<lambda>p. p\<lparr>pcb_ss0 := tss_ss0 s, pcb_esp0 := tss_esp0 s\<rparr>) s;
             s = s\<lparr>tss_ss0 := 0x18, tss_esp0 := word_of_int (0x800000 - int slot * 0x2000 - 4)\<rparr>
         in Inr (EntersUser eip (sti s)))))"

text \<open>The rest of \<open>execute_handler\<close> once the program is loaded in \<open>slot\<close>.\<close>

definition enter_program ::
  "device \<Rightarrow> u32 \<Rightarrow> u32 \<Rightarrow> nat \<Rightarrow> u8 list \<Rightarrow> u32 \<Rightarrow> 'a kernel_scheme \<Rightarrow> 'a kernel_scheme outcome res" where
  "enter_program dev esp ebp slot args eip s =
     (if program_count s < 3
      then let (child, s) = setup_base esp ebp s in start_user dev args eip slot child s
      else and_then (deref_pcb s) (\<lambda>s.
           case free_slot s of
             None \<Rightarrow> Inl OutOfBounds
           | Some slot \<Rightarrow> let (child, s) = setup_child slot esp ebp s in start_user dev args eip slot child s))"

text \<open>\<open>execute_handler\<close> for a command at \<open>command\<close>, whose bytes are read with \<open>rd\<close>.\<close>

definition execute_named ::
  "device \<Rightarrow> u32 \<Rightarrow> u32 \<Rightarrow> (addr \<Rightarrow> u8 res) \<Rightarrow> addr \<Rightarrow> 'a kernel_scheme \<Rightarrow> 'a kernel_scheme outcome res option" where
  "execute_named dev esp ebp rd command s =
     (let s = cli s
      in if program_count s \<ge> 6 then Some (Inr (Returns (-1) s))
         else if command = 0 then Some (Inr (Returns (-1) s))
         else Option.bind (parse_command rd command) (\<lambda>r.
           case r of
             Inl e \<Rightarrow> Some (Inl e)
           | Inr (exec, args) \<Rightarrow>
               let s = s\<lparr>args_flag := next_args_flag args (args_flag s)\<rparr>
               in case exec_header (vview s) (fsys s) exec of
                    Inl e \<Rightarrow> Some (Inl e)
                  | Inr None \<Rightarrow> Some (Inr (Returns (-1) s))
                  | Inr (Some (inode, eip)) \<Rightarrow>
                      (case free_slot s of
                         None \<Rightarrow> Some (Inl OutOfBounds)
                       | Some slot \<Rightarrow>
                           Option.bind (load_program inode 0 (map_program_page (int slot) s)) (\<lambda>r.
                           Some (and_then r (\<lambda>(ok, s).
                             if ok then enter_program dev esp ebp slot args eip s
                             else Inr (Returns (-1) s)))))))"

definition execute_handler ::
  "device \<Rightarrow> u32 \<Rightarrow> u32 \<Rightarrow> addr \<Rightarrow> 'a kernel_scheme \<Rightarrow> 'a kernel_scheme outcome res option" where
  "execute_handler dev esp ebp command s = execute_named dev esp ebp (\<lambda>a. vread a s) command s"

section \<open>Ending\<close>

definition close_all :: "'a kernel_scheme \<Rightarrow> 'a kernel_scheme" where
  "close_all s = fold (\<lambda>fd s. snd (close_handler fd s)) [2, 3, 4, 5, 6, 7] s"

definition halt_handler :: "u8 \<Rightarrow> 'a kernel_scheme \<Rightarrow> 'a kernel_scheme outcome res option" where
  "halt_handler status s =
     (let s = cli s
      in if pcb_current s = 0 then Some (Inl PageFault)
         else if pid (cur_pcb s) \<le> 3
         then map_option (\<lambda>r. and_then r (\<lambda>(_, s). Inr (Returns 0 s)))
                (printf (with_literal (-64) ''Can't exit base shell!'' (vview s)) (-64) [] s)
         else if unat (pid (cur_pcb s)) > length (pid_arr s) \<or> length (sched_pid s) \<le> proc_term s
         then Some (Inl OutOfBounds)
         else if parent_pcb (cur_pcb s) = 0 then Some (Inl PageFault)
         else let p = cur_pcb s;
                  s = s\<lparr>pid_arr := (pid_arr s)[unat (pid p) - 1 := 0]\<rparr>;
                  s = s\<lparr>sched_pid := (sched_pid s)[proc_term s := parent_pid p]\<rparr>;
                  s = s\<lparr>program_count := program_count s - 1\<rparr>;
                  ebp_parent = pcb_ebp (pcb_at s (parent_pcb p));
                  esp_parent = pcb_esp (pcb_at s (parent_pcb p));
                  s = map_program_page (uint (parent_pid p) - 1) s;
                  s = s\<lparr>tss_ss0 := 0x18, tss_esp0 := pcb_esp (pcb_at s (parent_pcb p))\<rparr>;
                  s = upd_pcb (pcb_current s) (\<lambda>p. p\<lparr>argbuf := replicate 128 0, argsflag := 0\<rparr>) s;
                  s = close_all s;
                  s = s\<lparr>pcb_current := parent_pcb (cur_pcb s)\<rparr>
              in Some (Inr (ResumesParent ebp_parent esp_parent status (sti s))))"

section \<open>The parser\<close>

declare parse_exec.simps [simp del] parse_args.simps [simp del] skip_spaces.simps [code]

definition stops_word :: "u8 \<Rightarrow> bool" where
  "stops_word b \<longleftrightarrow> b = 0 \<or> b = 0x20 \<or> b = 0x0A"

lemma parse_exec_eq:
  assumes "\<forall>j < length w. rd (cmd + int (i + j)) = Inr (w ! j) \<and> \<not> stops_word (w ! j)"
    and "rd (cmd + int (i + length w)) = Inr b" and "stops_word b" and "i + length w \<le> 128" and "length exec = 128"
  shows "parse_exec rd cmd i exec = Inr (take i exec @ w @ drop (i + length w) exec, i + length w)"
  using assms
proof (induction w arbitrary: i exec)
  case Nil
  then show ?case by (simp add: parse_exec.simps [of rd cmd i] stops_word_def)
next
  case (Cons c w)
  have c: "rd (cmd + int i) = Inr c" "\<not> stops_word c" using Cons.prems(1) by force+
  have nxt: "\<forall>j < length w. rd (cmd + int (Suc i + j)) = Inr (w ! j) \<and> \<not> stops_word (w ! j)"
    using Cons.prems(1) [rule_format, of "Suc _"] by (simp add: ac_simps)
  have "parse_exec rd cmd (Suc i) (exec[i := c]) =
      Inr (take (Suc i) (exec[i := c]) @ w @ drop (Suc i + length w) (exec[i := c]), Suc i + length w)"
    using Cons.prems(2-5) nxt by (intro Cons.IH) (simp_all add: ac_simps)
  moreover have "take (Suc i) (exec[i := c]) = take i exec @ [c]"
    using Cons.prems(4,5) by (simp add: take_Suc_conv_app_nth)
  moreover have "drop (Suc i + length w) (exec[i := c]) = drop (Suc i + length w) exec" by simp
  ultimately show ?case
    using c Cons.prems(4) by (simp add: parse_exec.simps [of rd cmd i] stops_word_def)
qed

lemma skip_spaces_eq:
  "\<forall>j < g. rd (cmd + int (i + j)) = Inr 0x20 \<Longrightarrow> rd (cmd + int (i + g)) = Inr b \<Longrightarrow> b \<noteq> 0x20 \<Longrightarrow>
     skip_spaces rd cmd i = Some (Inr (i + g))"
proof (induction g arbitrary: i)
  case 0
  then show ?case by (simp add: skip_spaces.simps)
next
  case (Suc g)
  have "skip_spaces rd cmd (Suc i) = Some (Inr (Suc i + g))"
    using Suc.prems(2,3) Suc.prems(1) [rule_format, of "Suc _"] by (intro Suc.IH) (simp_all add: ac_simps)
  moreover have "rd (cmd + int i) = Inr 0x20" using Suc.prems(1) by force
  ultimately show ?case by (simp add: skip_spaces.simps [of rd cmd i])
qed

lemma parse_args_eq:
  assumes "rstr rd (cmd + int i) str" and "j \<le> i" and "length args = 128"
  shows "parse_args rd cmd i j args =
           Inr (take j args @ take (127 - i) str @ drop (j + min (127 - i) (length str)) args)"
  using assms
proof (induction str arbitrary: i j args)
  case Nil
  then show ?case by (simp add: parse_args.simps [of rd cmd i])
next
  case (Cons b str)
  have b: "rd (cmd + int i) = Inr b" "b \<noteq> 0" and rest: "rstr rd (cmd + int (Suc i)) str"
    using Cons.prems(1) by (auto simp: ac_simps)
  show ?case
  proof (cases "i < 127")
    case True
    have "parse_args rd cmd (Suc i) (Suc j) (args[j := b]) =
        Inr (take (Suc j) (args[j := b]) @ take (127 - Suc i) str
          @ drop (Suc j + min (127 - Suc i) (length str)) (args[j := b]))"
      using Cons.prems rest by (intro Cons.IH) auto
    moreover have "take (Suc j) (args[j := b]) = take j args @ [b]"
      using Cons.prems(2,3) True by (simp add: take_Suc_conv_app_nth)
    moreover have "127 - i = Suc (127 - Suc i)" using True by simp
    ultimately show ?thesis using b True by (simp add: parse_args.simps [of rd cmd i])
  next
    case False
    then show ?thesis using b by (simp add: parse_args.simps [of rd cmd i])
  qed
qed

text \<open>A command line: a word, spaces, and the rest, which does not start with a space.\<close>

definition command_line :: "u8 list \<Rightarrow> nat \<Rightarrow> u8 list \<Rightarrow> bool" where
  "command_line w g rest \<longleftrightarrow> (\<forall>b \<in> set w. \<not> stops_word b) \<and> length w \<le> 127
     \<and> (rest \<noteq> [] \<longrightarrow> hd rest \<noteq> 0x20 \<and> (g = 0 \<longrightarrow> hd rest = 0x0A))"

lemma parse_command_eq:
  assumes "rstr rd cmd (w @ replicate g 0x20 @ rest)" and "command_line w g rest"
  shows "parse_command rd cmd =
     Some (Inr (w @ replicate (128 - length w) 0,
                take (127 - (length w + g)) rest @ replicate (128 - min (127 - (length w + g)) (length rest)) 0))"
proof -
  let ?str = "w @ replicate g 0x20 @ rest" and ?i = "length w"
  have at: "rd (cmd + int j) = Inr (?str ! j)" if "j < length ?str" for j
    using assms(1) that unfolding rstr_iff by blast
  have fin: "rd (cmd + int (length ?str)) = Inr 0" using assms(1) unfolding rstr_iff by blast
  have after: "rd (cmd + int (?i + g)) = Inr (if rest = [] then 0 else hd rest)"
    using at [of "?i + g"] fin by (auto simp: nth_append hd_conv_nth)
  have sp: "rd (cmd + int (?i + j)) = Inr 0x20" if "j < g" for j
    using at [of "?i + j"] that by (simp add: nth_append)
  obtain b where b: "rd (cmd + int (0 + ?i)) = Inr b" "stops_word b"
    using sp [of 0] after assms(2) by (cases "g = 0") (auto simp: stops_word_def command_line_def)
  have "parse_exec rd cmd 0 (replicate 128 0) = Inr (w @ replicate (128 - ?i) 0, ?i)"
    using parse_exec_eq [of w rd cmd 0 b "replicate 128 0"] b assms(2) at
    by (force simp: command_line_def nth_append)
  moreover have "skip_spaces rd cmd ?i = Some (Inr (?i + g))"
    using sp after assms(2) skip_spaces_eq [of g rd cmd ?i] by (auto simp: command_line_def)
  moreover have "rstr rd (cmd + int (?i + g)) rest"
    using assms(1) unfolding rstr_iff
    by (auto simp: nth_append add.assoc algebra_simps dest: spec [of _ "?i + (g + _)"])
  then have "parse_args rd cmd (?i + g) 0 (replicate 128 0) =
      Inr (take (127 - (?i + g)) rest @ replicate (128 - min (127 - (?i + g)) (length rest)) 0)"
    by (subst parse_args_eq) simp_all
  ultimately show ?thesis by (simp add: parse_command_def)
qed

section \<open>The loader\<close>

lemma load_program_eq:
  assumes "tables_ok s" and "mapped_slot s k" and "k < 6" and "fs_ok s" and "inode_ok (vview s) (fsys s) i"
    and "file_length (vview s) (fsys s) i < 0x3B8000"
  shows "load_program i 0 s =
     Some (Inr (True, s\<lparr>phys := mwrite (phys s) (user_phys k 0x8048000) (readable (vview s) (fsys s) i)\<rparr>))"
proof -
  let ?bs = "readable (vview s) (fsys s) i" and ?L = "file_length (vview s) (fsys s) i"
  let ?t = "s\<lparr>phys := mwrite (phys s) (user_phys k 0x8048000) ?bs\<rparr>"
  have len: "length ?bs = Suc ?L" by (simp add: readable_def file_contents_def)
  have ub: "user_buffer 0x8048000 (length ?bs)" using assms(6) by (simp add: user_buffer_def len)
  have n: "unat (word_of_int 0x400000 :: u32) = 0x400000" by simp
  have "fs_read (\<lambda>m. read_data m (fsys s) i (word_of_int 0) (0x8048000 + 0) (word_of_int (0x400000 - 0))) (0x8048000 + 0) s
      = Inr (int (length ?bs), ?t)"
    using fs_read_eq [OF assms(1-5), of 0 "word_of_int 0x400000" "0x8048000"] ub assms(6)
    by (simp add: n len)
  then have first: "load_program i 0 s = load_program i (int (length ?bs)) ?t"
    by (subst load_program.simps) (simp add: len)
  have kp: "\<forall>a \<in> kernel_page. phys ?t a = phys s a" using mwrite_user_kernel [OF ub] by simp
  have ok: "tables_ok ?t" "mapped_slot ?t k" using assms(1,2) by simp_all
  note fr = fs_ok_frame [OF assms(1) ok(1) assms(4) _ kp]
  have off: "unat (word_of_int (int (length ?bs)) :: u32) = length ?bs"
    using assms(6) unfolding of_int_of_nat_eq by (subst unat_of_nat) (simp add: len take_bit_nat_eq_self)
  have rest: "unat (word_of_int (0x400000 - int (length ?bs)) :: u32) \<le> 0x400000"
  proof -
    have "word_of_int (0x400000 - int (length ?bs)) = (of_nat (0x400000 - length ?bs) :: u32)"
      using assms(6) by (simp add: len of_nat_diff of_int_of_nat_eq)
    moreover have "unat (of_nat x :: u32) \<le> x" for x by (simp only: unat_of_nat mod_less_eq_dividend)
    from this [of "0x400000 - length ?bs"] have "unat (of_nat (0x400000 - length ?bs) :: u32) \<le> 0x400000"
      by (rule order_trans) (rule diff_le_self)
    ultimately show ?thesis by (simp only:)
  qed
  have "fs_read (\<lambda>m. read_data m (fsys ?t) i (word_of_int (int (length ?bs))) (0x8048000 + int (length ?bs))
            (word_of_int (0x400000 - int (length ?bs)))) (0x8048000 + int (length ?bs)) ?t = Inr (0, ?t)"
    using fs_read_eq [OF ok assms(3) fr(1) fr(2) [OF _ assms(5)], of "word_of_int (int (length ?bs))"
        "word_of_int (0x400000 - int (length ?bs))" "0x8048000 + int (length ?bs)"] fr(3) [OF _ assms(5)]
      off rest assms(6) by (simp add: user_buffer_def len)
  then have "load_program i (int (length ?bs)) ?t = Some (Inr (True, ?t))"
    using assms(6) by (subst load_program.simps) (simp add: len)
  with first show ?thesis by simp
qed

section \<open>Starting the program\<close>

lemma strncmp_self: "strncmp m a a n = 0"
  using strncmp_loop_zero_iff [of m a a 0 n] by (simp add: strncmp_def)

lemma cstr_literal:
  assumes "0 \<notin> set (bytes_of lit)" shows "cstr (with_literal a lit m) a (bytes_of lit)"
  using assms by (auto simp: cstr_iff with_literal_def mwrite_apply nth_append)

lemma open_named_std:
  assumes "pcb_current s \<noteq> 0"
  shows "open_named dev (with_literal (-128) ''stdin'' m) (-128) s =
           Inr (0, upd_pcb (pcb_current s) (upd_fd 0 (init_fd terminal_operations_table 0)) (cli s))"
    and "open_named dev (with_literal (-128) ''stdout'' m) (-128) s =
           Inr (1, upd_pcb (pcb_current s) (upd_fd 1 (init_fd terminal_operations_table 0)) (cli s))"
proof -
  let ?i = "with_literal (-128) ''stdin'' m" and ?o = "with_literal (-128) ''stdout'' m"
  have i: "cstr ?i (-128) (bytes_of ''stdin'')" and o: "cstr ?o (-128) (bytes_of ''stdout'')"
    using cstr_literal [of "''stdin''"] cstr_literal [of "''stdout''"] literals_ok by blast+
  have len: "length (bytes_of ''stdin'') = 5" "length (bytes_of ''stdout'') = 6" by (simp_all add: bytes_of_def)
  have nz: "?i (-128) \<noteq> 0" "?o (-128) \<noteq> 0" using i o by (simp_all add: bytes_of_def)
  show "open_named dev ?i (-128) s =
           Inr (0, upd_pcb (pcb_current s) (upd_fd 0 (init_fd terminal_operations_table 0)) (cli s))"
    using assms nz strlen_cstr [OF i] strncmp_literal [OF _ i, of "''stdin''"]
    by (simp add: open_named_def deref_pcb_def literals_ok len)
  have "take 6 (bytes_of ''stdin'') \<noteq> bytes_of ''stdout''" by (simp add: bytes_of_def)
  then show "open_named dev ?o (-128) s =
           Inr (1, upd_pcb (pcb_current s) (upd_fd 1 (init_fd terminal_operations_table 0)) (cli s))"
    using assms nz strlen_cstr [OF o] strncmp_literal [OF _ o, of "''stdin''"] strncmp_literal [OF _ o, of "''stdout''"]
    by (simp add: open_named_def deref_pcb_def literals_ok len)
qed

text \<open>What \<open>start_user\<close> makes of the process control block.\<close>

definition std_pcb :: "u8 list \<Rightarrow> 'a kernel_scheme \<Rightarrow> pcb \<Rightarrow> pcb" where
  "std_pcb args s p = (upd_fd 1 (init_fd terminal_operations_table 0)
     (upd_fd 0 (init_fd terminal_operations_table 0) (p\<lparr>argbuf := args\<rparr>)))
       \<lparr>pcb_ss0 := tss_ss0 s, pcb_esp0 := tss_esp0 s\<rparr>"

lemma upd_pcb_fields2 [simp]: "tss_ss0 (upd_pcb a f s) = tss_ss0 s" "tss_esp0 (upd_pcb a f s) = tss_esp0 s"
  "tss_ss0 (cli s) = tss_ss0 s" "tss_esp0 (cli s) = tss_esp0 s" "tss_ss0 (sti s) = tss_ss0 s" "tss_esp0 (sti s) = tss_esp0 s"
  by (simp_all add: upd_pcb_def cli_def sti_def)

text \<open>What \<open>execute\<close> never touches: devices, page tables, terminals, screen, keyboard and file system.\<close>

definition proc_frame :: "'a kernel_scheme \<Rightarrow> 'a kernel_scheme \<Rightarrow> bool" where
  "proc_frame s t \<longleftrightarrow>
     io_hist t = io_hist s \<and> master_mask t = master_mask s \<and> slave_mask t = slave_mask s
     \<and> rtc_tick t = rtc_tick s \<and> rtc_status t = rtc_status s
     \<and> page_table t = page_table s \<and> page_virtual_mem t = page_virtual_mem s
     \<and> page_dir_addr t = page_dir_addr s \<and> page_table_addr t = page_table_addr s
     \<and> page_virtual_mem_addr t = page_virtual_mem_addr s
     \<and> screen_x t = screen_x s \<and> screen_y t = screen_y s \<and> video_mem t = video_mem s \<and> scrollFlag t = scrollFlag s
     \<and> term_arr t = term_arr s \<and> curr_terminal t = curr_terminal s \<and> curr_process t = curr_process s
     \<and> keyBuffer t = keyBuffer s \<and> keyBufferIndex t = keyBufferIndex s \<and> mode t = mode s
     \<and> ctrlPressed t = ctrlPressed s \<and> altPressed t = altPressed s \<and> fsys t = fsys s"

lemma proc_frame_refl [simp]: "proc_frame s s"
  by (simp add: proc_frame_def)

lemma proc_frame_trans: "proc_frame s t \<Longrightarrow> proc_frame t u \<Longrightarrow> proc_frame s u"
  by (simp add: proc_frame_def)

lemma proc_frame_phys [simp]: "proc_frame s (t\<lparr>phys := m\<rparr>) = proc_frame s t"
  by (simp add: proc_frame_def)

lemma proc_frame_map_program_page: "proc_frame s (map_program_page k ((cli s)\<lparr>args_flag := v\<rparr>))"
  by (simp add: proc_frame_def map_program_page_def Let_def upd_dir_def load_pde_def flush_tlb_def cli_def)

lemma proc_frame_setup: "proc_frame s (snd (setup_base esp ebp s))" "proc_frame s (snd (setup_child k esp ebp s))"
  by (simp_all add: proc_frame_def setup_base_def setup_child_def Let_def upd_pcb_def)

lemma start_user_eq:
  assumes "child \<noteq> 0"
  shows "\<exists>t. start_user dev args eip slot child s = Inr (EntersUser eip t)
     \<and> pcb_at t = (pcb_at s)(child := std_pcb args s (pcb_at s child)) \<and> pcb_current t = child
     \<and> pid_arr t = pid_arr s \<and> program_count t = program_count s \<and> sched_pid t = sched_pid s
     \<and> phys t = phys s \<and> xlate t = xlate s \<and> page_dir t = page_dir s \<and> fsys t = fsys s
     \<and> tables_ok t = tables_ok s \<and> terms_ok t = terms_ok s
     \<and> tss_ss0 t = 0x18 \<and> tss_esp0 t = word_of_int (0x800000 - int slot * 0x2000 - 4) \<and> int_flag t
     \<and> curr_terminal t = curr_terminal s \<and> curr_process t = curr_process s \<and> proc_frame s t"
  using assms
  by (simp add: start_user_def Let_def open_named_std)
    (simp add: fun_eq_iff upd_pcb_def std_pcb_def cli_def sti_def proc_frame_def)

section \<open>The executable\<close>

definition le32 :: "u8 list \<Rightarrow> u32" where
  "le32 bs = ucast (bs ! 0) OR push_bit 8 (ucast (bs ! 1)) OR push_bit 16 (ucast (bs ! 2)) OR push_bit 24 (ucast (bs ! 3))"

definition elf_magic :: "u8 list" where
  "elf_magic = [0x7F, 0x45, 0x4C, 0x46]"

text \<open>A file that \<open>execute\<close> accepts: the magic number, and an entry point at offset 24.\<close>

definition runnable :: "mem \<Rightarrow> fs \<Rightarrow> u8 list \<Rightarrow> u32 \<Rightarrow> u32 \<Rightarrow> bool" where
  "runnable m f name inode eip \<longleftrightarrow> length name \<le> 32 \<and> (\<exists>d. lookup m f name = Some d \<and> inode_num d = inode)
     \<and> inode_ok m f inode \<and> 27 < file_length m f inode
     \<and> take 4 (readable m f inode) = elf_magic \<and> le32 (drop 24 (readable m f inode)) = eip"

lemma length_readable: "length (readable m f i) = Suc (file_length m f i)"
  by (simp add: readable_def file_contents_def)

lemma load32_mwrite: "4 \<le> length bs \<Longrightarrow> load32 (mwrite m a bs) a = le32 bs"
proof -
  assume len: "4 \<le> length bs"
  then have "bs \<noteq> []" by auto
  with len show ?thesis
    using mwrite_inside [of 0 bs m a] mwrite_inside [of 1 bs m a] mwrite_inside [of 2 bs m a]
      mwrite_inside [of 3 bs m a] by (simp add: load32_def le32_def)
qed

lemma same_image_local:
  assumes "fs_wf m f" and "a + int (length bs) \<le> 0"
  shows "same_image m (mwrite m a bs) f"
  using assms by (auto simp: same_image_def in_image_def fs_wf_def mwrite_apply)

lemma not_in_image_local: "fs_wf m f \<Longrightarrow> a < 0 \<Longrightarrow> \<not> in_image m f a"
  by (auto simp: in_image_def fs_wf_def)

lemma exec_header_eq:
  assumes wf: "fs_wf m f" and w: "\<forall>b \<in> set w. b \<noteq> 0" "length w \<le> 127" and run: "runnable m f w inode eip"
  shows "exec_header m f (w @ replicate (128 - length w) 0) = Inr (Some (inode, eip))"
proof -
  let ?x = "w @ replicate (128 - length w) 0"
  let ?m = "mwrite m (-512) ?x"
  from run obtain d where d: "lookup m f w = Some d" "inode_num d = inode" and ino: "inode_ok m f inode"
    and len: "length w \<le> 32" "27 < file_length m f inode"
    and bytes: "take 4 (readable m f inode) = elf_magic" "le32 (drop 24 (readable m f inode)) = eip"
    by (auto simp: runnable_def)
  have x: "length ?x = 128" "0 \<in> set ?x" using w(2) by auto
  have same: "same_image m ?m f" using wf by (rule same_image_local) (simp only: x(1))
  note m = fs_wf_same [OF same wf] inode_ok_same [OF wf ino same] readable_same [OF wf ino same]
  have "\<forall>i < length w. ?x ! i = w ! i" "?x ! length w = 0" "length w < 128"
    using w(2) by (simp_all add: nth_append)
  then have "cstr ?m (-512) w"
    unfolding cstr_iff using w(1) by (auto simp: mwrite_apply x(1) add.commute [of "-512"])
  moreover have "lookup ?m f w = lookup m f w"
    using wf by (intro lookup_cong mwrite_outside) (simp only: x(1) fs_wf_def, linarith)
  ultimately have nm: "read_dentry_by_name ?m f (-512) = Inr (Some d)"
    using d(1) len(1) by (simp add: read_dentry_by_name_eq)
  have "read_data ?m f inode 0 (-512) 4 = (4, mwrite ?m (-512) elf_magic)"
    using read_data_eq [OF m(1,2), of "-512" 4 0] m(3) bytes(1) not_in_image_local [OF m(1)]
    by (simp add: elf_magic_def)
  moreover have "mread (mwrite ?m (-512) elf_magic) (-512) 4 = elf_magic"
    using mread_mwrite [of ?m "-512" elf_magic] by (simp add: elf_magic_def eval_nat_numeral del: mread_mwrite mwrite.simps)
  moreover have "length (take 4 (drop 24 (readable m f inode))) = 4" using len(2) by (simp add: length_readable)
  then have "read_data ?m f inode 24 (-576) 4 = (4, mwrite ?m (-576) (take 4 (drop 24 (readable m f inode))))"
    and "load32 (mwrite ?m (-576) (take 4 (drop 24 (readable m f inode)))) (-576) = eip"
    using read_data_eq [OF m(1,2), of "-576" 4 24] m(3) bytes(2) not_in_image_local [OF m(1)]
    by (simp_all add: load32_mwrite le32_def)
  ultimately show ?thesis
    using d(2) x(2) nm by (simp add: exec_header_def Let_def elf_magic_def check_def)
qed

section \<open>Frames and termination\<close>

lemma vwrite_bytes_frame: "vwrite_bytes a bs s = Inr t \<Longrightarrow> \<exists>m. t = s\<lparr>phys := m\<rparr>"
proof (induction bs arbitrary: a s)
  case Nil
  then show ?case by (auto intro: exI [of _ "phys s"])
next
  case (Cons b bs)
  then obtain m where "vwrite_bytes (a + 1) bs (s\<lparr>phys := m\<rparr>) = Inr t"
    by (auto simp: and_then_Inr_iff vwrite_def split: option.splits)
  from Cons.IH [OF this] show ?case by auto
qed

lemma fs_read_frame: "fs_read rd buf s = Inr (r, t) \<Longrightarrow> (\<exists>m. t = s\<lparr>phys := m\<rparr>) \<and> r = fst (rd (vview s))"
  by (auto simp: fs_read_def and_then_Inr_iff split: prod.splits dest: vwrite_bytes_frame)

lemma read_data_loop_count: "rc \<le> fst (read_data_loop m f ip off buf k i rc pos)"
proof (induction k arbitrary: m i rc pos)
  case (Suc k)
  have "rc \<le> fst (read_data_loop m' f ip off buf k i' (rc + 1) pos')" for m' i' pos'
    using order_trans [OF _ Suc.IH [of "rc + 1" m' i' pos']] by simp
  with Suc show ?case by (simp add: Let_def del: fun_upd_apply)
qed simp

lemma read_data_count: "-1 \<le> fst (read_data m f i off buf n)"
  using order_trans [OF _ read_data_loop_count] by (simp add: read_data_def)

text \<open>The parser ends: at the NUL, or with a fault at the end of the address space.\<close>

lemma parse_exec_ends: "\<forall>a. rd a \<noteq> Inl Diverges \<Longrightarrow> parse_exec rd cmd i exec \<noteq> Inl Diverges"
proof (induction rd cmd i exec rule: parse_exec.induct)
  case (1 rd cmd i exec)
  then show ?case
    by (cases "rd (cmd + int i)") (auto simp: parse_exec.simps [of rd cmd i])
qed

lemma parse_args_ends: "\<forall>a. rd a \<noteq> Inl Diverges \<Longrightarrow> parse_args rd cmd i j args \<noteq> Inl Diverges"
proof (induction rd cmd i j args rule: parse_args.induct)
  case (1 rd cmd i j args)
  then show ?case
    by (cases "rd (cmd + int i)") (auto simp: parse_args.simps [of rd cmd i])
qed

lemma skip_spaces_ends:
  assumes "\<forall>a. rd a \<noteq> Inl Diverges" and "\<forall>a \<ge> B. \<exists>e. rd a = Inl e"
  shows "\<exists>r. skip_spaces rd cmd i = Some r \<and> r \<noteq> Inl Diverges"
proof (induction "nat (B - (cmd + int i))" arbitrary: i rule: less_induct)
  case less
  show ?case
  proof (cases "rd (cmd + int i) = Inr 0x20")
    case True
    then have "\<not> B \<le> cmd + int i" using assms(2) by (metis Inl_Inr_False)
    then have "\<exists>r. skip_spaces rd cmd (Suc i) = Some r \<and> r \<noteq> Inl Diverges" by (intro less) simp
    then show ?thesis using True by (simp add: skip_spaces.simps [of rd cmd i])
  next
    case False
    then show ?thesis
      using assms(1) by (cases "rd (cmd + int i)") (auto simp: skip_spaces.simps [of rd cmd i])
  qed
qed

lemma parse_command_ends:
  assumes "\<forall>a. rd a \<noteq> Inl Diverges" and "\<forall>a \<ge> B. \<exists>e. rd a = Inl e"
  shows "\<exists>r. parse_command rd cmd = Some r \<and> r \<noteq> Inl Diverges"
proof (cases "parse_exec rd cmd 0 (replicate 128 0)")
  case (Inl e)
  then show ?thesis using parse_exec_ends [OF assms(1)] by (force simp: parse_command_def)
next
  case (Inr p)
  obtain x i where p: "p = (x, i)" by (cases p)
  obtain r where r: "skip_spaces rd cmd i = Some r" "r \<noteq> Inl Diverges" using skip_spaces_ends [OF assms] by blast
  have "and_then (parse_args rd cmd l 0 args) (\<lambda>args. Inr (x, args)) \<noteq> Inl Diverges" for l args
    using parse_args_ends [OF assms(1), of cmd l 0 args] by (cases "parse_args rd cmd l 0 args") auto
  then show ?thesis using Inr p r by (cases r) (auto simp: parse_command_def)
qed

lemma vread_ends: "vread a s \<noteq> Inl Diverges"
  by (simp add: vread_def split: option.split)

lemma vread_high: "tables_ok s \<Longrightarrow> 2 ^ 32 \<le> a \<Longrightarrow> vread a s = Inl PageFault"
  by (simp add: vread_def xlate_def walk_def tables_ok_def)

lemma vwrite_bytes_ends: "vwrite_bytes a bs s \<noteq> Inl Diverges"
proof (induction bs arbitrary: a s)
  case (Cons b bs)
  then show ?case by (simp add: vwrite_def split: option.split)
qed simp

lemma fs_read_ends: "fs_read rd buf s \<noteq> Inl Diverges"
  using vwrite_bytes_ends [of buf] by (auto simp: fs_read_def and_then_def split: prod.split sum.split)

lemma exec_header_ends: "exec_header m f exec \<noteq> Inl Diverges"
proof (cases "0 \<in> set exec")
  case True
  let ?m = "mwrite m (-512) exec" and ?w = "takeWhile (\<lambda>b. b \<noteq> 0) exec"
  have len: "length ?w < length exec"
    using True by (metis (mono_tags) length_takeWhile_le le_neq_implies_less takeWhile_eq_all_conv takeWhile_eq_take take_all_iff order_refl)
  moreover have "exec ! length ?w = 0" using len nth_length_takeWhile by blast
  moreover have "exec ! i = ?w ! i" if "i < length ?w" for i using that by (simp add: takeWhile_nth)
  ultimately have "cstr ?m (-512) ?w"
    unfolding cstr_iff by (auto simp: mwrite_apply add.commute [of "-512"] dest: set_takeWhileD)
  from read_dentry_by_name_eq [OF this] show ?thesis
    by (auto simp: exec_header_def Let_def check_def split: option.split prod.split)
next
  case False
  then show ?thesis by (simp add: exec_header_def check_def)
qed

text \<open>Every iteration of the loading loop reads a byte, ends or faults: the loop ends.\<close>

lemma load_program_total:
  "(\<exists>e. load_program i c s = Some (Inl e) \<and> e \<noteq> Diverges) \<or> (\<exists>b m. load_program i c s = Some (Inr (b, s\<lparr>phys := m\<rparr>)))"
proof (induction "nat (0x400000 - c)" arbitrary: c s rule: less_induct)
  case less
  let ?r = "fs_read (\<lambda>m. read_data m (fsys s) i (word_of_int c) (0x8048000 + c) (word_of_int (0x400000 - c))) (0x8048000 + c) s"
  show ?case
  proof (cases "0x400000 - c > 0")
    case False
    then show ?thesis by (subst (1 2) load_program.simps) (auto intro: exI [of _ "phys s"])
  next
    case True
    show ?thesis
    proof (cases ?r)
      case (Inl e)
      moreover have "e \<noteq> Diverges" using Inl fs_read_ends by metis
      ultimately show ?thesis using True by (subst (1) load_program.simps) simp
    next
      case (Inr rs)
      obtain n t where rs: "rs = (n, t)" by (cases rs)
      obtain m where m: "t = s\<lparr>phys := m\<rparr>" and n: "-1 \<le> n"
        using fs_read_frame [of _ _ s n t] Inr rs read_data_count by blast
      note step = load_program.simps [of i c s]
      show ?thesis
      proof (cases "n = 0 \<or> n = -1")
        case True
        then show ?thesis using Inr rs m \<open>0x400000 - c > 0\<close> by (auto simp: step)
      next
        case False
        then have "load_program i c s = load_program i (c + n) t" using Inr rs \<open>0x400000 - c > 0\<close> by (simp add: step)
        moreover have "nat (0x400000 - (c + n)) < nat (0x400000 - c)" using False n \<open>0x400000 - c > 0\<close> by auto
        ultimately show ?thesis using less [of "c + n" t] m by auto
      qed
    qed
  qed
qed

section \<open>The process table\<close>

definition live :: "'a kernel_scheme \<Rightarrow> nat \<Rightarrow> bool" where
  "live s k \<longleftrightarrow> k < 6 \<and> pid_arr s ! k = 1"

abbreviation slot_pcb :: "'a kernel_scheme \<Rightarrow> nat \<Rightarrow> pcb" where
  "slot_pcb s k \<equiv> pcb_at s (pcb_addr (Suc k))"

text \<open>The parent of slot \<open>k\<close> is \<open>j\<close>: a base shell is its own.\<close>

definition parent_is :: "pcb \<Rightarrow> nat \<Rightarrow> bool" where
  "parent_is p j \<longleftrightarrow> parent_pid p = of_nat (Suc j) \<and> parent_pcb p = pcb_addr (Suc j)"

definition procs_ok :: "'a kernel_scheme \<Rightarrow> bool" where
  "procs_ok s \<longleftrightarrow>
     length (pid_arr s) = 6 \<and> (\<forall>k < 6. pid_arr s ! k = 0 \<or> pid_arr s ! k = 1)
     \<and> unat (program_count s) = count_list (pid_arr s) 1 \<and> length (sched_pid s) = 3
     \<and> (\<forall>k < 3. k < unat (program_count s) \<longrightarrow> live s k)
     \<and> (\<forall>k < 6. fds_ok (slot_pcb s k))
     \<and> (\<forall>k. live s k \<longrightarrow> pid (slot_pcb s k) = of_nat (Suc k)
            \<and> (if k < 3 then parent_is (slot_pcb s k) k else \<exists>j. live s j \<and> j \<noteq> k \<and> parent_is (slot_pcb s k) j))
     \<and> (program_count s = 0 \<or> (\<exists>k. live s k \<and> pcb_current s = pcb_addr (Suc k)))"

lemma procs_okD:
  assumes "procs_ok s"
  shows "length (pid_arr s) = 6" and "length (sched_pid s) = 3"
    and "unat (program_count s) = count_list (pid_arr s) 1"
    and "k < 6 \<Longrightarrow> pid_arr s ! k = 0 \<or> pid_arr s ! k = 1" and "k < 6 \<Longrightarrow> fds_ok (slot_pcb s k)"
    and "k < 3 \<Longrightarrow> k < unat (program_count s) \<Longrightarrow> live s k"
    and "live s k \<Longrightarrow> pid (slot_pcb s k) = of_nat (Suc k)"
    and "live s k \<Longrightarrow> k < 3 \<Longrightarrow> parent_is (slot_pcb s k) k"
    and "live s k \<Longrightarrow> 3 \<le> k \<Longrightarrow> \<exists>j. live s j \<and> j \<noteq> k \<and> parent_is (slot_pcb s k) j"
    and "program_count s \<noteq> 0 \<Longrightarrow> \<exists>k. live s k \<and> pcb_current s = pcb_addr (Suc k)"
proof -
  have A: "\<forall>k. live s k \<longrightarrow> pid (slot_pcb s k) = of_nat (Suc k)
      \<and> (if k < 3 then parent_is (slot_pcb s k) k else \<exists>j. live s j \<and> j \<noteq> k \<and> parent_is (slot_pcb s k) j)"
    using assms [unfolded procs_ok_def] by (elim conjE) assumption
  show "live s k \<Longrightarrow> pid (slot_pcb s k) = of_nat (Suc k)" using A by blast
  show "live s k \<Longrightarrow> k < 3 \<Longrightarrow> parent_is (slot_pcb s k) k" using A by presburger
  show "live s k \<Longrightarrow> 3 \<le> k \<Longrightarrow> \<exists>j. live s j \<and> j \<noteq> k \<and> parent_is (slot_pcb s k) j"
    using A [rule_format, of k] by (simp add: not_less [symmetric])
  note C = assms [unfolded procs_ok_def]
  note C2 = C [THEN conjunct2] and C3 = C [THEN conjunct2, THEN conjunct2]
  note C5 = C3 [THEN conjunct2, THEN conjunct2]
  note B = C2 [THEN conjunct1] C5 [THEN conjunct2, THEN conjunct1] C5 [THEN conjunct1]
    C [THEN conjunct1] C3 [THEN conjunct2, THEN conjunct1] C3 [THEN conjunct1]
    C5 [THEN conjunct2, THEN conjunct2, THEN conjunct2]
  show "length (pid_arr s) = 6" "length (sched_pid s) = 3" "unat (program_count s) = count_list (pid_arr s) 1"
    by (rule B)+
  show "k < 6 \<Longrightarrow> pid_arr s ! k = 0 \<or> pid_arr s ! k = 1" "k < 6 \<Longrightarrow> fds_ok (slot_pcb s k)"
    "k < 3 \<Longrightarrow> k < unat (program_count s) \<Longrightarrow> live s k" using B(1-3) by blast+
  show "program_count s \<noteq> 0 \<Longrightarrow> \<exists>k. live s k \<and> pcb_current s = pcb_addr (Suc k)" using B(7) by blast
qed

lemma procs_okI:
  assumes "length (pid_arr s) = 6" and "length (sched_pid s) = 3"
    and "unat (program_count s) = count_list (pid_arr s) 1"
    and "\<forall>k < 6. pid_arr s ! k = 0 \<or> pid_arr s ! k = 1" and "\<forall>k < 6. fds_ok (slot_pcb s k)"
    and "\<forall>k < 3. k < unat (program_count s) \<longrightarrow> live s k"
    and "\<And>k. live s k \<Longrightarrow> pid (slot_pcb s k) = of_nat (Suc k)"
    and "\<And>k. live s k \<Longrightarrow>
           if k < 3 then parent_is (slot_pcb s k) k else \<exists>j. live s j \<and> j \<noteq> k \<and> parent_is (slot_pcb s k) j"
    and "live s k" and "pcb_current s = pcb_addr (Suc k)"
  shows "procs_ok s"
proof -
  have "\<forall>k. live s k \<longrightarrow> pid (slot_pcb s k) = of_nat (Suc k)
      \<and> (if k < 3 then parent_is (slot_pcb s k) k else \<exists>j. live s j \<and> j \<noteq> k \<and> parent_is (slot_pcb s k) j)"
    using assms(7,8) by (intro allI impI conjI)
  moreover have "program_count s = 0 \<or> (\<exists>k. live s k \<and> pcb_current s = pcb_addr (Suc k))"
    using assms(9,10) by blast
  ultimately show ?thesis using assms(1-6) unfolding procs_ok_def by (intro conjI)
qed

lemma pcb_addr_inj [simp]: "pcb_addr j = pcb_addr k \<longleftrightarrow> j = k"
  by (simp add: pcb_addr_def)

lemma pcb_addr_nz: "k < 6 \<Longrightarrow> pcb_addr (Suc k) \<noteq> 0"
  by (simp add: pcb_addr_def)

lemma free_slot_SomeD:
  assumes "free_slot s = Some k"
  shows "k < 6" and "pid_arr s ! k = 0" and "\<And>j. j < k \<Longrightarrow> pid_arr s ! j \<noteq> 0"
proof -
  obtain i where i: "i < length [0..<6::nat]" "pid_arr s ! ([0..<6] ! i) = 0" "k = [0..<6] ! i"
    "\<forall>j < i. pid_arr s ! ([0..<6] ! j) \<noteq> 0"
    using assms unfolding free_slot_def find_Some_iff by blast
  then have k: "k = i" "i < 6" by (simp_all del: upt_rec_numeral)
  show "k < 6" "pid_arr s ! k = 0" using i k by (simp_all del: upt_rec_numeral)
  show "\<And>j. j < k \<Longrightarrow> pid_arr s ! j \<noteq> 0" using i(4) k by (simp del: upt_rec_numeral)
qed

lemma count_ones:
  assumes "length xs = n" and "\<forall>k < n. xs ! k = 1"
  shows "count_list xs (1 :: u8) = n"
proof -
  have "\<forall>x \<in> set ys. x = 1 \<Longrightarrow> count_list ys (1 :: u8) = length ys" for ys by (induction ys) auto
  then show ?thesis using assms by (simp add: all_set_conv_all_nth)
qed

lemma count_list_le: "count_list xs a \<le> length xs"
  by (induction xs) auto

text \<open>With fewer than six programs there is a free slot; below three it is the next base shell.\<close>

lemma free_slot_room:
  assumes "procs_ok s" and "program_count s < 6"
  obtains k where "free_slot s = Some k" and "\<not> live s k"
    and "program_count s < 3 \<Longrightarrow> k = unat (program_count s)" and "\<not> program_count s < 3 \<Longrightarrow> 3 \<le> k"
proof -
  have len: "length (pid_arr s) = 6" and bits: "\<forall>k < 6. pid_arr s ! k = 0 \<or> pid_arr s ! k = 1"
    and cnt: "unat (program_count s) = count_list (pid_arr s) 1"
    and base: "\<forall>k < 3. k < unat (program_count s) \<longrightarrow> live s k"
    using assms(1) by (auto simp: procs_ok_def)
  have lt: "unat (program_count s) < 6" using assms(2) by (simp add: word_less_nat_alt)
  have "free_slot s \<noteq> None"
  proof
    assume "free_slot s = None"
    then have "\<forall>k < 6. pid_arr s ! k = 1"
      using bits unfolding free_slot_def find_None_iff by (auto simp del: upt_rec_numeral)
    then have "count_list (pid_arr s) 1 = 6" using len by (rule count_ones [rotated])
    with cnt lt show False by simp
  qed
  then obtain k where k: "free_slot s = Some k" by blast
  note d = free_slot_SomeD [OF k]
  have nl: "\<not> live s k" using d(2) by (simp add: live_def)
  have ge: "3 \<le> k" if "\<not> program_count s < 3"
  proof (rule ccontr)
    assume "\<not> 3 \<le> k"
    moreover have "3 \<le> unat (program_count s)" using that by (simp add: word_less_nat_alt)
    ultimately show False using base nl by auto
  qed
  have eq: "k = unat (program_count s)" if "program_count s < 3"
  proof -
    let ?n = "unat (program_count s)"
    have n3: "?n < 3" using that by (simp add: word_less_nat_alt)
    have "\<not> k < ?n" using base nl n3 by auto
    moreover have "\<not> ?n < k"
    proof
      assume "?n < k"
      have ones: "pid_arr s ! j = 1" if "j < Suc ?n" for j
      proof -
        have "j < k" using that \<open>?n < k\<close> by simp
        then have "j < 6" "pid_arr s ! j \<noteq> 0" using d(1,3) by simp_all
        then show ?thesis using bits by blast
      qed
      have "count_list (take (Suc ?n) (pid_arr s)) 1 = Suc ?n"
        using ones n3 len by (intro count_ones) auto
      moreover have "count_list (take (Suc ?n) (pid_arr s)) 1 \<le> count_list (pid_arr s) 1"
        by (metis append_take_drop_id count_list_append le_add1)
      ultimately show False using cnt by simp
    qed
    ultimately show ?thesis by simp
  qed
  show thesis using that k nl eq ge by blast
qed

text \<open>A new process in a free slot, and a process that leaves.\<close>

lemma procs_ok_spawn:
  assumes ok: "procs_ok s" and room: "program_count s < 6" and k: "k < 6" "pid_arr s ! k = 0"
    and base: "program_count s < 3 \<Longrightarrow> k = unat (program_count s)" "\<not> program_count s < 3 \<Longrightarrow> 3 \<le> k"
    and t: "pid_arr t = (pid_arr s)[k := 1]" "program_count t = program_count s + 1" "length (sched_pid t) = 3"
      "pcb_at t = (pcb_at s)(pcb_addr (Suc k) := q)" "pcb_current t = pcb_addr (Suc k)"
    and q: "fds_ok q" "pid q = of_nat (Suc k)"
      "if k < 3 then parent_is q k else \<exists>j. live s j \<and> parent_is q j"
  shows "procs_ok t"
proof -
  have len: "length (pid_arr s) = 6" using ok by (simp add: procs_ok_def)
  have lt: "unat (program_count s) < 6" using room by (simp add: word_less_nat_alt)
  then have pc: "unat (program_count t) = Suc (unat (program_count s))"
    by (simp add: t(2) unat_word_ariths)
  have lv: "live t j \<longleftrightarrow> live s j \<or> j = k" for j using len k by (auto simp: live_def t(1) nth_list_update)
  have nk: "\<not> live s k" using k by (simp add: live_def)
  have "unat (program_count t) = count_list (pid_arr t) 1"
    using ok pc count_list_update_other [of k "pid_arr s" 0 1] k len by (simp add: t(1) procs_ok_def)
  moreover have "\<forall>j < 3. j < unat (program_count t) \<longrightarrow> live t j"
  proof (intro allI impI)
    fix j :: nat assume j: "j < 3" "j < unat (program_count t)"
    show "live t j"
    proof (cases "j < unat (program_count s)")
      case True
      then show ?thesis using ok j(1) by (simp add: lv procs_ok_def)
    next
      case False
      then have "j = unat (program_count s)" using j(2) pc by simp
      then show ?thesis using base(1) j(1) by (simp add: lv word_less_nat_alt)
    qed
  qed
  moreover have par: "if j < 3 then parent_is (slot_pcb t j) j else \<exists>i. live t i \<and> i \<noteq> j \<and> parent_is (slot_pcb t j) i"
    and ids: "pid (slot_pcb t j) = of_nat (Suc j)" if "live t j" for j
    using that q(2,3) nk procs_okD(7-9) [OF ok, of j] by (auto simp: lv t(4) not_less split: if_splits)
  moreover have "\<forall>j < 6. pid_arr t ! j = 0 \<or> pid_arr t ! j = 1"
    unfolding t(1) using procs_okD(4) [OF ok] len by (rule all_nth_update) simp_all
  moreover have "\<forall>j < 6. fds_ok (slot_pcb t j)" using procs_okD(5) [OF ok] q(1) by (simp add: t(4))
  moreover have "live t k" "length (pid_arr t) = 6" using len lv by (simp_all add: t(1))
  ultimately show ?thesis using t(3,5) by (intro procs_okI [of t k])
qed

lemma procs_ok_exit:
  assumes ok: "procs_ok s" and k: "live s k" "3 \<le> k" and cur: "pcb_current s = pcb_addr (Suc k)"
    and orphan: "\<And>j. live s j \<Longrightarrow> j \<noteq> k \<Longrightarrow> parent_pcb (slot_pcb s j) \<noteq> pcb_addr (Suc k)"
    and t: "pid_arr t = (pid_arr s)[k := 0]" "program_count t = program_count s - 1" "length (sched_pid t) = 3"
      "pcb_at t = (pcb_at s)(pcb_addr (Suc k) := q)" "pcb_current t = parent_pcb (slot_pcb s k)"
    and q: "fds_ok q"
  shows "procs_ok t"
proof -
  have len: "length (pid_arr s) = 6" and k6: "k < 6" "pid_arr s ! k = 1" using ok k by (simp_all add: procs_ok_def live_def)
  have lv: "live t j \<longleftrightarrow> live s j \<and> j \<noteq> k" for j using len k6 by (auto simp: live_def t(1) nth_list_update)
  have cnt: "count_list (pid_arr t) 1 + 1 = count_list (pid_arr s) 1"
    unfolding t(1) using len k6 by (intro count_list_update) auto
  have pcs: "unat (program_count s) = count_list (pid_arr s) 1" using ok by (simp add: procs_ok_def)
  then have "1 \<le> program_count s" using cnt by (simp add: word_le_nat_alt)
  then have pc: "unat (program_count t) = count_list (pid_arr t) 1"
    using cnt pcs by (simp add: t(2) unat_sub)
  obtain j where j: "live s j" "j \<noteq> k" "parent_is (slot_pcb s k) j"
    using procs_okD(9) [OF ok k] by blast
  have "\<forall>i < 3. i < unat (program_count t) \<longrightarrow> live t i"
    using procs_okD(6) [OF ok] k(2) pc pcs cnt by (auto simp: lv)
  moreover have "if i < 3 then parent_is (slot_pcb t i) i else \<exists>j. live t j \<and> j \<noteq> i \<and> parent_is (slot_pcb t i) j"
    and "pid (slot_pcb t i) = of_nat (Suc i)" if "live t i" for i
    using that orphan [of i] procs_okD(7-9) [OF ok, of i] by (auto simp: lv t(4) parent_is_def not_less)
  moreover have "\<forall>j < 6. pid_arr t ! j = 0 \<or> pid_arr t ! j = 1"
    unfolding t(1) using procs_okD(4) [OF ok] len by (rule all_nth_update) simp_all
  moreover have "\<forall>j < 6. fds_ok (slot_pcb t j)" using procs_okD(5) [OF ok] q by (simp add: t(4))
  moreover have "live t j" "pcb_current t = pcb_addr (Suc j)" using j by (simp_all add: lv t(5) parent_is_def)
  moreover have "length (pid_arr t) = 6" using len by (simp add: t(1))
  ultimately show ?thesis using t(3) pc by (intro procs_okI [of t j])
qed

lemma procs_ok_frame:
  assumes "pid_arr t = pid_arr s" and "program_count t = program_count s" and "sched_pid t = sched_pid s"
    and "pcb_at t = pcb_at s" and "pcb_current t = pcb_current s"
  shows "procs_ok t = procs_ok s"
  using assms by (simp add: procs_ok_def live_def)

lemma fds_fields [simp]:
  "fds_ok (p\<lparr>argbuf := a\<rparr>) = fds_ok p" "fds_ok (p\<lparr>argsflag := g\<rparr>) = fds_ok p"
  "fd_map (p\<lparr>argbuf := a\<rparr>) = fd_map p" "fd_map (p\<lparr>argsflag := g\<rparr>) = fd_map p"
  "fds_ok (p\<lparr>pid := i\<rparr>) = fds_ok p" "fds_ok (p\<lparr>parent_pid := i\<rparr>) = fds_ok p"
  "fds_ok (p\<lparr>pcb_esp := v\<rparr>) = fds_ok p" "fds_ok (p\<lparr>pcb_ebp := v\<rparr>) = fds_ok p" "fds_ok (p\<lparr>kesp := v\<rparr>) = fds_ok p"
  "fds_ok (p\<lparr>parent_pcb := b\<rparr>) = fds_ok p" "fds_ok (p\<lparr>pcb_ss0 := v\<rparr>) = fds_ok p" "fds_ok (p\<lparr>pcb_esp0 := v\<rparr>) = fds_ok p"
  "fd_map (p\<lparr>pcb_ss0 := v\<rparr>) = fd_map p" "fd_map (p\<lparr>pcb_esp0 := v\<rparr>) = fd_map p"
  by (simp_all add: fds_ok_def fd_map_def fun_eq_iff)

lemma std_pcb_facts:
  assumes "fds_ok p"
  shows "fds_ok (std_pcb args s p)" and "fd_map (std_pcb args s p) 0 = Some (terminal_operations_table, 0, 0)"
    and "fd_map (std_pcb args s p) 1 = Some (terminal_operations_table, 0, 0)"
    and "2 \<le> i \<Longrightarrow> fd_map (std_pcb args s p) i = fd_map p i"
    and "pid (std_pcb args s p) = pid p" and "parent_pid (std_pcb args s p) = parent_pid p"
    and "parent_pcb (std_pcb args s p) = parent_pcb p" and "argbuf (std_pcb args s p) = args"
    and "pcb_esp (std_pcb args s p) = pcb_esp p" and "pcb_ebp (std_pcb args s p) = pcb_ebp p"
proof -
  show "fds_ok (std_pcb args s p)"
    unfolding std_pcb_def using assms by (simp add: fds_ok_upd_fd init_fd_def)
  show "fd_map (std_pcb args s p) 0 = Some (terminal_operations_table, 0, 0)"
    "fd_map (std_pcb args s p) 1 = Some (terminal_operations_table, 0, 0)"
    "2 \<le> i \<Longrightarrow> fd_map (std_pcb args s p) i = fd_map p i"
    using assms by (simp_all add: std_pcb_def fd_map_def upd_fd_def init_fd_def fds_ok_def)
qed (simp_all add: std_pcb_def)

text \<open>The new process control block and bookkeeping, for a base shell and for a child.\<close>

definition spawned :: "nat \<Rightarrow> nat \<Rightarrow> u32 \<Rightarrow> u32 \<Rightarrow> u8 list \<Rightarrow> 'a kernel_scheme \<Rightarrow> 'a kernel_scheme \<Rightarrow> bool" where
  "spawned slot parent esp ebp args s t \<longleftrightarrow>
     pid_arr t = (pid_arr s)[slot := 1] \<and> program_count t = program_count s + 1
     \<and> pcb_current t = pcb_addr (Suc slot)
     \<and> (\<exists>q. pcb_at t = (pcb_at s)(pcb_addr (Suc slot) := q) \<and> pid q = of_nat (Suc slot) \<and> parent_is q parent
          \<and> fds_ok q \<and> fd_map q 0 = Some (terminal_operations_table, 0, 0)
          \<and> fd_map q 1 = Some (terminal_operations_table, 0, 0)
          \<and> (\<forall>i \<ge> 2. fd_map q i = fd_map (slot_pcb s slot) i)
          \<and> argbuf q = args \<and> pcb_esp q = esp \<and> pcb_ebp q = ebp)
     \<and> phys t = phys s \<and> xlate t = xlate s \<and> page_dir t = page_dir s \<and> fsys t = fsys s
     \<and> tables_ok t = tables_ok s \<and> terms_ok t = terms_ok s \<and> int_flag t
     \<and> sched_pid t = (sched_pid s)[(if program_count s < 3 then slot else user_term s) := of_nat (Suc slot)]
     \<and> curr_terminal t = curr_terminal s \<and> curr_process t = curr_process s \<and> tss_esp0 t = word_of_int (0x800000 - int slot * 0x2000 - 4)
     \<and> proc_frame s t"

lemma program_count_succ: "unat pc < 6 \<Longrightarrow> pc + 1 = (of_nat (Suc (unat pc)) :: u8)"
  by simp

lemma enter_base:
  assumes "procs_ok s" and "program_count s < 3" and "slot = unat (program_count s)"
  shows "\<exists>t. enter_program dev esp ebp slot args eip s = Inr (EntersUser eip t) \<and> spawned slot slot esp ebp args s t"
proof -
  let ?a = "pcb_addr (Suc slot)"
  obtain s' where s': "setup_base esp ebp s = (?a, s')" using assms(3) by (simp add: setup_base_def Let_def)
  have slot: "slot < 3" using assms(2,3) by (simp add: word_less_nat_alt)
  have pc: "program_count s + 1 = of_nat (Suc slot)" "unat (program_count s + 1) = Suc slot"
    using assms(3) slot by (simp_all add: unat_word_ariths)
  have f: "pid_arr s' = (pid_arr s)[slot := 1]" "program_count s' = program_count s + 1"
    "pcb_at s' ?a = (slot_pcb s slot)\<lparr>pid := program_count s + 1, parent_pid := program_count s + 1,
       kesp := kernel_esp (program_count s + 1), parent_pcb := ?a, pcb_esp := esp, pcb_ebp := ebp, argsflag := 0\<rparr>"
    "\<forall>b. b \<noteq> ?a \<longrightarrow> pcb_at s' b = pcb_at s b" "sched_pid s' = (sched_pid s)[slot := program_count s + 1]"
    "phys s' = phys s" "xlate s' = xlate s" "page_dir s' = page_dir s" "fsys s' = fsys s"
    "tables_ok s' = tables_ok s" "terms_ok s' = terms_ok s"
    "curr_terminal s' = curr_terminal s" "curr_process s' = curr_process s"
    using s' pc(2) assms(3) by (auto simp: setup_base_def Let_def upd_pcb_def)
  have fd: "fds_ok (pcb_at s' ?a)" "fd_map (pcb_at s' ?a) = fd_map (slot_pcb s slot)"
    using procs_okD(5) [OF assms(1), of slot] slot by (simp_all add: f(3) fd_map_def fun_eq_iff)
  obtain t where t: "start_user dev args eip slot ?a s' = Inr (EntersUser eip t)"
    "pcb_at t = (pcb_at s')(?a := std_pcb args s' (pcb_at s' ?a))" "pcb_current t = ?a" "pid_arr t = pid_arr s'"
    "program_count t = program_count s'" "sched_pid t = sched_pid s'" "phys t = phys s'" "xlate t = xlate s'"
    "page_dir t = page_dir s'" "fsys t = fsys s'" "tables_ok t = tables_ok s'" "terms_ok t = terms_ok s'"
    "tss_esp0 t = word_of_int (0x800000 - int slot * 0x2000 - 4)" "int_flag t"
    "curr_terminal t = curr_terminal s'" "curr_process t = curr_process s'" "proc_frame s' t"
    using start_user_eq [of ?a dev args eip slot s'] pcb_addr_nz [of slot] slot by auto
  note q = std_pcb_facts [where args = args and s = s', OF fd(1)]
  have fr: "proc_frame s t" using proc_frame_trans [OF _ t(17)] proc_frame_setup(1) [where s = s] s' by (metis snd_conv)
  have "spawned slot slot esp ebp args s t"
    unfolding spawned_def
    using fr t(1-16) f q fd pc assms(2) by (auto simp: fun_eq_iff parent_is_def intro!: exI [of _ "std_pcb args s' (pcb_at s' ?a)"])
  moreover have "enter_program dev esp ebp slot args eip s = Inr (EntersUser eip t)"
    using assms(2) s' t(1) by (simp add: enter_program_def)
  ultimately show ?thesis by blast
qed

lemma enter_child:
  assumes "procs_ok s" and "\<not> program_count s < 3" and "free_slot s = Some k" and "3 \<le> k"
    and "live s j" and "pcb_current s = pcb_addr (Suc j)"
  shows "\<exists>t. enter_program dev esp ebp slot args eip s = Inr (EntersUser eip t) \<and> spawned k j esp ebp args s t"
proof -
  let ?a = "pcb_addr (Suc k)" and ?b = "pcb_addr (Suc j)"
  have k: "k < 6" "\<not> live s k" using free_slot_SomeD [OF assms(3)] by (simp_all add: live_def)
  have ne: "j \<noteq> k" "?b \<noteq> 0" using assms(5) k pcb_addr_nz [of j] by (auto simp: live_def)
  obtain s' where s': "setup_child k esp ebp s = (?a, s')" by (simp add: setup_child_def Let_def)
  have f: "pid_arr s' = (pid_arr s)[k := 1]" "program_count s' = program_count s + 1"
    "pcb_at s' ?a = (slot_pcb s k)\<lparr>pid := of_nat (Suc k), parent_pid := pid (slot_pcb s j),
       kesp := kernel_esp (of_nat (Suc k)), parent_pcb := ?b, pcb_esp := esp, pcb_ebp := ebp, argsflag := args_flag s\<rparr>"
    "\<forall>b. b \<noteq> ?a \<longrightarrow> pcb_at s' b = pcb_at s b" "sched_pid s' = (sched_pid s)[user_term s := of_nat (Suc k)]"
    "phys s' = phys s" "xlate s' = xlate s" "page_dir s' = page_dir s" "fsys s' = fsys s"
    "tables_ok s' = tables_ok s" "terms_ok s' = terms_ok s"
    "curr_terminal s' = curr_terminal s" "curr_process s' = curr_process s"
    using s' ne assms(6) by (auto simp: setup_child_def Let_def upd_pcb_def)
  have fd: "fds_ok (pcb_at s' ?a)" "fd_map (pcb_at s' ?a) = fd_map (slot_pcb s k)"
    using procs_okD(5) [OF assms(1), of k] k by (simp_all add: f(3) fd_map_def fun_eq_iff)
  obtain t where t: "start_user dev args eip k ?a s' = Inr (EntersUser eip t)"
    "pcb_at t = (pcb_at s')(?a := std_pcb args s' (pcb_at s' ?a))" "pcb_current t = ?a" "pid_arr t = pid_arr s'"
    "program_count t = program_count s'" "sched_pid t = sched_pid s'" "phys t = phys s'" "xlate t = xlate s'"
    "page_dir t = page_dir s'" "fsys t = fsys s'" "tables_ok t = tables_ok s'" "terms_ok t = terms_ok s'"
    "tss_esp0 t = word_of_int (0x800000 - int k * 0x2000 - 4)" "int_flag t"
    "curr_terminal t = curr_terminal s'" "curr_process t = curr_process s'" "proc_frame s' t"
    using start_user_eq [of ?a dev args eip k s'] pcb_addr_nz [of k] k by auto
  note q = std_pcb_facts [where args = args and s = s', OF fd(1)]
  have fr: "proc_frame s t" using proc_frame_trans [OF _ t(17)] proc_frame_setup(2) [where s = s] s' by (metis snd_conv)
  have "spawned k j esp ebp args s t"
    unfolding spawned_def
    using fr t(1-16) f q fd procs_okD(7) [OF assms(1,5)] assms(2)
    by (auto simp: fun_eq_iff parent_is_def intro!: exI [of _ "std_pcb args s' (pcb_at s' ?a)"])
  moreover have "enter_program dev esp ebp slot args eip s = Inr (EntersUser eip t)"
    using assms(2,3,6) ne s' t(1) by (simp add: enter_program_def deref_pcb_def)
  ultimately show ?thesis by blast
qed

text \<open>Either way, the slot is the lowest free one and the process table stays well formed.\<close>

lemma enter_program_spawns:
  assumes ok: "procs_ok s" and "program_count s < 6" and "free_slot s = Some k"
  shows "\<exists>t j. enter_program dev esp ebp k args eip s = Inr (EntersUser eip t) \<and> spawned k j esp ebp args s t
     \<and> procs_ok t \<and> (if program_count s < 3 then j = k else live s j \<and> pcb_current s = pcb_addr (Suc j))"
proof -
  obtain l where l: "free_slot s = Some l" "program_count s < 3 \<Longrightarrow> l = unat (program_count s)"
    "\<not> program_count s < 3 \<Longrightarrow> 3 \<le> l"
    using free_slot_room [OF ok assms(2)] by blast
  then have base: "program_count s < 3 \<Longrightarrow> k = unat (program_count s)" "\<not> program_count s < 3 \<Longrightarrow> 3 \<le> k"
    using assms(3) by simp_all
  note k = free_slot_SomeD(1,2) [OF assms(3)]
  have cur: "\<exists>j. live s j \<and> pcb_current s = pcb_addr (Suc j)" if "\<not> program_count s < 3"
    using procs_okD(10) [OF ok] that by fastforce
  obtain t j where t: "enter_program dev esp ebp k args eip s = Inr (EntersUser eip t)" "spawned k j esp ebp args s t"
    and j: "if program_count s < 3 then j = k else live s j \<and> pcb_current s = pcb_addr (Suc j)"
  proof (cases "program_count s < 3")
    case True
    then show ?thesis using enter_base [OF ok True base(1), of dev esp ebp args eip] that by auto
  next
    case False
    with cur obtain j where j: "live s j" "pcb_current s = pcb_addr (Suc j)" by blast
    show ?thesis using enter_child [OF ok False assms(3) base(2) j, of dev esp ebp k args eip] False j that by auto
  qed
  obtain q where q: "pcb_at t = (pcb_at s)(pcb_addr (Suc k) := q)" "fds_ok q" "pid q = of_nat (Suc k)" "parent_is q j"
    using t(2) by (auto simp: spawned_def)
  have "if k < 3 then parent_is q k else \<exists>j. live s j \<and> parent_is q j"
    using j q(4) base by (auto simp: word_less_nat_alt split: if_splits)
  then have "procs_ok t"
    using t(2) q procs_okD(2) [OF ok] k by (intro procs_ok_spawn [OF ok assms(2) k base]) (auto simp: spawned_def)
  with t j show ?thesis by blast
qed

section \<open>Leaving\<close>

text \<open>What \<open>close_handler\<close> can change: the descriptors of the current process and the interrupt flag.\<close>

definition fds_only :: "'a kernel_scheme \<Rightarrow> 'a kernel_scheme \<Rightarrow> bool" where
  "fds_only s t \<longleftrightarrow> (\<exists>xs. pcb_at t = (pcb_at s)(pcb_current s := (cur_pcb s)\<lparr>pcb_arr := xs\<rparr>))
     \<and> fds_ok (cur_pcb t) \<and> pcb_current t = pcb_current s
     \<and> pid_arr t = pid_arr s \<and> program_count t = program_count s \<and> sched_pid t = sched_pid s
     \<and> phys t = phys s \<and> page_dir t = page_dir s \<and> fsys t = fsys s \<and> tables_ok t = tables_ok s
     \<and> terms_ok t = terms_ok s \<and> tss_esp0 t = tss_esp0 s"

lemma fds_only_trans: "fds_only s t \<Longrightarrow> fds_only t u \<Longrightarrow> fds_only s u"
  by (fastforce simp: fds_only_def)

lemma close_fds_only:
  assumes "pcb_current s \<noteq> 0" and "fds_ok (cur_pcb s)" and "2 \<le> fd" and "fd < 8"
  shows "fds_only s (snd (close_handler fd s))"
    and "fd_map (cur_pcb (snd (close_handler fd s))) = (fd_map (cur_pcb s))(nat fd := None)"
proof -
  let ?g = "\<lambda>f. f\<lparr>flags := 0\<rparr>"
  have len: "length (pcb_arr (cur_pcb s)) = 8" "nat fd < 8" using assms by (simp_all add: fds_ok_def)
  have "fd_map (cur_pcb s) (nat fd) = None \<Longrightarrow> fd_map (cur_pcb s) = (fd_map (cur_pcb s))(nat fd := None)"
    by (simp add: fun_upd_idem)
  then show "fd_map (cur_pcb (snd (close_handler fd s))) = (fd_map (cur_pcb s))(nat fd := None)"
    using fd_map_clear_fd [OF len, of ?g] by (simp add: close_handler_eq [OF assms])
  have "\<exists>xs. pcb_at s = (pcb_at s)(pcb_current s := (cur_pcb s)\<lparr>pcb_arr := xs\<rparr>)"
    by (rule exI [of _ "pcb_arr (cur_pcb s)"]) simp
  moreover have "\<exists>xs. upd_fd (nat fd) ?g (cur_pcb s) = (cur_pcb s)\<lparr>pcb_arr := xs\<rparr>" by (auto simp: upd_fd_def)
  ultimately show "fds_only s (snd (close_handler fd s))"
    using assms(2) fds_ok_upd_fd [OF assms(2) len(2), of ?g]
    by (auto simp: fds_only_def close_handler_eq [OF assms] upd_pcb_def cli_def sti_def)
qed

lemma close_all_fds_only:
  assumes "pcb_current s \<noteq> 0" and "fds_ok (cur_pcb s)"
  shows "fds_only s (close_all s)" and "\<forall>i. 2 \<le> i \<longrightarrow> fd_map (cur_pcb (close_all s)) i = None"
proof -
  have loop: "fds_only s t \<and> (\<forall>fd \<in> set prev. fd_map (cur_pcb t) (nat fd) = None) \<Longrightarrow> set todo \<subseteq> {2..7} \<Longrightarrow>
     fds_only s (fold (\<lambda>fd s. snd (close_handler fd s)) todo t)
     \<and> (\<forall>fd \<in> set (prev @ todo). fd_map (cur_pcb (fold (\<lambda>fd s. snd (close_handler fd s)) todo t)) (nat fd) = None)"
    for prev todo t
  proof (induction todo arbitrary: prev t)
    case Nil
    then show ?case by simp
  next
    case (Cons fd todo)
    have t: "pcb_current t \<noteq> 0" "fds_ok (cur_pcb t)" "2 \<le> fd" "fd < 8" using Cons.prems assms(1) by (auto simp: fds_only_def)
    have "fds_only s (snd (close_handler fd t))" using Cons.prems(1) close_fds_only(1) [OF t] fds_only_trans by blast
    then show ?case
      using Cons.prems close_fds_only(2) [OF t] Cons.IH [of "snd (close_handler fd t)" "prev @ [fd]"] by simp
  qed
  have self: "fds_only s s"
    using assms(2) by (auto simp: fds_only_def intro!: exI [of _ "pcb_arr (cur_pcb s)"])
  let ?t = "close_all s"
  have r: "fds_only s ?t" "\<forall>fd \<in> {2, 3, 4, 5, 6, 7}. fd_map (cur_pcb ?t) (nat fd) = None"
    using loop [of s "[]" "[2, 3, 4, 5, 6, 7]"] self by (simp_all add: close_all_def)
  show "fds_only s ?t" by (rule r)
  have "fd_map (cur_pcb ?t) i = None" if "2 \<le> i" for i
  proof (cases "i < 8")
    case True
    with that have "i = 2 \<or> i = 3 \<or> i = 4 \<or> i = 5 \<or> i = 6 \<or> i = 7" by auto
    then show ?thesis using r(2) by auto
  qed (simp add: fd_map_def)
  then show "\<forall>i. 2 \<le> i \<longrightarrow> fd_map (cur_pcb ?t) i = None" by blast
qed

lemma map_program_page_kernel [simp]:
  "pid_arr (map_program_page k s) = pid_arr s" "program_count (map_program_page k s) = program_count s"
  "sched_pid (map_program_page k s) = sched_pid s" "pcb_at (map_program_page k s) = pcb_at s"
  "pcb_current (map_program_page k s) = pcb_current s" "fsys (map_program_page k s) = fsys s"
  "phys (map_program_page k s) = phys s" "args_flag (map_program_page k s) = args_flag s"
  "curr_process (map_program_page k s) = curr_process s" "curr_terminal (map_program_page k s) = curr_terminal s"
  "tss_esp0 (map_program_page k s) = tss_esp0 s"
  by (simp_all add: map_program_page_def Let_def upd_dir_def load_pde_def flush_tlb_def)

lemma terms_ok_map_program_page: "terms_ok s \<Longrightarrow> k < 6 \<Longrightarrow> terms_ok (map_program_page (int k) s)"
proof -
  assume ok: "terms_ok s" and k: "k < 6"
  have "tables_ok (map_program_page (int k) s)"
    using ok k by (intro tables_ok_map_program_page) (simp_all add: terms_ok_def base_ok_def)
  with ok show ?thesis
    by (simp add: terms_ok_def base_ok_def cursor_ok_def map_program_page_def Let_def upd_dir_def load_pde_def)
qed

section \<open>Properties\<close>

text \<open>The effect of \<open>execute\<close> up to loading.\<close>

lemma execute_named_eq:
  assumes "program_count s < 6" and "cmd \<noteq> 0" and "parse_command cm cmd = Some (Inr (exec, args))"
    and "exec_header (vview s) (fsys s) exec = Inr (Some (inode, eip))" and "free_slot s = Some k"
  shows "\<exists>v. execute_named dev esp ebp cm cmd s =
     Option.bind (load_program inode 0 (map_program_page (int k) ((cli s)\<lparr>args_flag := v\<rparr>)))
       (\<lambda>r. Some (and_then r (\<lambda>(ok, s). if ok then enter_program dev esp ebp k args eip s else Inr (Returns (-1) s))))"
proof -
  have vw: "vview (s\<lparr>args_flag := v\<rparr>) = vview s" for v and s :: "'a kernel_scheme"
    by (simp add: vview_def cong: option.case_cong)
  have "free_slot (s\<lparr>args_flag := v\<rparr>) = free_slot s" "free_slot (cli s) = free_slot s" for v and s :: "'a kernel_scheme"
    by (simp_all add: free_slot_def)
  moreover have "\<not> 6 \<le> program_count s" using assms(1) by (simp add: not_le)
  ultimately show ?thesis
    using assms(2-5) by (intro exI [of _ "next_args_flag args (args_flag s)"])
      (simp add: execute_named_def Let_def vw)
qed

text \<open>
  Whatever the pointer, \<open>execute\<close> ends. A walk over the command that meets no NUL ends with a
  page fault, and every iteration of the loop that copies the executable reads a byte, ends or
  faults; \<open>Diverges\<close> is no result.
\<close>

lemma open_named_ends:
  assumes "cstr m a xs" and "a \<noteq> 0" shows "open_named dev m a s \<noteq> Inl Diverges"
proof -
  obtain r where r: "read_dentry_by_name m (fsys s) a = Inr r" using read_dentry_by_name_eq [OF assms] by blast
  have fs: "fsys (cli s) = fsys s" by simp
  show ?thesis
    unfolding open_named_def Let_def strlen_cstr [OF assms(1)] fs r
    by (simp add: deref_pcb_def check_def split: option.split)
qed

lemma open_named_std_ends:
  "open_named dev (with_literal (-128) ''stdin'' m) (-128) s \<noteq> Inl Diverges"
  "open_named dev (with_literal (-128) ''stdout'' m) (-128) s \<noteq> Inl Diverges"
  by (rule open_named_ends [OF cstr_literal [OF literals_ok(1)]], simp)
    (rule open_named_ends [OF cstr_literal [OF literals_ok(2)]], simp)

lemma start_user_ends: "start_user dev args eip slot child s \<noteq> Inl Diverges"
proof -
  have seq: "and_then r f \<noteq> Inl Diverges" if "r \<noteq> Inl Diverges" "\<And>x. f x \<noteq> Inl Diverges" for r and f :: "'x \<Rightarrow> 'y res"
    using that by (cases r) simp_all
  show ?thesis
    unfolding start_user_def Let_def
    by (rule seq [OF open_named_std_ends(1)], clarsimp split: prod.splits simp del: not_None_eq)
      (erule rev_notE, rule seq [OF open_named_std_ends(2)], simp split: prod.split)
qed

lemma enter_program_ends: "enter_program dev esp ebp slot args eip s \<noteq> Inl Diverges"
  by (simp add: start_user_ends enter_program_def deref_pcb_def check_def split: prod.split option.split)

lemma execute_ends:
  assumes "tables_ok s"
  shows "\<exists>r. execute_handler dev esp ebp cmd s = Some r \<and> r \<noteq> Inl Diverges"
proof -
  have "\<forall>a \<ge> 2 ^ 32. \<exists>e. vread a s = Inl e" using vread_high [OF assms] by blast
  from parse_command_ends [OF _ this] vread_ends obtain r where
    r: "parse_command (\<lambda>a. vread a s) cmd = Some r" "r \<noteq> Inl Diverges" by blast
  have load: "\<exists>y. Option.bind (load_program i 0 u) (\<lambda>r. Some (and_then r (\<lambda>(ok, s).
      if ok then enter_program dev esp ebp k args eip s else Inr (Returns (-1) s)))) = Some y \<and> y \<noteq> Inl Diverges"
    for i k args eip and u :: "'a kernel_scheme"
    using load_program_total [of i 0 u] by (auto simp: enter_program_ends)
  show ?thesis
  proof (cases "6 \<le> program_count s \<or> cmd = 0")
    case True
    then show ?thesis by (auto simp: execute_handler_def execute_named_def Let_def)
  next
    case False
    show ?thesis
    proof (cases r)
      case (Inl e)
      then show ?thesis using False r by (auto simp: execute_handler_def execute_named_def Let_def)
    next
      case (Inr p)
      obtain exec args where p: "p = (exec, args)" by (cases p)
      define u where "u = (cli s)\<lparr>args_flag := next_args_flag args (args_flag s)\<rparr>"
      have u: "execute_handler dev esp ebp cmd s =
         (case exec_header (vview u) (fsys u) exec of
            Inl e \<Rightarrow> Some (Inl e)
          | Inr None \<Rightarrow> Some (Inr (Returns (-1) u))
          | Inr (Some (inode, eip)) \<Rightarrow>
              (case free_slot u of
                 None \<Rightarrow> Some (Inl OutOfBounds)
               | Some slot \<Rightarrow>
                   Option.bind (load_program inode 0 (map_program_page (int slot) u)) (\<lambda>r.
                   Some (and_then r (\<lambda>(ok, s).
                     if ok then enter_program dev esp ebp slot args eip s
                     else Inr (Returns (-1) s))))))"
        unfolding u_def using False r Inr p by (simp add: execute_handler_def execute_named_def Let_def)
      show ?thesis
        unfolding u using exec_header_ends [of "vview u" "fsys u" exec] load
        by (auto split: sum.split option.split)
    qed
  qed
qed

text \<open>
  The file that the first word names, if there is one, is well formed, has the four bytes that are
  compared with the magic number and, if they are, an entry point, and fits the page.
\<close>

definition named_file_ok :: "'a kernel_scheme \<Rightarrow> u8 list \<Rightarrow> bool" where
  "named_file_ok s w \<longleftrightarrow>
     (\<forall>d. lookup (vview s) (fsys s) w = Some d \<longrightarrow> inode_ok (vview s) (fsys s) (inode_num d)
        \<and> 3 \<le> file_length (vview s) (fsys s) (inode_num d)
        \<and> (take 4 (readable (vview s) (fsys s) (inode_num d)) = elf_magic \<longrightarrow>
             27 < file_length (vview s) (fsys s) (inode_num d)
             \<and> file_length (vview s) (fsys s) (inode_num d) < 0x3B8000))"

text \<open>A file that is not there, or has another magic number, is refused.\<close>

lemma exec_header_refuses:
  assumes wf: "fs_wf m f" and w: "\<forall>b \<in> set w. b \<noteq> 0" "length w \<le> 127"
    and named: "\<And>d. lookup m f w = Some d \<Longrightarrow> length w \<le> 32 \<Longrightarrow> inode_ok m f (inode_num d)
      \<and> 3 \<le> file_length m f (inode_num d) \<and> take 4 (readable m f (inode_num d)) \<noteq> elf_magic"
  shows "exec_header m f (w @ replicate (128 - length w) 0) = Inr None"
proof -
  let ?x = "w @ replicate (128 - length w) 0"
  let ?m = "mwrite m (-512) ?x"
  have x: "length ?x = 128" "0 \<in> set ?x" using w(2) by auto
  have same: "same_image m ?m f" using wf by (rule same_image_local) (simp only: x(1))
  have "\<forall>i < length w. ?x ! i = w ! i" "?x ! length w = 0" "length w < 128"
    using w(2) by (simp_all add: nth_append)
  then have "cstr ?m (-512) w"
    unfolding cstr_iff using w(1) by (auto simp: mwrite_apply x(1) add.commute [of "-512"])
  moreover have "lookup ?m f w = lookup m f w"
    using wf by (intro lookup_cong mwrite_outside) (simp only: x(1) fs_wf_def, linarith)
  ultimately have nm: "read_dentry_by_name ?m f (-512) = Inr (if length w \<le> 32 then lookup m f w else None)"
    by (simp add: read_dentry_by_name_eq)
  show ?thesis
  proof (cases "if length w \<le> 32 then lookup m f w else None")
    case None
    then show ?thesis using nm x(2) by (simp add: exec_header_def check_def del: replicate.simps)
  next
    case (Some d)
    then have d: "lookup m f w = Some d" "length w \<le> 32" by (auto split: if_splits)
    note fd = named [OF d]
    then have ino: "inode_ok m f (inode_num d)" by blast
    let ?b = "take 4 (readable m f (inode_num d))"
    have len: "length ?b = 4" using fd by (simp add: length_readable)
    note m = fs_wf_same [OF same wf] inode_ok_same [OF wf ino same] readable_same [OF wf ino same]
    have "read_data ?m f (inode_num d) 0 (-512) 4 = (4, mwrite ?m (-512) ?b)"
      using read_data_eq [OF m(1,2), of "-512" 4 0] m(3) len not_in_image_local [OF m(1)] by simp
    moreover have "mread (mwrite ?m (-512) ?b) (-512) 4 = ?b" using mread_mwrite [of ?m "-512" ?b] unfolding len .
    ultimately show ?thesis
      using nm Some x(2) fd by (simp add: exec_header_def Let_def check_def elf_magic_def)
  qed
qed

lemma terms_ok_phys [simp]: "terms_ok (s\<lparr>phys := m\<rparr>) = terms_ok s"
  by (simp add: terms_ok_def base_ok_def cursor_ok_def)

lemma free_slot_cong: "pid_arr t = pid_arr s \<Longrightarrow> free_slot t = free_slot s"
  by (simp add: free_slot_def)

text \<open>What holds when \<open>execute\<close> enters the program: \<open>k\<close> is its slot and \<open>bytes\<close> the file.\<close>

definition entered :: "nat \<Rightarrow> u8 list \<Rightarrow> u8 list \<Rightarrow> 'a kernel_scheme \<Rightarrow> 'a kernel_scheme \<Rightarrow> bool" where
  "entered k bytes args s t \<longleftrightarrow>
     pid_arr t = (pid_arr s)[k := 1] \<and> program_count t = program_count s + 1
     \<and> pcb_current t = pcb_addr (Suc k) \<and> (\<forall>a. a \<noteq> pcb_addr (Suc k) \<longrightarrow> pcb_at t a = pcb_at s a)
     \<and> fd_map (cur_pcb t) 0 = Some (terminal_operations_table, 0, 0)
     \<and> fd_map (cur_pcb t) 1 = Some (terminal_operations_table, 0, 0)
     \<and> argbuf (cur_pcb t) = args \<and> mapped_slot t k
     \<and> fsys t = fsys s \<and> mread (vview t) 0x8048000 (length bytes) = bytes \<and> (\<forall>a \<in> kernel_page. phys t a = phys s a)
     \<and> phys t = mwrite (phys s) (user_phys k 0x8048000) bytes
     \<and> page_dir t = (page_dir s)[32 := program_pde k] \<and> proc_frame s t
     \<and> sched_pid t = (sched_pid s)[(if program_count s < 3 then k else user_term s) := of_nat (Suc k)]
     \<and> curr_terminal t = curr_terminal s \<and> curr_process t = curr_process s
     \<and> tss_esp0 t = word_of_int (0x800000 - int k * 0x2000 - 4) \<and> int_flag t"

lemma execute_enters:
  assumes ok: "procs_ok s" "terms_ok s" "fs_ok s" and room: "program_count s < 6" and cmd: "cmd \<noteq> 0"
    and line: "rstr cm cmd (w @ replicate g 0x20 @ rest)" "command_line w g rest"
    and run: "runnable (vview s) (fsys s) w inode eip"
    and size: "file_length (vview s) (fsys s) inode < 0x3B8000" and k: "free_slot s = Some k"
  shows "\<exists>t j. execute_named dev esp ebp cm cmd s = Some (Inr (EntersUser eip t)) \<and> procs_ok t \<and> terms_ok t \<and> fs_ok t
     \<and> entered k (readable (vview s) (fsys s) inode)
          (take (127 - (length w + g)) rest @ replicate (128 - min (127 - (length w + g)) (length rest)) 0) s t
     \<and> pcb_esp (cur_pcb t) = esp \<and> pcb_ebp (cur_pcb t) = ebp \<and> parent_is (cur_pcb t) j
     \<and> (if program_count s < 3 then j = k else live s j \<and> pcb_current s = pcb_addr (Suc j))"
proof -
  let ?bs = "readable (vview s) (fsys s) inode"
  define args where "args = take (127 - (length w + g)) rest @ replicate (128 - min (127 - (length w + g)) (length rest)) (0 :: u8)"
  have k6: "k < 6" using free_slot_SomeD [OF k] by simp
  have wf: "fs_wf (vview s) (fsys s)" and tok: "tables_ok s"
    using ok by (simp_all add: fs_ok_def terms_ok_def base_ok_def)
  have w: "\<forall>b \<in> set w. b \<noteq> 0" "length w \<le> 127" using line(2) by (auto simp: command_line_def stops_word_def)
  obtain v where v: "execute_named dev esp ebp cm cmd s =
     Option.bind (load_program inode 0 (map_program_page (int k) ((cli s)\<lparr>args_flag := v\<rparr>)))
       (\<lambda>r. Some (and_then r (\<lambda>(ok, s). if ok then enter_program dev esp ebp k args eip s else Inr (Returns (-1) s))))"
    using execute_named_eq [OF room cmd parse_command_eq [OF line] exec_header_eq [OF wf w run] k, of dev esp ebp]
    unfolding args_def by blast
  let ?s1 = "map_program_page (int k) ((cli s)\<lparr>args_flag := v\<rparr>)"
  have s1: "tables_ok ?s1" "mapped_slot ?s1 k" "terms_ok ?s1"
    using tables_ok_map_program_page [of "(cli s)\<lparr>args_flag := v\<rparr>" k] tok k6
      terms_ok_map_program_page [of "(cli s)\<lparr>args_flag := v\<rparr>" k] ok(2) by simp_all
  note fr = fs_ok_frame [OF tok s1(1) ok(3)]
  have ino: "inode_ok (vview s) (fsys s) inode" using run by (auto simp: runnable_def)
  have f1: "fs_ok ?s1" "inode_ok (vview ?s1) (fsys ?s1) inode" "readable (vview ?s1) (fsys ?s1) inode = ?bs"
    using fr ino by simp_all
  have len: "length ?bs = Suc (file_length (vview ?s1) (fsys ?s1) inode)" using f1(3) length_readable by metis
  then have size1: "file_length (vview ?s1) (fsys ?s1) inode < 0x3B8000" using size by (simp add: length_readable)
  let ?s2 = "?s1\<lparr>phys := mwrite (phys s) (user_phys k 0x8048000) ?bs\<rparr>"
  have ld: "load_program inode 0 ?s1 = Some (Inr (True, ?s2))"
    using load_program_eq [OF s1(1,2) k6 f1(1,2) size1] f1(3) by simp
  have ub: "user_buffer 0x8048000 (length ?bs)" using size by (simp add: user_buffer_def length_readable)
  have "procs_ok ?s2" using ok(1) procs_ok_frame [of ?s2 s] by simp
  then obtain t j where t: "enter_program dev esp ebp k args eip ?s2 = Inr (EntersUser eip t)"
    "spawned k j esp ebp args ?s2 t" "procs_ok t"
    "if program_count s < 3 then j = k else live s j \<and> pcb_current s = pcb_addr (Suc j)"
    using enter_program_spawns [of ?s2 k dev esp ebp args eip] room k free_slot_cong [of ?s2 s]
    by (auto simp: live_def cong: if_cong)
  have st: "phys t = phys ?s2" "xlate t = xlate ?s1" "page_dir t = page_dir ?s1" "fsys t = fsys s" "tables_ok t" "terms_ok t"
    using t(2) s1 by (simp_all add: spawned_def)
  have kp: "\<forall>a \<in> kernel_page. phys t a = phys s a" using mwrite_user_kernel [OF ub] st(1) by simp
  have pd: "page_dir t = (page_dir s)[32 := program_pde k]"
    using st(3) map_program_page_eq [of "(cli s)\<lparr>args_flag := v\<rparr>" k] tok k6 by (simp add: tables_ok_def)
  have pf: "proc_frame s t"
    using t(2) proc_frame_trans [of s ?s2 t] proc_frame_map_program_page [of s "int k" v]
    by (simp add: spawned_def)
  have "vview t (0x8048000 + int i) = ?bs ! i" if "i < length ?bs" for i
    using xlate_user [OF s1(1,2) k6 ub that] that st(1,2) by (simp add: vview_def mwrite_inside)
  then have "mread (vview t) 0x8048000 (length ?bs) = ?bs" by (intro nth_equalityI) simp_all
  then have "entered k ?bs args s t"
    using t(2) kp s1(2) st(1,3) pd pf by (auto simp: entered_def spawned_def mapped_slot_def)
  moreover have "fs_ok t" by (rule fs_ok_frame(1) [OF tok st(5) ok(3) st(4) kp])
  moreover have "pcb_esp (cur_pcb t) = esp" "pcb_ebp (cur_pcb t) = ebp" "parent_is (cur_pcb t) j"
    using t(2) by (auto simp: spawned_def)
  ultimately show ?thesis using v ld t st(6) unfolding args_def by auto
qed

text \<open>What holds when \<open>halt\<close> resumes the parent in slot \<open>j\<close> of the process in slot \<open>k\<close>.\<close>

definition left :: "nat \<Rightarrow> nat \<Rightarrow> 'a kernel_scheme \<Rightarrow> 'a kernel_scheme \<Rightarrow> bool" where
  "left k j s t \<longleftrightarrow>
     pid_arr t = (pid_arr s)[k := 0] \<and> program_count t = program_count s - 1
     \<and> pcb_current t = pcb_addr (Suc j) \<and> mapped_slot t j
     \<and> (\<forall>a. a \<noteq> pcb_addr (Suc k) \<longrightarrow> pcb_at t a = pcb_at s a)
     \<and> (\<forall>i \<ge> 2. fd_map (slot_pcb t k) i = None) \<and> argbuf (slot_pcb t k) = replicate 128 0
     \<and> phys t = phys s \<and> fsys t = fsys s \<and> tss_esp0 t = pcb_esp (slot_pcb s j) \<and> int_flag t"

lemma pid_of_slot:
  "k < 6 \<Longrightarrow> unat (of_nat (Suc k) :: u8) = Suc k" "k < 6 \<Longrightarrow> uint (of_nat (Suc k) :: u8) - 1 = int k"
  "k < 6 \<Longrightarrow> (of_nat (Suc k) :: u8) \<le> 3 \<longleftrightarrow> k < 3"
proof -
  have "k < 6 \<Longrightarrow> k = 0 \<or> k = 1 \<or> k = 2 \<or> k = 3 \<or> k = 4 \<or> k = 5" by auto
  then show "k < 6 \<Longrightarrow> unat (of_nat (Suc k) :: u8) = Suc k" "k < 6 \<Longrightarrow> uint (of_nat (Suc k) :: u8) - 1 = int k"
    "k < 6 \<Longrightarrow> (of_nat (Suc k) :: u8) \<le> 3 \<longleftrightarrow> k < 3" by auto
qed

lemma halt_leaves:
  assumes ok: "procs_ok s" "terms_ok s" and k: "live s k" "3 \<le> k" and cur: "pcb_current s = pcb_addr (Suc k)"
    and j: "live s j" "j \<noteq> k" "parent_is (slot_pcb s k) j"
  shows "\<exists>t. halt_handler status s =
       Some (Inr (ResumesParent (pcb_ebp (slot_pcb s j)) (pcb_esp (slot_pcb s j)) status t))
     \<and> left k j s t \<and> terms_ok t \<and> length (sched_pid t) = length (sched_pid s) \<and> fds_ok (slot_pcb t k)"
proof -
  let ?a = "pcb_addr (Suc k)" and ?b = "pcb_addr (Suc j)" and ?p = "slot_pcb s k"
  have k6: "k < 6" "j < 6" using k(1) j(1) by (simp_all add: live_def)
  have nz: "?a \<noteq> 0" using k6 by (simp add: pcb_addr_nz)
  have par: "parent_pcb ?p = ?b" "uint (parent_pid ?p) - 1 = int j"
    using j(3) pid_of_slot(2) [OF k6(2)] by (simp_all only: parent_is_def)
  have idx: "unat (pid ?p) - 1 = k" "\<not> pid ?p \<le> 3" "\<not> length (pid_arr s) < unat (pid ?p)"
    "\<not> length (sched_pid s) \<le> proc_term s" "?b \<noteq> 0"
    using pcb_addr_nz [OF k6(2)] procs_okD(1,2) [OF ok(1)] k6(1) ok(2) procs_okD(7) [OF ok(1) k(1)] pid_of_slot [OF k6(1)] k(2) by (simp_all add: terms_ok_def base_ok_def cursor_ok_def)
  define s1 where "s1 = (map_program_page (int j) ((cli s)\<lparr>pid_arr := (pid_arr s)[k := 0],
      sched_pid := (sched_pid s)[proc_term s := parent_pid ?p], program_count := program_count s - 1\<rparr>))
      \<lparr>tss_ss0 := 0x18, tss_esp0 := pcb_esp (slot_pcb s j)\<rparr>"
  define s2 where "s2 = upd_pcb ?a (\<lambda>p. p\<lparr>argbuf := replicate 128 0, argsflag := 0\<rparr>) s1"
  have tok: "tables_ok ((cli s)\<lparr>pid_arr := x, sched_pid := y, program_count := z\<rparr>)" for x y z
    using ok(2) by (simp add: terms_ok_def base_ok_def)
  have s1: "mapped_slot s1 j" "terms_ok s1" "pcb_current s1 = ?a" "pcb_at s1 = pcb_at s" "phys s1 = phys s" "fsys s1 = fsys s"
    "pid_arr s1 = (pid_arr s)[k := 0]" "program_count s1 = program_count s - 1"
    "length (sched_pid s1) = length (sched_pid s)" "tss_esp0 s1 = pcb_esp (slot_pcb s j)"
    using tables_ok_map_program_page(2) [OF tok k6(2)] ok(2) k6(2) cur
    by (simp_all add: s1_def mapped_slot_def terms_ok_map_program_page)
  have s2: "pcb_current s2 = ?a" "cur_pcb s2 = ?p\<lparr>argbuf := replicate 128 0, argsflag := 0\<rparr>" "fds_ok (cur_pcb s2)"
    "\<forall>a. a \<noteq> ?a \<longrightarrow> pcb_at s2 a = pcb_at s a"
    using s1(3,4) procs_okD(5) [OF ok(1) k6(1)] by (simp_all add: s2_def)
  let ?s3 = "close_all s2"
  note c = close_all_fds_only [of s2, unfolded s2(1), OF nz, folded s2(1), OF s2(3)]
  define t where "t = sti (?s3\<lparr>pcb_current := parent_pcb (cur_pcb ?s3)\<rparr>)"
  have s3: "parent_pcb (cur_pcb ?s3) = ?b" "argbuf (cur_pcb ?s3) = replicate 128 0" "pcb_current ?s3 = ?a"
    "\<forall>a. a \<noteq> ?a \<longrightarrow> pcb_at ?s3 a = pcb_at s a"
    using c(1) s2 par(1) by (auto simp: fds_only_def)
  have "halt_handler status s = Some (Inr (ResumesParent (pcb_ebp (slot_pcb s j)) (pcb_esp (slot_pcb s j)) status t))"
    using cur nz idx par
    by (simp add: halt_handler_def Let_def t_def s2_def s1_def)
  moreover have "left k j s t" "terms_ok t" "length (sched_pid t) = length (sched_pid s)" "fds_ok (slot_pcb t k)"
    using c s1 s3 s2(1) unfolding left_def fds_only_def t_def
    by (auto simp: mapped_slot_def s2_def)
  ultimately show ?thesis by blast
qed

lemma printf_scr:
  assumes "scr_inv e s" and "cstr m a fmt" and "0x25 \<notin> set fmt"
  shows "\<exists>r. printf m a [] s = Some r \<and> post r (\<lambda>(n, t). n = int (length fmt) \<and> scr_inv e t)"
proof -
  have "post (and_then (fold_res putc fmt s) (\<lambda>s. and_then (update_cursor s) (\<lambda>s. Inr (int (length fmt), s))))
      (\<lambda>(n, t). n = int (length fmt) \<and> scr_inv e t)"
    using putc.loop_inv [OF assms(1)] scr_inv_update_cursor [of e]
    by (intro post_seq [where Q = "scr_inv e"]) (auto intro!: postI simp: and_then_Inr_iff)
  then show ?thesis using printf_plain [OF assms(2,3), of "[]" s] by blast
qed

lemma erase_kernel:
  fixes s t :: "'a kernel_scheme"
  assumes "erase t = erase s"
  shows "pid_arr t = pid_arr s" "program_count t = program_count s" "sched_pid t = sched_pid s" "pcb_at t = pcb_at s"
    "pcb_current t = pcb_current s" "fsys t = fsys s" "page_dir t = page_dir s"
proof -
  have f: "pid_arr (erase u) = pid_arr u" "program_count (erase u) = program_count u" "sched_pid (erase u) = sched_pid u"
    "pcb_at (erase u) = pcb_at u" "pcb_current (erase u) = pcb_current u" "fsys (erase u) = fsys u"
    "page_dir (erase u) = page_dir u" for u :: "'a kernel_scheme" by (simp_all add: erase_def)
  show "pid_arr t = pid_arr s" "program_count t = program_count s" "sched_pid t = sched_pid s" "pcb_at t = pcb_at s"
    "pcb_current t = pcb_current s" "fsys t = fsys s" "page_dir t = page_dir s"
    using f [of t] f [of s] assms by simp_all
qed

lemma halt_base_scr:
  assumes ok: "terms_ok s" and pid: "pid (cur_pcb s) \<le> 3" "pcb_current s \<noteq> 0"
  shows "\<exists>r. halt_handler status s = Some r \<and> post r (\<lambda>out. \<exists>t. out = Returns 0 t \<and> erase t = erase (cli s) \<and> terms_ok t)"
proof -
  let ?m = "with_literal (-64) ''Can't exit base shell!'' (vview (cli s))"
  have scr: "scr_inv (erase (cli s)) (cli s)" and tcli: "terms_ok (cli s)" using ok by (simp_all add: terms_ok_scr_self)
  have "cstr ?m (-64) (bytes_of ''Can't exit base shell!'')"
    by (rule cstr_literal) (simp add: bytes_of_def)
  moreover have "0x25 \<notin> set (bytes_of ''Can't exit base shell!'')" by (simp add: bytes_of_def)
  ultimately obtain r where r: "printf ?m (-64) [] (cli s) = Some r"
    and post: "post r (\<lambda>(n, t). n = int (length (bytes_of ''Can't exit base shell!'')) \<and> scr_inv (erase (cli s)) t)"
    using printf_scr [OF scr] by blast
  have fin: "erase t = erase (cli s)" "terms_ok t" if "scr_inv (erase (cli s)) t" for t
    using that terms_ok_scr [OF tcli that] by (simp_all add: scr_inv_def)
  have "halt_handler status s = Some (and_then r (\<lambda>(_, s). Inr (Returns 0 s)))"
    using pid r by (simp add: halt_handler_def Let_def)
  moreover have "post (and_then r (\<lambda>(_, s). Inr (Returns 0 s))) (\<lambda>out. \<exists>t. out = Returns 0 t \<and> erase t = erase (cli s)
           \<and> terms_ok t)"
    using post fin by (intro post_seq [OF post]) auto
  ultimately show ?thesis by blast
qed

lemma halt_base:
  assumes ok: "procs_ok s" "terms_ok s" and k: "live s k" "k < 3" and cur: "pcb_current s = pcb_addr (Suc k)"
  shows "\<exists>r. halt_handler status s = Some r \<and> post r (\<lambda>out. \<exists>t. out = Returns 0 t \<and> erase t = erase (cli s)
           \<and> procs_ok t \<and> terms_ok t)"
proof -
  have "k < 6" using k(2) by simp
  have pid: "pid (cur_pcb s) \<le> 3" "pcb_current s \<noteq> 0"
    using procs_okD(7) [OF ok(1) k(1)] pid_of_slot(3) [OF \<open>k < 6\<close>] k(2) pcb_addr_nz [OF \<open>k < 6\<close>] cur by simp_all
  have fin: "procs_ok t" if "erase t = erase (cli s)" for t
    using ok(1) erase_kernel [OF that] procs_ok_frame [of t s] by simp
  obtain r where "halt_handler status s = Some r"
    "post r (\<lambda>out. \<exists>t. out = Returns 0 t \<and> erase t = erase (cli s) \<and> terms_ok t)"
    using halt_base_scr [OF ok(2) pid] by blast
  then show ?thesis using fin by (intro exI [of _ r]) (auto simp: post_def)
qed

text \<open>What \<open>execute\<close> can end with.\<close>

lemma execute_cases:
  assumes ex: "execute_named dev esp ebp cm cmd s = Some (Inr out)"
  obtains (refused) "out = Returns (-1) (cli s)"
    | (no_file) v where "out = Returns (-1) ((cli s)\<lparr>args_flag := v\<rparr>)"
    | (no_data) v k m where "k < 6" "out = Returns (-1) ((map_program_page (int k) ((cli s)\<lparr>args_flag := v\<rparr>))\<lparr>phys := m\<rparr>)"
    | (enters) v k m args eip where "k < 6" "free_slot s = Some k" "program_count s < 6"
        "enter_program dev esp ebp k args eip ((map_program_page (int k) ((cli s)\<lparr>args_flag := v\<rparr>))\<lparr>phys := m\<rparr>) = Inr out"
proof (cases "6 \<le> program_count s \<or> cmd = 0")
  case True
  then have "execute_named dev esp ebp cm cmd s = Some (Inr (Returns (-1) (cli s)))"
    by (auto simp: execute_named_def Let_def)
  then show thesis using ex refused by simp
next
  case False
  then obtain r0 where r0: "parse_command cm cmd = Some r0"
    using ex by (cases "parse_command cm cmd") (simp_all add: execute_named_def Let_def)
  then obtain exec args where "r0 = Inr (exec, args)"
    using ex False by (cases r0) (auto simp: execute_named_def Let_def)
  with r0 have r: "parse_command cm cmd = Some (Inr (exec, args))" by simp
  define v where "v = next_args_flag args (args_flag (cli s))"
  define u where "u = (cli s)\<lparr>args_flag := v\<rparr>"
  have x: "(case exec_header (vview u) (fsys u) exec of
      Inl e \<Rightarrow> Some (Inl e) | Inr None \<Rightarrow> Some (Inr (Returns (-1) u))
    | Inr (Some (inode, eip)) \<Rightarrow> (case free_slot u of None \<Rightarrow> Some (Inl OutOfBounds)
      | Some slot \<Rightarrow> Option.bind (load_program inode 0 (map_program_page (int slot) u)) (\<lambda>r.
          Some (and_then r (\<lambda>(ok, s). if ok then enter_program dev esp ebp slot args eip s else Inr (Returns (-1) s))))))
      = Some (Inr out)"
    using ex False r unfolding execute_named_def Let_def v_def u_def by simp
  show thesis
  proof (cases "exec_header (vview u) (fsys u) exec")
    case (Inl e)
    then show thesis using x by simp
  next
    case (Inr h)
    show thesis
    proof (cases h)
      case None
      then show thesis using x Inr by (intro no_file [of v]) (simp add: u_def)
    next
      case (Some ie)
      obtain inode eip where ie: "ie = (inode, eip)" by (cases ie)
      obtain k where k: "free_slot u = Some k" using x Inr Some ie by (cases "free_slot u") auto
      have k6: "k < 6" "free_slot s = Some k" using free_slot_SomeD(1) [OF k] k by (simp_all add: u_def free_slot_def)
      obtain b m where ld: "load_program inode 0 (map_program_page (int k) u) = Some (Inr (b, (map_program_page (int k) u)\<lparr>phys := m\<rparr>))"
        using load_program_total [of inode 0 "map_program_page (int k) u"] x Inr Some ie k by auto
      show thesis
        using x Inr Some ie k ld k6 no_data [of k m v] enters [of k args eip m v] False
        by (cases b) (simp_all add: u_def not_le)
    qed
  qed
qed

text \<open>Every result of \<open>execute\<close> keeps the two invariants, whatever the command and the executable.\<close>

lemma execute_keeps:
  assumes ok: "procs_ok s" "terms_ok s" and ex: "execute_named dev esp ebp cm cmd s = Some (Inr out)"
  shows "procs_ok (outcome_state out) \<and> terms_ok (outcome_state out)"
proof -
  have inv: "procs_ok u \<and> terms_ok u"
    if "pid_arr u = pid_arr s" "program_count u = program_count s" "sched_pid u = sched_pid s" "pcb_at u = pcb_at s"
      "pcb_current u = pcb_current s" "terms_ok u" for u :: "'a kernel_scheme"
    using that ok(1) procs_ok_frame [of u s] by simp
  have u: "procs_ok u \<and> terms_ok u"
    if "k < 6" "u = (map_program_page (int k) ((cli s)\<lparr>args_flag := v\<rparr>))\<lparr>phys := m\<rparr>" for k v m u
    using that ok(2) terms_ok_map_program_page [of "(cli s)\<lparr>args_flag := v\<rparr>" k] by (intro inv) simp_all
  show ?thesis
    using ex
  proof (cases rule: execute_cases)
    case (enters v k m args eip)
    define u0 where "u0 = (map_program_page (int k) ((cli s)\<lparr>args_flag := v\<rparr>))\<lparr>phys := m\<rparr>"
    have "free_slot u0 = Some k" "program_count u0 < 6" using enters(2,3) by (simp_all add: u0_def free_slot_def)
    from enter_program_spawns [OF conjunct1 [OF u [OF enters(1) u0_def]] this(2,1), of dev esp ebp args eip]
    show ?thesis using enters(4) u [OF enters(1) u0_def] by (auto simp: u0_def spawned_def)
  next
    case (no_data v k m)
    then show ?thesis using u by simp
  qed (use inv ok in simp_all)
qed

text \<open>
  Three base shells, the first one running, and one file of 28 bytes with the names ``a'' and
  ``shell'': the ELF magic number, and the entry point \<open>0x08048034\<close> at offset 24. A command is
  at \<open>0x600000\<close>.
\<close>

definition elf_image :: mem where
  "elf_image a = (if a = 12288 then 28 else if a = 16384 then 0x7F else if a = 16385 then 0x45
     else if a = 16386 then 0x4C else if a = 16387 then 0x46 else if a = 16408 then 0x34
     else if a = 16409 then 0x80 else if a = 16410 then 0x04 else if a = 16411 then 0x08
     else if a = 8288 then 2 else if a = 8256 then 97 else if a = 8352 then 2
     else if a = 8320 then 0x73 else if a = 8321 then 0x68 else if a = 8322 then 0x65
     else if a = 8323 then 0x6C else if a = 8324 then 0x6C
     else if a = 8192 then 2 else if a \<in> {8196, 8200} then 1
     else if a = 0x100000 then 97 else 0)"

definition shell_pcb :: "nat \<Rightarrow> pcb" where
  "shell_pcb k = empty_pcb\<lparr>pid := of_nat k, parent_pid := of_nat k, parent_pcb := pcb_addr k, pcb_esp := 0x7FFF00, pcb_ebp := 0x7FFF10\<rparr>"

definition process_example :: kernel where
  "process_example = kernel_example\<lparr>phys := (\<lambda>a. elf_image (a - 0x500000)),
     pcb_at := (\<lambda>a. if a = pcb_addr 1 then shell_pcb 1 else if a = pcb_addr 2 then shell_pcb 2
                    else if a = pcb_addr 3 then shell_pcb 3 else empty_pcb),
     program_count := 3, pid_arr := [1, 1, 1, 0, 0, 0], sched_pid := [1, 2, 3]\<rparr>"

lemma process_example_ok: "procs_ok process_example" "terms_ok process_example" "tables_ok process_example"
  "free_slot process_example = Some 3" "program_count process_example = 3"
  "pcb_current process_example = pcb_addr 1" "mapped_slot process_example 0"
proof -
  have "terms_ok kernel_example"
    unfolding kernel_example_def using terms_ok_map_program_page [OF terms_ok_init [OF pre_init_kernel_boot], of 0] by simp
  then show "terms_ok process_example" by (simp add: process_example_def)
  show "tables_ok process_example" "mapped_slot process_example 0"
    using kernel_example_tables by (simp_all add: process_example_def mapped_slot_def)
  show "free_slot process_example = Some 3" "program_count process_example = 3"
    by (simp_all add: process_example_def free_slot_def upt_rec)
  show cur: "pcb_current process_example = pcb_addr 1"
    using kernel_example_pcb(1) by (simp add: process_example_def pcb_addr_def)
  have e: "pcb_at process_example = (\<lambda>a. if a = pcb_addr 1 then shell_pcb 1 else if a = pcb_addr 2 then shell_pcb 2
                    else if a = pcb_addr 3 then shell_pcb 3 else empty_pcb)"
    "pid_arr process_example = [1, 1, 1, 0, 0, 0]" "sched_pid process_example = [1, 2, 3]"
    "program_count process_example = 3"
    by (simp_all add: process_example_def)
  have lv: "live process_example k \<longleftrightarrow> k = 0 \<or> k = 1 \<or> k = 2" for k
  proof -
    have "k < 6 \<Longrightarrow> k = 0 \<or> k = 1 \<or> k = 2 \<or> k = 3 \<or> k = 4 \<or> k = 5" by auto
    then show ?thesis by (auto simp: live_def e(2))
  qed
  have fd: "fds_ok (shell_pcb k)" "fds_ok empty_pcb" for k
    by (simp_all add: shell_pcb_def empty_pcb_def closed_fd_def fds_ok_def nth_Cons' eval_nat_numeral)
  show "procs_ok process_example"
  proof (rule procs_okI [of _ 0])
    show "\<forall>k < 6. pid_arr process_example ! k = 0 \<or> pid_arr process_example ! k = 1"
      by (auto simp: e(2) nth_Cons')
    show "\<forall>k < 6. fds_ok (slot_pcb process_example k)" using fd by (simp add: e(1))
    show "\<forall>k < 3. k < unat (program_count process_example) \<longrightarrow> live process_example k" by (auto simp: lv e(4))
    show "pid (slot_pcb process_example k) = of_nat (Suc k)" if "live process_example k" for k
      using that by (auto simp: lv e(1) shell_pcb_def numeral_2_eq_2 numeral_3_eq_3)
    show "if k < 3 then parent_is (slot_pcb process_example k) k
        else \<exists>j. live process_example j \<and> j \<noteq> k \<and> parent_is (slot_pcb process_example k) j"
      if "live process_example k" for k
      using that by (auto simp: lv e(1) shell_pcb_def parent_is_def numeral_2_eq_2 numeral_3_eq_3)
  qed (simp_all add: e lv cur)
qed

lemma process_example_view: "a \<in> kernel_page \<Longrightarrow> vview process_example a = elf_image (a - 0x500000)"
  using vview_kernel [OF process_example_ok(3)] by (simp add: process_example_def)

lemma process_example_file:
  "fs_ok process_example" "runnable (vview process_example) (fsys process_example) [97] 0 0x08048034"
  "file_length (vview process_example) (fsys process_example) 0 = 28"
  "user_string process_example 0x600000 [97]"
proof -
  let ?m = "vview process_example" and ?f = "fsys process_example"
  have f: "?f = \<lparr>boot_block_addr = 0x502000, inode_addr = 0x503000, data_addr = 0x504000\<rparr>"
    by (simp add: process_example_def kernel_example_fields kernel_boot_def)
  have ld: "load32 ?m 0x502000 = 2" "load32 ?m 0x502004 = 1" "load32 ?m 0x502008 = 1" "load32 ?m 0x503000 = 28"
    "load32 ?m 0x503004 = 0"
    by (simp_all add: load32_def process_example_view kernel_page_def elf_image_def)
  show "fs_ok process_example"
    by (auto simp: fs_ok_def f fs_wf_def filesystem_init_def inode_count_def dir_count_def ld in_image_def
        fs_size_def kernel_page_def)
  show len: "file_length ?m ?f 0 = 28"
    by (simp add: file_length_def inode_length_def inode_ptr_def f ld)
  have "cstr ?m 0x600000 [97]" by (simp add: process_example_view kernel_page_def elf_image_def)
  then show "user_string process_example 0x600000 [97]"
    using process_example_ok(3) by (intro user_string_kernel) (auto simp: kernel_page_def)
  have "b = 0" if "0 \<le> b" "b \<le> (0::int)" for b using that by simp
  then have ino: "inode_ok ?m ?f 0"
    by (auto simp: f inode_ok_def inode_ptr_def inode_length_def data_block_num_def inode_count_def ld)
  have byte: "file_byte ?m ?f 0 (int i) = elf_image (16384 + int i)" if "i < 4096" for i
    using that by (simp add: file_byte_def inode_ptr_def data_block_num_def f ld process_example_view kernel_page_def)
  have nth: "readable ?m ?f 0 ! i = elf_image (16384 + int i)" if "i < 29" for i
    unfolding readable_map len using that byte [of i] by (simp del: upt_Suc)
  have rl: "length (readable ?m ?f 0) = 29" by (simp add: length_readable len)
  have "take 4 (readable ?m ?f 0) = elf_magic"
    using rl nth by (intro nth_equalityI) (auto simp: elf_magic_def nth_Cons' elf_image_def)
  moreover have "le32 (drop 24 (readable ?m ?f 0)) = 0x08048034"
    using rl nth [of 24] nth [of 25] nth [of 26] nth [of 27] by (simp add: le32_def elf_image_def)
  moreover have "\<exists>d. lookup ?m ?f [97] = Some d \<and> inode_num d = 0"
  proof -
    let ?d = "load_dentry ?m (direntry_addr ?f 0)"
    have "filename ?d = 97 # replicate 31 0"
      by (rule nth_equalityI)
        (auto simp: load_dentry_def direntry_addr_def f process_example_view kernel_page_def elf_image_def nth_Cons' not_less)
    moreover have "[0..<64] = 0 # [Suc 0..<64]" by (simp add: upt_conv_Cons)
    moreover have "inode_num ?d = 0"
      by (simp add: load_dentry_def direntry_addr_def f load32_def process_example_view kernel_page_def elf_image_def)
    ultimately show ?thesis by (simp add: lookup_def del: upt_Suc upt_rec_numeral)
  qed
  ultimately show "runnable ?m ?f [97] 0 0x08048034" using ino len by (simp add: runnable_def)
qed

lemma execute_unmapped:
  assumes "program_count s < 6" and "p \<noteq> 0" and "xlate s p = None"
  shows "execute_handler dev esp ebp p s = Some (Inl PageFault)"
proof -
  have "\<not> 6 \<le> program_count s" using assms(1) by (simp add: not_le)
  moreover have "parse_command (\<lambda>a. vread a s) p = Some (Inl PageFault)"
    using assms(3) by (simp add: parse_command_def parse_exec.simps [of _ _ 0] vread_def)
  ultimately show ?thesis using assms(2) by (simp add: execute_handler_def execute_named_def Let_def)
qed

lemma execute_refuses:
  assumes "procs_ok s" and "tables_ok s" and "fs_ok s"
    and "user_string s cmd (w @ replicate g 0x20 @ rest)" and "command_line w g rest" and "named_file_ok s w"
    and "\<not> (program_count s < 6 \<and> cmd \<noteq> 0 \<and> (\<exists>inode eip. runnable (vview s) (fsys s) w inode eip))"
  shows "\<exists>t. execute_handler dev esp ebp cmd s = Some (Inr (Returns (-1) t))"
proof (cases "6 \<le> program_count s \<or> cmd = 0")
  case True
  then show ?thesis by (auto simp: execute_handler_def execute_named_def Let_def)
next
  case False
  have w: "\<forall>b \<in> set w. b \<noteq> 0" "length w \<le> 127" using assms(5) by (auto simp: command_line_def stops_word_def)
  have "exec_header (vview s) (fsys s) (w @ replicate (128 - length w) 0) = Inr None"
  proof (rule exec_header_refuses [OF _ w])
    show "fs_wf (vview s) (fsys s)" using assms(3) by (simp add: fs_ok_def)
    show "inode_ok (vview s) (fsys s) (inode_num d) \<and> 3 \<le> file_length (vview s) (fsys s) (inode_num d)
        \<and> take 4 (readable (vview s) (fsys s) (inode_num d)) \<noteq> elf_magic"
      if "lookup (vview s) (fsys s) w = Some d" "length w \<le> 32" for d
      using that assms(6,7) False by (fastforce simp: named_file_ok_def runnable_def not_le)
  qed
  moreover have "vview ((cli s)\<lparr>args_flag := v\<rparr>) = vview s" for v
    by (simp add: vview_def cong: option.case_cong)
  ultimately show ?thesis
    using False parse_command_eq [OF assms(4,5)]
    by (simp add: execute_handler_def execute_named_def Let_def)
qed





text \<open>
  C3. The process table stays well formed: the count is the number of live slots, the base
  shells keep the first three, every live slot has its own control block with a live parent,
  and the current process is live. Every result of \<open>execute\<close>, successful or not and for any
  memory contents, keeps this and the invariant of the terminals; \<open>halt\<close> returns, and keeps
  both when the process has no live child. A base shell cannot exit.
\<close>

theorem process_table_invariant:
  assumes "procs_ok s" and "terms_ok s" and "program_count s \<noteq> 0"
    and "\<forall>j k. live s j \<and> pcb_current s = pcb_addr (Suc k) \<and> j \<noteq> k \<longrightarrow> parent_pcb (slot_pcb s j) \<noteq> pcb_current s"
  shows "(\<forall>out. execute_handler dev esp ebp cmd s = Some (Inr out) \<longrightarrow>
            procs_ok (outcome_state out) \<and> terms_ok (outcome_state out))
       \<and> (\<exists>r. halt_handler status s = Some r
            \<and> (\<forall>out. r = Inr out \<longrightarrow> procs_ok (outcome_state out) \<and> terms_ok (outcome_state out)
                 \<and> (pcb_current s \<in> {pcb_addr 1, pcb_addr 2, pcb_addr 3} \<longrightarrow>
                       program_count (outcome_state out) = program_count s)))"
proof -
  obtain k where k: "live s k" and cur: "pcb_current s = pcb_addr (Suc k)" using procs_okD(10) [OF assms(1,3)] by blast
  have "\<exists>r. halt_handler status s = Some r
      \<and> (\<forall>out. r = Inr out \<longrightarrow> procs_ok (outcome_state out) \<and> terms_ok (outcome_state out)
           \<and> (pcb_current s \<in> {pcb_addr 1, pcb_addr 2, pcb_addr 3} \<longrightarrow>
                 program_count (outcome_state out) = program_count s))"
  proof (cases "k < 3")
    case True
    obtain r where r: "halt_handler status s = Some r"
      and p: "post r (\<lambda>out. \<exists>t. out = Returns 0 t \<and> erase t = erase (cli s) \<and> procs_ok t \<and> terms_ok t)"
      using halt_base [OF assms(1,2) k True cur] by blast
    have "program_count t = program_count s" if "erase t = erase (cli s)" for t
      using erase_kernel(2) [OF that] by simp
    then show ?thesis using r p by (intro exI [of _ r]) (auto simp: post_def)
  next
    case False
    then have k3: "3 \<le> k" by simp
    obtain j where j: "live s j" "j \<noteq> k" "parent_is (slot_pcb s k) j" using procs_okD(9) [OF assms(1) k k3] by blast
    obtain t where t: "halt_handler status s =
        Some (Inr (ResumesParent (pcb_ebp (slot_pcb s j)) (pcb_esp (slot_pcb s j)) status t))"
      "left k j s t" "terms_ok t" "length (sched_pid t) = length (sched_pid s)" "fds_ok (slot_pcb t k)"
      using halt_leaves [OF assms(1,2) k k3 cur j, of status] by blast
    have "pcb_at t = (pcb_at s)(pcb_addr (Suc k) := slot_pcb t k)"
      using t(2) by (auto simp: left_def fun_eq_iff)
    then have "procs_ok t"
      using t(2,4,5) j(3) procs_okD(2) [OF assms(1)] assms(4) cur
      by (intro procs_ok_exit [OF assms(1) k k3 cur]) (auto simp: left_def parent_is_def)
    moreover have "pcb_current s \<notin> {pcb_addr 1, pcb_addr 2, pcb_addr 3}" using cur k3 by auto
    ultimately show ?thesis using t by auto
  qed
  then show ?thesis using execute_keeps [OF assms(1,2)] unfolding execute_handler_def by blast
qed

theorem process_table_invariant_witness:
  "\<exists>r. halt_handler 0 process_example = Some r \<and> (\<forall>out. r = Inr out \<longrightarrow> procs_ok (outcome_state out))"
proof -
  have "parent_pcb (slot_pcb process_example j) \<noteq> pcb_current process_example"
    if "live process_example j" "pcb_current process_example = pcb_addr (Suc k)" "j \<noteq> k" for j k
  proof -
    have "k = 0" using that(2) process_example_ok(6) by simp
    moreover have "j < 6" "pid_arr process_example ! j = 1" using that(1) by (simp_all add: live_def)
    then have "j = 0 \<or> j = 1 \<or> j = 2" by (auto simp: process_example_def nth_Cons' split: if_splits)
    ultimately show ?thesis
      using that(3) by (auto simp: process_example_ok(6)) (auto simp: process_example_def shell_pcb_def numeral_2_eq_2 numeral_3_eq_3)
  qed
  then show ?thesis
    using process_table_invariant [OF process_example_ok(1,2), of "\<lambda>_ _. 0" 0 0 0 0] process_example_ok(5)
    by fastforce
qed

text \<open>
  C4. \<open>halt\<close> undoes \<open>execute\<close>: for a process that a running program started, \<open>halt\<close> right after it
  makes the caller current again with its own page mapped, and the process table, the count
  and every other control block are as before the call; descriptors 2 to 7 of the ended
  process are closed and its arguments cleared. The registers that \<open>halt\<close> loads are those
  in the caller's control block; the ones that \<open>execute\<close> saved are in the ended process's.
\<close>

theorem execute_halt_roundtrip:
  assumes "procs_ok s" and "terms_ok s" and "fs_ok s" and "program_count s < 6" and "\<not> program_count s < 3"
    and "cmd \<noteq> 0" and "user_string s cmd (w @ replicate g 0x20 @ rest)" and "command_line w g rest"
    and "runnable (vview s) (fsys s) w inode eip" and "file_length (vview s) (fsys s) inode < 0x3B8000"
  shows "\<exists>t u j k. execute_handler dev esp ebp cmd s = Some (Inr (EntersUser eip t))
     \<and> pcb_esp (cur_pcb t) = esp \<and> pcb_ebp (cur_pcb t) = ebp
     \<and> halt_handler status t = Some (Inr (ResumesParent (pcb_ebp (cur_pcb s)) (pcb_esp (cur_pcb s)) status u))
     \<and> pcb_current u = pcb_current s \<and> pcb_current s = pcb_addr (Suc j) \<and> mapped_slot u j
     \<and> pid_arr u = pid_arr s \<and> program_count u = program_count s
     \<and> pcb_current t = pcb_addr (Suc k) \<and> (\<forall>a. a \<noteq> pcb_addr (Suc k) \<longrightarrow> pcb_at u a = pcb_at s a)
     \<and> (\<forall>i \<ge> 2. fd_map (slot_pcb u k) i = None) \<and> argbuf (slot_pcb u k) = replicate 128 0"
proof -
  obtain k where k: "free_slot s = Some k" "3 \<le> k" "\<not> live s k" using free_slot_room [OF assms(1,4)] assms(5) by blast
  note ks = free_slot_SomeD(1,2) [OF k(1)]
  obtain t j where t: "execute_handler dev esp ebp cmd s = Some (Inr (EntersUser eip t))" "procs_ok t" "terms_ok t"
    "entered k (readable (vview s) (fsys s) inode)
       (take (127 - (length w + g)) rest @ replicate (128 - min (127 - (length w + g)) (length rest)) 0) s t"
    "pcb_esp (cur_pcb t) = esp" "pcb_ebp (cur_pcb t) = ebp" "parent_is (cur_pcb t) j" "live s j" "pcb_current s = pcb_addr (Suc j)"
    using execute_enters [OF assms(1-4,6-10) k(1), of dev esp ebp] assms(5) unfolding execute_handler_def by auto
  have len: "length (pid_arr s) = 6" using assms(1) by (rule procs_okD)
  have jk: "j \<noteq> k" using t(8) k(3) by auto
  have tk: "live t k" "live t j" "pcb_current t = pcb_addr (Suc k)" "pid_arr t = (pid_arr s)[k := 1]"
    using t(4,8) ks len jk by (auto simp: entered_def live_def)
  have same: "slot_pcb t j = slot_pcb s j" using t(4) jk by (simp add: entered_def)
  obtain u where u: "halt_handler status t =
      Some (Inr (ResumesParent (pcb_ebp (slot_pcb t j)) (pcb_esp (slot_pcb t j)) status u))" "left k j t u"
    using halt_leaves [OF t(2,3) tk(1) k(2) tk(3,2) jk, of status] t(7) tk(3) by auto
  have "pid_arr u = pid_arr s" using u(2) ks len by (simp add: left_def tk(4) list_update_same_conv)
  moreover have "program_count u = program_count s" using u(2) t(4) by (simp add: left_def entered_def)
  moreover have "\<forall>a. a \<noteq> pcb_addr (Suc k) \<longrightarrow> pcb_at u a = pcb_at s a" using u(2) t(4) by (simp add: left_def entered_def)
  ultimately show ?thesis
    using t(1,5,6,9) u tk(3) same
    by (intro exI [of _ t] exI [of _ u] exI [of _ j] exI [of _ k]) (simp add: left_def)
qed

theorem execute_halt_roundtrip_witness:
  "\<exists>t u. execute_handler (\<lambda>_ _. 0) 0x7F0000 0x7F0010 0x600000 process_example = Some (Inr (EntersUser 0x08048034 t))
     \<and> halt_handler 0 t = Some (Inr (ResumesParent 0x7FFF10 0x7FFF00 0 u)) \<and> pid_arr u = [1, 1, 1, 0, 0, 0]"
proof -
  have "user_string process_example 0x600000 ([97] @ replicate 0 0x20 @ [])" using process_example_file(4) by simp
  moreover have "command_line [97] 0 []" by (simp add: command_line_def stops_word_def)
  moreover have "pcb_ebp (cur_pcb process_example) = 0x7FFF10" "pcb_esp (cur_pcb process_example) = 0x7FFF00"
    unfolding process_example_ok(6) by (simp_all add: process_example_def shell_pcb_def)
  moreover have "pid_arr process_example = [1, 1, 1, 0, 0, 0]" by (simp add: process_example_def)
  ultimately show ?thesis
    using execute_halt_roundtrip [OF process_example_ok(1,2) process_example_file(1) _ _ _ _ _ process_example_file(2),
        of "0x600000" 0 "[]" "\<lambda>_ _. 0" "0x7F0000" "0x7F0010" 0] process_example_ok(5) process_example_file(3)
    by auto
qed

end
