(* ===== verification/Scheduler.thy ===== *)
theory Scheduler
  imports Process
begin

text \<open>
  The scheduler, \<open>scheduler\<close> and \<open>pit_interrupt_handler\<close> of \<^verbatim>\<open>mp3/student-distrib/scheduler.c\<close>:
  one process per terminal, round robin over the three terminals at every tick of the timer;
  a terminal that has no process yet gets a shell.

  The assembly that changes stacks is a result: \<open>Switched esp ebp\<close> is a return on the stack of
  the next process with these registers, \<open>Started\<close> is what \<open>execute(\<dots>)\<close> of a shell does on
  the fresh stack. The registers that the routines read (\<open>esp\<close>, \<open>ebp\<close> of the interrupted
  process, and \<open>xesp\<close>, \<open>xebp\<close> inside \<open>execute\<close>) are arguments.
\<close>

section \<open>The operations\<close>

datatype 's sched_outcome = Switched u32 u32 's | Started "'s outcome"

fun sched_state :: "'s sched_outcome \<Rightarrow> 's" where
  "sched_state (Switched esp ebp s) = s"
| "sched_state (Started out) = outcome_state out"

definition start_shell ::
  "device \<Rightarrow> u32 \<Rightarrow> u32 \<Rightarrow> 'a kernel_scheme \<Rightarrow> 'a kernel_scheme sched_outcome res option" where
  "start_shell dev xesp xebp s =
     map_option (\<lambda>r. and_then r (\<lambda>out. Inr (Started out)))
       (execute_named dev xesp xebp (\<lambda>a. Inr (with_literal (-128) ''shell'' (vview s) a)) (-128) s)"

definition video_base :: "nat \<Rightarrow> addr" where
  "video_base i = uint (video_addr ! i)"

text \<open>\<open>sched_pid\<close> of a terminal as a number, and the control block it stands for.\<close>

definition sched_at :: "'a kernel_scheme \<Rightarrow> nat \<Rightarrow> nat" where
  "sched_at s i = unat (sched_pid s ! i)"

definition switch_to :: "nat \<Rightarrow> addr \<Rightarrow> 'a kernel_scheme \<Rightarrow> 'a kernel_scheme sched_outcome" where
  "switch_to next_process cur s =
     (let s = s\<lparr>curr_process := of_nat next_process\<rparr>;
          s = s\<lparr>video_mem := video_base next_process\<rparr>;
          next_pcb = pcb_addr (sched_at s next_process);
          s = s\<lparr>pcb_current := next_pcb\<rparr>;
          s = s\<lparr>tss_ss0 := 0x18, tss_esp0 := word_of_int (0x800000 - (int (sched_at s next_process) - 1) * 0x2000 - 4)\<rparr>;
          s = (if sched_pid s ! 0 = 4 \<and> kesp (pcb_at s cur) \<le> 0x7F8F00
               then upd_pcb cur (\<lambda>p. p\<lparr>kesp := 0\<rparr>) s else s);
          s = map_program_page (uint (pid (pcb_at s next_pcb)) - 1) s;
          s = scheduler_remap_video next_process s
      in Switched (pcb_esp (pcb_at s next_pcb)) (pcb_ebp (pcb_at s next_pcb)) (sti s))"

definition scheduler ::
  "device \<Rightarrow> u32 \<Rightarrow> u32 \<Rightarrow> u32 \<Rightarrow> u32 \<Rightarrow> 'a kernel_scheme \<Rightarrow> 'a kernel_scheme sched_outcome res option" where
  "scheduler dev esp ebp xesp xebp s =
     (if sched_pid s ! 0 = 0
      then start_shell dev xesp xebp (s\<lparr>sched_pid := (sched_pid s)[0 := 1], video_mem := video_base 0\<rparr>)
      else if proc_term s \<ge> length (sched_pid s) then Some (Inl OutOfBounds)
      else let cur = pcb_addr (sched_at s (proc_term s));
               s = upd_pcb cur (\<lambda>p. p\<lparr>pcb_esp := esp, pcb_ebp := ebp\<rparr>) s;
               next_process = (proc_term s + 1) mod 3;
               s = s\<lparr>video_mem := video_base next_process\<rparr>
           in if sched_pid s ! next_process = 0
              then let s = s\<lparr>sched_pid := (sched_pid s)[next_process := sched_pid s ! proc_term s + 1]\<rparr>;
                       s = s\<lparr>curr_process := of_nat next_process\<rparr>;
                       s = s\<lparr>video_mem := video_base (proc_term s)\<rparr>
                   in start_shell dev xesp xebp (scheduler_remap_video next_process s)
              else Some (Inr (switch_to next_process cur s)))"

definition pit_interrupt_handler ::
  "device \<Rightarrow> u32 \<Rightarrow> u32 \<Rightarrow> u32 \<Rightarrow> u32 \<Rightarrow> 'a kernel_scheme \<Rightarrow> 'a kernel_scheme sched_outcome res option" where
  "pit_interrupt_handler dev esp ebp xesp xebp s =
     map_option (\<lambda>r. and_then r (\<lambda>out.
         Inr (case out of Switched e b s \<Rightarrow> Switched e b (sti s)
                | Started (Returns v s) \<Rightarrow> Started (Returns v (sti s)) | _ \<Rightarrow> out)))
       (scheduler dev esp ebp xesp xebp (send_eoi 0 (cli s)))"

section \<open>Well-formed schedules\<close>

text \<open>The three terminals have processes in the slots \<open>f 0\<close>, \<open>f 1\<close>, \<open>f 2\<close>.\<close>

definition sched_slots :: "'a kernel_scheme \<Rightarrow> (nat \<Rightarrow> nat) \<Rightarrow> bool" where
  "sched_slots s f \<longleftrightarrow> length (sched_pid s) = 3
     \<and> (\<forall>i < 3. live s (f i) \<and> sched_pid s ! i = of_nat (Suc (f i)))"

section \<open>One switch\<close>

lemma scheduler_remap_kernel [simp]:
  fixes s :: "'a kernel_scheme"
  shows "pid_arr (scheduler_remap_video i s) = pid_arr s" "program_count (scheduler_remap_video i s) = program_count s"
    "sched_pid (scheduler_remap_video i s) = sched_pid s" "pcb_at (scheduler_remap_video i s) = pcb_at s"
    "pcb_current (scheduler_remap_video i s) = pcb_current s" "fsys (scheduler_remap_video i s) = fsys s"
    "phys (scheduler_remap_video i s) = phys s" "page_dir (scheduler_remap_video i s) = page_dir s"
    "curr_terminal (scheduler_remap_video i s) = curr_terminal s" "curr_process (scheduler_remap_video i s) = curr_process s"
    "tss_esp0 (scheduler_remap_video i s) = tss_esp0 s" "video_mem (scheduler_remap_video i s) = video_mem s"
  by (simp_all add: scheduler_remap_video_def Let_def upd_table_def upd_vmem_def)

lemma terms_ok_video_mem [simp]: "terms_ok (s\<lparr>video_mem := a\<rparr>) = terms_ok s"
  by (simp add: terms_ok_def base_ok_def cursor_ok_def)

lemma terms_ok_curr_process: "terms_ok s \<Longrightarrow> n < 3 \<Longrightarrow> terms_ok (s\<lparr>curr_process := of_nat n\<rparr>)"
  by (auto simp: terms_ok_def base_ok_def cursor_ok_def unat_of_nat take_bit_nat_eq_self)

lemma window_sti: "window (sti s) i b = window s i b"
proof -
  have "xlate (sti s) = xlate s" "term_arr (sti s) = term_arr s" by (simp_all add: sti_def)
  then show ?thesis by (simp add: window_def)
qed

lemma sched_at_fields [simp]:
  "sched_at (s\<lparr>curr_process := c\<rparr>) = sched_at s" "sched_at (s\<lparr>video_mem := v\<rparr>) = sched_at s"
  "sched_at (s\<lparr>pcb_current := a\<rparr>) = sched_at s" "sched_at (upd_pcb a f s) = sched_at s"
  by (simp_all add: sched_at_def fun_eq_iff)

text \<open>What a switch to terminal \<open>n\<close>, whose process is in slot \<open>k\<close>, establishes.\<close>

definition switched :: "nat \<Rightarrow> nat \<Rightarrow> 'a kernel_scheme \<Rightarrow> 'a kernel_scheme \<Rightarrow> bool" where
  "switched n k s t \<longleftrightarrow>
     proc_term t = n \<and> pcb_current t = pcb_addr (Suc k) \<and> mapped_slot t k \<and> terms_ok t
     \<and> window t n (if n = user_term s then 0xB8000 else 0xB9000 + int n * 0x1000)
     \<and> tss_esp0 t = word_of_int (0x800000 - int k * 0x2000 - 4) \<and> int_flag t
     \<and> phys t = phys s \<and> fsys t = fsys s \<and> curr_terminal t = curr_terminal s
     \<and> pid_arr t = pid_arr s \<and> program_count t = program_count s \<and> sched_pid t = sched_pid s
     \<and> (\<forall>a. \<exists>v. pcb_at t a = (pcb_at s a)\<lparr>kesp := v\<rparr>)"

lemma keep_kesp: "\<exists>v. p = p\<lparr>kesp := v\<rparr>" for p :: pcb
  by (rule exI [of _ "kesp p"]) simp

lemma switch_to_switched:
  assumes ok: "terms_ok s" and n: "n < 3" and k: "k < 6" "sched_pid s ! n = of_nat (Suc k)"
    and pid: "pid (slot_pcb s k) = of_nat (Suc k)"
  shows "\<exists>t. switch_to n cur s = Switched (pcb_esp (slot_pcb s k)) (pcb_ebp (slot_pcb s k)) t \<and> switched n k s t"
proof -
  note k6 = k(1)
  have at: "sched_at s n = Suc k" using pid_of_slot(1) [OF k6] by (simp add: sched_at_def k(2))
  define s1 where "s1 = s\<lparr>curr_process := of_nat n, video_mem := video_base n, pcb_current := pcb_addr (Suc k),
      tss_ss0 := 0x18, tss_esp0 := word_of_int (0x800000 - int k * 0x2000 - 4)\<rparr>"
  define s2 where "s2 = (if sched_pid s ! 0 = 4 \<and> kesp (pcb_at s cur) \<le> 0x7F8F00
      then upd_pcb cur (\<lambda>p. p\<lparr>kesp := 0\<rparr>) s1 else s1)"
  have s2p: "\<exists>v. pcb_at s2 a = (pcb_at s a)\<lparr>kesp := v\<rparr>" for a
    using keep_kesp [of "pcb_at s a"] by (auto simp: s2_def s1_def upd_pcb_def)
  have s2: "terms_ok s2" "pid_arr s2 = pid_arr s" "program_count s2 = program_count s" "sched_pid s2 = sched_pid s"
    "phys s2 = phys s" "fsys s2 = fsys s" "curr_terminal s2 = curr_terminal s" "curr_process s2 = of_nat n"
    "pcb_current s2 = pcb_addr (Suc k)" "tss_esp0 s2 = word_of_int (0x800000 - int k * 0x2000 - 4)"
    using terms_ok_curr_process [OF ok n] by (simp_all add: s2_def s1_def)
  let ?s3 = "map_program_page (int k) s2"
  have s3: "terms_ok ?s3" "mapped_slot ?s3 k"
    using terms_ok_map_program_page [OF s2(1) k6] tables_ok_map_program_page(2) [OF _ k6, of s2] s2(1)
    by (simp_all add: terms_ok_def base_ok_def)
  let ?t = "sti (scheduler_remap_video n ?s3)"
  have q: "pcb_esp (slot_pcb s2 k) = pcb_esp (slot_pcb s k)" "pcb_ebp (slot_pcb s2 k) = pcb_ebp (slot_pcb s k)"
    "pid (slot_pcb s2 k) = of_nat (Suc k)"
    using s2p [of "pcb_addr (Suc k)"] pid by auto
  have n': "unat (of_nat n :: u8) = n" using n by (simp add: unat_of_nat take_bit_nat_eq_self)
  have "switched n k s ?t"
    using window_scheduler_remap [OF s3(1) n] s3(2) s2 s2p n' unfolding switched_def
    by (simp add: window_sti mapped_slot_def)
  moreover have "switch_to n cur s = (let s = s2; s = map_program_page (uint (pid (slot_pcb s k)) - 1) s;
      s = scheduler_remap_video n s in Switched (pcb_esp (slot_pcb s k)) (pcb_ebp (slot_pcb s k)) (sti s))"
    by (simp add: switch_to_def s2_def s1_def at Let_def)
  then have "switch_to n cur s = Switched (pcb_esp (slot_pcb s2 k)) (pcb_ebp (slot_pcb s2 k)) ?t"
    using pid_of_slot(2) [OF k6] q(3) by (simp add: Let_def del: of_nat_Suc)
  ultimately show ?thesis using q(1,2) by metis
qed

section \<open>A tick\<close>

text \<open>What the invariant of the process table reads of a control block.\<close>

definition pcb_ids :: "pcb \<Rightarrow> file_descriptor list \<times> u8 \<times> u8 \<times> addr" where
  "pcb_ids p = (pcb_arr p, pid p, parent_pid p, parent_pcb p)"

lemma procs_ok_ids:
  assumes ok: "procs_ok s" and ids: "\<And>a. pcb_ids (pcb_at t a) = pcb_ids (pcb_at s a)"
    and same: "pid_arr t = pid_arr s" "program_count t = program_count s" "length (sched_pid t) = length (sched_pid s)"
    and cur: "live s k" "pcb_current t = pcb_addr (Suc k)"
  shows "procs_ok t"
proof (rule procs_okI [of _ k])
  have lv: "live t j = live s j" for j by (simp add: live_def same)
  have i: "pid (pcb_at t a) = pid (pcb_at s a)" "parent_is (pcb_at t a) j = parent_is (pcb_at s a) j"
    "fds_ok (pcb_at t a) = fds_ok (pcb_at s a)" for a j
    using ids [of a] by (simp_all add: pcb_ids_def parent_is_def fds_ok_def)
  note d = procs_okD [OF ok]
  show "live t k" using cur(1) lv by simp
  show "\<forall>k < 6. fds_ok (slot_pcb t k)" using d(5) i by simp
  show "\<forall>k < 3. k < unat (program_count t) \<longrightarrow> live t k" using d(6) same lv by simp
  show "pid (slot_pcb t j) = of_nat (Suc j)" if "live t j" for j using d(7) i lv that by simp
  show "if j < 3 then parent_is (slot_pcb t j) j else \<exists>i. live t i \<and> i \<noteq> j \<and> parent_is (slot_pcb t j) i"
    if "live t j" for j using d(8,9) [of j] i lv that by simp
  show "\<forall>k < 6. pid_arr t ! k = 0 \<or> pid_arr t ! k = 1" using d(4) same by simp
qed (use procs_okD(1-3) [OF ok] same cur in simp_all)

lemma sched_slotsD:
  assumes "sched_slots s f" and "i < 3"
  shows "live s (f i)" "sched_pid s ! i = of_nat (Suc (f i))" "sched_pid s ! i \<noteq> 0" "sched_at s i = Suc (f i)"
proof -
  show l: "live s (f i)" "sched_pid s ! i = of_nat (Suc (f i))" using assms by (simp_all add: sched_slots_def)
  have "f i < 6" using l(1) by (simp add: live_def)
  from pid_of_slot(1) [OF this] show "sched_at s i = Suc (f i)" by (simp add: sched_at_def l(2))
  then show "sched_pid s ! i \<noteq> 0" by (auto simp: sched_at_def)
qed

text \<open>The state after a tick: \<open>p\<close> was the process's terminal, \<open>n\<close> is the next.\<close>

definition ticked :: "(nat \<Rightarrow> nat) \<Rightarrow> u32 \<Rightarrow> u32 \<Rightarrow> 'a kernel_scheme \<Rightarrow> 'a kernel_scheme \<Rightarrow> bool" where
  "ticked f esp ebp s t \<longleftrightarrow>
     (let p = proc_term s; n = (p + 1) mod 3
      in procs_ok t \<and> terms_ok t \<and> sched_slots t f \<and> proc_term t = n \<and> pcb_current t = pcb_addr (Suc (f n))
         \<and> mapped_slot t (f n) \<and> window t n (if n = user_term s then 0xB8000 else 0xB9000 + int n * 0x1000)
         \<and> tss_esp0 t = word_of_int (0x800000 - int (f n) * 0x2000 - 4) \<and> int_flag t
         \<and> phys t = phys s \<and> fsys t = fsys s \<and> curr_terminal t = curr_terminal s
         \<and> pcb_esp (slot_pcb t (f p)) = esp \<and> pcb_ebp (slot_pcb t (f p)) = ebp
         \<and> (\<forall>k. k \<noteq> f p \<longrightarrow> pcb_esp (slot_pcb t k) = pcb_esp (slot_pcb s k)
                              \<and> pcb_ebp (slot_pcb t k) = pcb_ebp (slot_pcb s k)))"

lemma scheduler_ticks:
  assumes ok: "procs_ok s" "terms_ok s" and sl: "sched_slots s f" and inj: "inj_on f {..<3}"
  defines "n \<equiv> (proc_term s + 1) mod 3"
  shows "\<exists>t. scheduler dev esp ebp xesp xebp s =
       Some (Inr (Switched (pcb_esp (slot_pcb s (f n))) (pcb_ebp (slot_pcb s (f n))) t)) \<and> ticked f esp ebp s t"
proof -
  let ?p = "proc_term s" and ?a = "pcb_addr (Suc (f (proc_term s)))"
  have p3: "?p < 3" using ok(2) by (simp add: terms_ok_def cursor_ok_def)
  have nS: "Suc ?p mod 3 = n" by (simp add: n_def)
  have n3: "n < 3" "n \<noteq> ?p" using p3 by (auto simp: n_def mod_Suc)
  have fn: "f n \<noteq> f ?p" using inj n3 p3 by (auto simp: inj_on_def)
  note p = sched_slotsD [OF sl p3] and n = sched_slotsD [OF sl n3(1)] and z = sched_slotsD(3) [OF sl, of 0]
  have len: "length (sched_pid s) = 3" using sl by (simp add: sched_slots_def)
  define s1 where "s1 = (upd_pcb ?a (\<lambda>p. p\<lparr>pcb_esp := esp, pcb_ebp := ebp\<rparr>) s)\<lparr>video_mem := video_base n\<rparr>"
  have s1: "pid_arr s1 = pid_arr s" "program_count s1 = program_count s" "sched_pid s1 = sched_pid s"
    "pcb_current s1 = pcb_current s" "terms_ok s1" "phys s1 = phys s" "fsys s1 = fsys s" "curr_terminal s1 = curr_terminal s"
    "pcb_at s1 = (pcb_at s)(?a := (pcb_at s ?a)\<lparr>pcb_esp := esp, pcb_ebp := ebp\<rparr>)"
    using ok(2) by (simp_all add: s1_def upd_pcb_def)
  have pc: "program_count s \<noteq> 0"
  proof -
    have "pid_arr s ! f ?p = 1" "f ?p < 6" using p(1) by (simp_all add: live_def)
    then have "1 \<in> set (pid_arr s)" using procs_okD(1) [OF ok(1)] by (metis nth_mem)
    then have "count_list (pid_arr s) 1 \<noteq> 0" by (simp add: count_list_0_iff)
    then show ?thesis using procs_okD(3) [OF ok(1)] by auto
  qed
  obtain c where c: "live s c" "pcb_current s = pcb_addr (Suc c)" using procs_okD(10) [OF ok(1) pc] by blast
  have ids1: "pcb_ids (pcb_at s1 a) = pcb_ids (pcb_at s a)" for a by (simp add: s1(9) pcb_ids_def)
  have ok1: "procs_ok s1" using procs_ok_ids [OF ok(1) ids1 _ _ _ c(1)] s1 c(2) by simp
  obtain t where t: "switch_to n ?a s1 = Switched (pcb_esp (slot_pcb s1 (f n))) (pcb_ebp (slot_pcb s1 (f n))) t"
    and sw: "switched n (f n) s1 t"
    using switch_to_switched [OF s1(5) n3(1), of "f n" ?a] n(1,2) s1(3) procs_okD(7) [OF ok1, of "f n"] s1(1)
    by (auto simp: live_def)
  have ids: "pcb_ids (pcb_at t a) = pcb_ids (pcb_at s a)" for a
  proof -
    obtain v where "pcb_at t a = (pcb_at s1 a)\<lparr>kesp := v\<rparr>" using sw by (auto simp: switched_def)
    then show ?thesis using ids1 [of a] by (simp add: pcb_ids_def)
  qed
  have regs: "pcb_esp (pcb_at t a) = pcb_esp (pcb_at s1 a)" "pcb_ebp (pcb_at t a) = pcb_ebp (pcb_at s1 a)" for a
  proof -
    obtain v where "pcb_at t a = (pcb_at s1 a)\<lparr>kesp := v\<rparr>" using sw by (auto simp: switched_def)
    then show "pcb_esp (pcb_at t a) = pcb_esp (pcb_at s1 a)" "pcb_ebp (pcb_at t a) = pcb_ebp (pcb_at s1 a)" by simp_all
  qed
  have "procs_ok t" using procs_ok_ids [OF ok(1) ids _ _ _ n(1)] sw s1 by (simp add: switched_def)
  moreover have "sched_slots t f" using sl sw s1(1,3) by (simp add: sched_slots_def switched_def live_def)
  ultimately have "ticked f esp ebp s t"
    using sw s1 unfolding ticked_def n_def [symmetric] Let_def switched_def by (simp add: regs)
  moreover have "pcb_esp (slot_pcb s1 (f n)) = pcb_esp (slot_pcb s (f n))" "pcb_ebp (slot_pcb s1 (f n)) = pcb_ebp (slot_pcb s (f n))"
    using fn by (simp_all add: s1(9))
  moreover have "scheduler dev esp ebp xesp xebp s = Some (Inr (switch_to n ?a s1))"
    using z p3 len p(4) n(3) nS by (simp add: scheduler_def Let_def s1_def upd_pcb_def)
  ultimately show ?thesis using t by simp
qed

lemma procs_ok_int [simp]:
  "procs_ok (s\<lparr>io_hist := h\<rparr>) = procs_ok s" "procs_ok (s\<lparr>int_flag := b\<rparr>) = procs_ok s"
  "procs_ok (cli s) = procs_ok s" "procs_ok (sti s) = procs_ok s"
  by (rule procs_ok_frame; simp)+

lemma sched_slots_int [simp]:
  "sched_slots (s\<lparr>io_hist := h\<rparr>) = sched_slots s" "sched_slots (cli s) = sched_slots s" "sched_slots (sti s) = sched_slots s"
  by (simp_all add: sched_slots_def live_def fun_eq_iff)

lemma send_eoi_0: "send_eoi 0 s = s\<lparr>io_hist := io_hist s @ [Out MASTER_8259_PORT 0x60]\<rparr>"
  by (simp add: send_eoi_def outb_def)

lemma ticked_int:
  assumes "ticked f esp ebp (send_eoi 0 (cli s)) t"
  shows "ticked f esp ebp s (sti t)"
  using assms unfolding ticked_def Let_def send_eoi_0 by (simp add: window_sti mapped_slot_def cong: if_cong)

lemma pit_ticks:
  assumes ok: "procs_ok s" "terms_ok s" and sl: "sched_slots s f" and inj: "inj_on f {..<3}"
  defines "n \<equiv> (proc_term s + 1) mod 3"
  shows "\<exists>t. pit_interrupt_handler dev esp ebp xesp xebp s =
       Some (Inr (Switched (pcb_esp (slot_pcb s (f n))) (pcb_ebp (slot_pcb s (f n))) t)) \<and> ticked f esp ebp s t"
proof -
  let ?s = "send_eoi 0 (cli s)"
  have "procs_ok ?s" "terms_ok ?s" "sched_slots ?s f" using ok sl by (simp_all add: send_eoi_0)
  from scheduler_ticks [OF this inj, of dev esp ebp xesp xebp] obtain t
    where "scheduler dev esp ebp xesp xebp ?s =
        Some (Inr (Switched (pcb_esp (slot_pcb s (f n))) (pcb_ebp (slot_pcb s (f n))) t))" "ticked f esp ebp ?s t"
    by (auto simp: n_def send_eoi_0)
  then show ?thesis by (simp add: pit_interrupt_handler_def ticked_int)
qed

section \<open>Properties of the running system\<close>

text \<open>
  C36. A timer tick switches to the process of the next terminal. With a live process on each of
  the three terminals, different ones: control resumes with the registers in the next
  process's control block; the registers of the interrupted process are saved in its own and
  no other saved register changes; the next process is current, its page is the one mapped,
  its kernel stack is in the task state, and what it prints goes to video memory exactly when
  its terminal is on display. All invariants hold again and memory is untouched.
\<close>

theorem timer_tick_switches:
  assumes "procs_ok s" and "terms_ok s" and "sched_slots s f" and "inj_on f {..<3}"
  shows "let p = proc_term s; n = (p + 1) mod 3
     in \<exists>t. pit_interrupt_handler dev esp ebp xesp xebp s =
            Some (Inr (Switched (pcb_esp (slot_pcb s (f n))) (pcb_ebp (slot_pcb s (f n))) t))
          \<and> procs_ok t \<and> terms_ok t \<and> sched_slots t f \<and> proc_term t = n \<and> pcb_current t = pcb_addr (Suc (f n))
          \<and> mapped_slot t (f n) \<and> window t n (if n = user_term s then 0xB8000 else 0xB9000 + int n * 0x1000)
          \<and> tss_esp0 t = word_of_int (0x800000 - int (f n) * 0x2000 - 4) \<and> int_flag t \<and> phys t = phys s
          \<and> pcb_esp (slot_pcb t (f p)) = esp \<and> pcb_ebp (slot_pcb t (f p)) = ebp
          \<and> (\<forall>k. k \<noteq> f p \<longrightarrow> pcb_esp (slot_pcb t k) = pcb_esp (slot_pcb s k)
                               \<and> pcb_ebp (slot_pcb t k) = pcb_ebp (slot_pcb s k))"
  using pit_ticks [OF assms, of dev esp ebp xesp xebp] unfolding ticked_def Let_def by blast

lemma process_example_slots: "sched_slots process_example id" "proc_term process_example = 0"
proof -
  show "sched_slots process_example id"
    by (auto simp: sched_slots_def process_example_def live_def dest!: less_3_cases)
  show "proc_term process_example = 0"
  proof -
    have len: "length (term_arr (paging_initialize kernel_boot)) = 3"
      by (simp add: paging_initialize_eq kernel_boot_def)
    have "curr_process process_example = 0"
      unfolding process_example_def kernel_example_def init_terminal_fields [OF len]
      by (simp add: paging_initialize_eq) (simp add: kernel_boot_def)
    then show ?thesis by simp
  qed
qed

theorem timer_tick_switches_witness:
  "\<exists>t. pit_interrupt_handler (\<lambda>_ _. 0) 5 6 0 0 process_example = Some (Inr (Switched 0x7FFF00 0x7FFF10 t))
     \<and> mapped_slot t 1 \<and> pcb_esp (slot_pcb t 0) = 5"
proof -
  have "slot_pcb process_example 1 = shell_pcb 2"
    by (simp add: process_example_def numeral_2_eq_2)
  then show ?thesis
    using timer_tick_switches [OF process_example_ok(1,2) process_example_slots(1), of "\<lambda>_ _. 0" 5 6 0 0]
      process_example_slots(2)
    by (auto simp: Let_def shell_pcb_def)
qed

text \<open>
  C37. Round robin: every terminal's process runs within three ticks, in the order of the
  terminals, and a process is resumed with the registers it was interrupted with, whatever
  the other two have in theirs when they are interrupted.
\<close>

theorem round_robin_context:
  assumes "procs_ok s" and "terms_ok s" and "sched_slots s f" and "inj_on f {..<3}"
  shows "\<exists>e1 b1 t1 e2 b2 t2 t3.
       pit_interrupt_handler dev esp ebp xesp xebp s = Some (Inr (Switched e1 b1 t1))
     \<and> pit_interrupt_handler dev esp1 ebp1 xesp xebp t1 = Some (Inr (Switched e2 b2 t2))
     \<and> pit_interrupt_handler dev esp2 ebp2 xesp xebp t2 = Some (Inr (Switched esp ebp t3))
     \<and> proc_term t1 = (proc_term s + 1) mod 3 \<and> proc_term t2 = (proc_term s + 2) mod 3
     \<and> proc_term t3 = proc_term s \<and> pcb_current t3 = pcb_addr (Suc (f (proc_term s)))
     \<and> mapped_slot t3 (f (proc_term s)) \<and> procs_ok t3 \<and> terms_ok t3 \<and> sched_slots t3 f"
proof -
  let ?p = "proc_term s"
  have p3: "?p < 3" using assms(2) by (simp add: terms_ok_def cursor_ok_def)
  then have m: "Suc (Suc ?p mod 3) mod 3 = (?p + 2) mod 3" "Suc ((?p + 2) mod 3) mod 3 = ?p"
    "(?p + 2) mod 3 \<noteq> ?p" "Suc ?p mod 3 \<noteq> ?p" "(?p + 2) mod 3 < 3" "Suc ?p mod 3 < 3" by presburger+
  then have ne: "f (Suc ?p mod 3) \<noteq> f ?p" "f ((?p + 2) mod 3) \<noteq> f ?p"
    using assms(4) p3 by (auto simp: inj_on_def)
  obtain e1 b1 t1 where t1: "pit_interrupt_handler dev esp ebp xesp xebp s = Some (Inr (Switched e1 b1 t1))"
    "ticked f esp ebp s t1" using pit_ticks [OF assms, of dev esp ebp xesp xebp] by blast
  have k1: "procs_ok t1" "terms_ok t1" "sched_slots t1 f" "proc_term t1 = Suc ?p mod 3"
    "pcb_esp (slot_pcb t1 (f ?p)) = esp" "pcb_ebp (slot_pcb t1 (f ?p)) = ebp"
    using t1(2) by (simp_all add: ticked_def Let_def)
  obtain e2 b2 t2 where t2: "pit_interrupt_handler dev esp1 ebp1 xesp xebp t1 = Some (Inr (Switched e2 b2 t2))"
    "ticked f esp1 ebp1 t1 t2" using pit_ticks [OF k1(1-3) assms(4), of dev esp1 ebp1 xesp xebp] by blast
  have k2: "procs_ok t2" "terms_ok t2" "sched_slots t2 f" "proc_term t2 = (?p + 2) mod 3"
    "pcb_esp (slot_pcb t2 (f ?p)) = esp" "pcb_ebp (slot_pcb t2 (f ?p)) = ebp"
    using t2(2) k1(4-6) m(1) ne(1) by (simp_all add: ticked_def Let_def)
  obtain t3 where t3: "pit_interrupt_handler dev esp2 ebp2 xesp xebp t2 = Some (Inr (Switched esp ebp t3))"
    "ticked f esp2 ebp2 t2 t3"
    using pit_ticks [OF k2(1-3) assms(4), of dev esp2 ebp2 xesp xebp] k2(4-6) m(2) by auto
  have "proc_term t3 = ?p" "pcb_current t3 = pcb_addr (Suc (f ?p))" "mapped_slot t3 (f ?p)" "procs_ok t3" "terms_ok t3" "sched_slots t3 f"
    using t3(2) k2(4) m(2) by (simp_all add: ticked_def Let_def)
  then show ?thesis using t1(1) t2(1) t3(1) k1(4) k2(4) by auto
qed

theorem round_robin_context_witness:
  "\<exists>e1 b1 t1 e2 b2 t2 t3.
       pit_interrupt_handler (\<lambda>_ _. 0) 5 6 0 0 process_example = Some (Inr (Switched e1 b1 t1))
     \<and> pit_interrupt_handler (\<lambda>_ _. 0) 7 8 0 0 t1 = Some (Inr (Switched e2 b2 t2))
     \<and> pit_interrupt_handler (\<lambda>_ _. 0) 9 10 0 0 t2 = Some (Inr (Switched 5 6 t3)) \<and> proc_term t3 = 0"
  using round_robin_context [OF process_example_ok(1,2) process_example_slots(1), of "\<lambda>_ _. 0" 5 6 0 0 7 8 9 10]
    process_example_slots(2) by auto

section \<open>The first three ticks\<close>

text \<open>The name of the shell, and an image that holds it.\<close>

definition shell_name :: "u8 list" where
  "shell_name = bytes_of ''shell''"

definition has_shell :: "u32 \<Rightarrow> 'a kernel_scheme \<Rightarrow> bool" where
  "has_shell eip s \<longleftrightarrow> fs_ok s \<and> (\<exists>i. runnable (vview s) (fsys s) shell_name i eip
     \<and> file_length (vview s) (fsys s) i < 0x3B8000)"

lemma has_shell_frame:
  assumes "tables_ok s" and "tables_ok t" and "has_shell eip s" and "fsys t = fsys s"
    and "\<forall>a \<in> kernel_page. phys t a = phys s a"
  shows "has_shell eip t"
proof -
  have fs: "fs_ok s" using assms(3) by (simp add: has_shell_def)
  obtain i where r: "runnable (vview s) (fsys s) shell_name i eip" "file_length (vview s) (fsys s) i < 0x3B8000"
    using assms(3) by (auto simp: has_shell_def)
  note fr = fs_ok_frame [OF assms(1,2) fs assms(4,5)]
  have ino: "inode_ok (vview s) (fsys s) i" using r(1) by (auto simp: runnable_def)
  have same: "same_image (vview s) (vview t) (fsys s)" by (rule same_image_frame [OF assms(1,2) fs assms(5)])
  have "i < inode_count (vview s) (boot_block_addr (fsys s))" using ino by (simp add: inode_ok_def)
  then have "0 < inode_count (vview s) (boot_block_addr (fsys s))"
    using word_gt_0 by (metis word_not_simps(1))
  from lookup_same [OF same this] have look: "lookup (vview t) (fsys t) shell_name = lookup (vview s) (fsys s) shell_name"
    using assms(4) by simp
  have len: "file_length (vview t) (fsys t) i = file_length (vview s) (fsys s) i"
    using fr(3) [OF ino] length_readable [of "vview t" "fsys t" i] length_readable [of "vview s" "fsys s" i] by simp
  show ?thesis
    using fr(1) fr(2,3) [OF ino] r look len by (auto simp: has_shell_def runnable_def)
qed

text \<open>\<open>m\<close> shells run, the last one started is the scheduled one, and terminals from \<open>m\<close> on have none.\<close>

definition booting :: "u32 \<Rightarrow> nat \<Rightarrow> 'a kernel_scheme \<Rightarrow> bool" where
  "booting eip m s \<longleftrightarrow> procs_ok s \<and> terms_ok s \<and> has_shell eip s \<and> unat (program_count s) = m
     \<and> sched_pid s = map (\<lambda>i. if i < m then of_nat (Suc i) else 0) [0, 1, 2] \<and> proc_term s = m - 1"

lemma start_shell_enters:
  assumes "procs_ok s" and "terms_ok s" and "has_shell eip s" and "program_count s < 3"
  shows "\<exists>t. start_shell dev xesp xebp s = Some (Inr (Started (EntersUser eip t))) \<and> procs_ok t \<and> terms_ok t
     \<and> has_shell eip t \<and> program_count t = program_count s + 1 \<and> curr_process t = curr_process s
     \<and> sched_pid t = (sched_pid s)[unat (program_count s) := of_nat (Suc (unat (program_count s)))]"
proof -
  obtain i where r: "runnable (vview s) (fsys s) shell_name i eip" "file_length (vview s) (fsys s) i < 0x3B8000"
    and fs: "fs_ok s" using assms(3) by (auto simp: has_shell_def)
  have room: "program_count s < 6" using assms(4) by (rule order.strict_trans) simp
  obtain k where k: "free_slot s = Some k" "k = unat (program_count s)"
    using free_slot_room [OF assms(1) room] assms(4) by blast
  have "0 \<notin> set shell_name" by (simp add: shell_name_def bytes_of_def)
  then have c: "rstr (\<lambda>a. Inr (with_literal (-128) ''shell'' (vview s) a)) (-128) (shell_name @ replicate 0 0x20 @ [])"
    using cstr_literal [of "''shell''"] by (simp add: shell_name_def)
  have w: "command_line shell_name 0 []" by (simp add: command_line_def stops_word_def shell_name_def bytes_of_def)
  obtain t where t: "execute_named dev xesp xebp (\<lambda>a. Inr (with_literal (-128) ''shell'' (vview s) a)) (-128) s = Some (Inr (EntersUser eip t))"
    "procs_ok t" "terms_ok t" "fs_ok t"
    and e: "entered k (readable (vview s) (fsys s) i)
          (take (127 - (length shell_name + 0)) [] @ replicate (128 - min (127 - (length shell_name + 0)) (length [])) 0) s t"
    using execute_enters [OF assms(1,2) fs room _ c w r k(1), of dev xesp xebp] by auto
  have tok: "tables_ok s" "tables_ok t" using assms(2) t(3) by (simp_all add: terms_ok_def base_ok_def)
  have "fsys t = fsys s" "\<forall>a \<in> kernel_page. phys t a = phys s a" using e unfolding entered_def by blast+
  with has_shell_frame [OF tok assms(3)] have "has_shell eip t" by blast
  then show ?thesis using t e assms(4) k(2) by (simp add: start_shell_def entered_def)
qed

lemma booting_start:
  assumes "procs_ok s1" and "terms_ok s1" and "has_shell eip s1" and "unat (program_count s1) = m" and "m < 3"
    and "(sched_pid s1)[m := of_nat (Suc m)] = map (\<lambda>i. if i < Suc m then of_nat (Suc i) else 0) [0, 1, 2]"
    and "proc_term s1 = m"
  shows "\<exists>t. start_shell dev xesp xebp s1 = Some (Inr (Started (EntersUser eip t))) \<and> booting eip (Suc m) t"
proof -
  have pc: "program_count s1 < 3" using assms(4,5) by (simp add: word_less_nat_alt)
  then have "unat (program_count s1 + 1) = Suc m" using assms(4,5) by (simp add: unat_word_ariths)
  then show ?thesis
    using start_shell_enters [OF assms(1-3) pc, of dev xesp xebp] assms(4,6,7) by (auto simp: booting_def)
qed

lemma scheduler_first:
  assumes "booting eip 0 s"
  shows "\<exists>t. scheduler dev esp ebp xesp xebp s = Some (Inr (Started (EntersUser eip t))) \<and> booting eip 1 t"
proof -
  let ?s1 = "s\<lparr>sched_pid := (sched_pid s)[0 := 1], video_mem := video_base 0\<rparr>"
  have b: "procs_ok s" "terms_ok s" "has_shell eip s" "unat (program_count s) = 0" "sched_pid s = [0, 0, 0]" "proc_term s = 0"
    using assms by (simp_all add: booting_def)
  have ok: "procs_ok ?s1" using b(1,4,5) by (auto simp: procs_ok_def live_def)
  have t1: "terms_ok ?s1" using b(2) by simp
  then have "has_shell eip ?s1"
    using b(2) by (intro has_shell_frame [OF _ _ b(3)]) (simp_all add: terms_ok_def base_ok_def)
  from booting_start [OF ok t1 this, of 0 dev xesp xebp] show ?thesis
    using b(4-6) by (simp add: scheduler_def)
qed

lemma scheduler_next:
  assumes "booting eip m s" and m: "m = 1 \<or> m = 2"
  shows "\<exists>t. scheduler dev esp ebp xesp xebp s = Some (Inr (Started (EntersUser eip t))) \<and> booting eip (Suc m) t"
proof -
  have b: "procs_ok s" "terms_ok s" "has_shell eip s" "unat (program_count s) = m" "proc_term s = m - 1"
    and sp: "sched_pid s = map (\<lambda>i. if i < m then of_nat (Suc i) else 0) [0, 1, 2]"
    using assms(1) by (simp_all add: booting_def)
  have sp': "sched_pid s ! 0 = 1" "sched_pid s ! (m - 1) = of_nat m" "sched_pid s ! m = 0" "length (sched_pid s) = 3"
    "Suc (m - 1) mod 3 = m" "unat (of_nat m :: u8) = m" "m - 1 < 3" using m sp by auto
  have m3: "m < 3" using m by auto
  obtain c where c: "live s c" "pcb_current s = pcb_addr (Suc c)"
    using procs_okD(10) [OF b(1)] b(4) m by fastforce
  define s1 where "s1 = scheduler_remap_video m ((upd_pcb (pcb_addr m) (\<lambda>p. p\<lparr>pcb_esp := esp, pcb_ebp := ebp\<rparr>) s)
      \<lparr>sched_pid := (sched_pid s)[m := of_nat m + 1], curr_process := of_nat m, video_mem := video_base m\<rparr>)"
  have f: "pid_arr s1 = pid_arr s" "program_count s1 = program_count s" "pcb_current s1 = pcb_current s"
    "sched_pid s1 = (sched_pid s)[m := of_nat m + 1]" "phys s1 = phys s" "fsys s1 = fsys s" "proc_term s1 = m"
    using sp'(6) by (simp_all add: s1_def)
  have "pcb_ids (pcb_at s1 a) = pcb_ids (pcb_at s a)" for a by (simp add: s1_def upd_pcb_def pcb_ids_def)
  then have ok: "procs_ok s1" using procs_ok_ids [OF b(1), of s1 c] c f sp'(4) by simp
  have t1: "terms_ok s1"
    unfolding s1_def using b(2) m3 by (intro terms_ok_scheduler_remap) (simp add: terms_ok_curr_process)
  then have "has_shell eip s1"
    using b(2) f by (intro has_shell_frame [OF _ _ b(3)]) (simp_all add: terms_ok_def base_ok_def)
  moreover have "(sched_pid s1)[m := of_nat (Suc m)] = map (\<lambda>i. if i < Suc m then of_nat (Suc i) else 0) [0, 1, 2]"
    using m by (auto simp: f(4) sp)
  ultimately obtain t where "start_shell dev xesp xebp s1 = Some (Inr (Started (EntersUser eip t)))" "booting eip (Suc m) t"
    using booting_start [OF ok t1, of eip m dev xesp xebp] f b(4) m by auto
  moreover have "scheduler dev esp ebp xesp xebp s = start_shell dev xesp xebp s1"
    using sp' b(5) by (simp add: scheduler_def Let_def sched_at_def s1_def upd_pcb_def del: of_nat_Suc)
  ultimately show ?thesis by simp
qed

lemma booting_int: "booting eip m (send_eoi 0 (cli s)) = booting eip m s"
proof -
  have "vview (s\<lparr>io_hist := h\<rparr>) = vview s" for h and s :: "'a kernel_scheme"
    by (simp add: vview_def cong: option.case_cong)
  then show ?thesis by (simp add: booting_def has_shell_def fs_ok_def send_eoi_0)
qed

lemma pit_starts:
  assumes "booting eip m s" and "m < 3"
  shows "\<exists>t. pit_interrupt_handler dev esp ebp xesp xebp s = Some (Inr (Started (EntersUser eip t)))
     \<and> booting eip (Suc m) t"
proof -
  have "\<exists>t. scheduler dev esp ebp xesp xebp (send_eoi 0 (cli s)) = Some (Inr (Started (EntersUser eip t)))
      \<and> booting eip (Suc m) t"
    using scheduler_first [of eip "send_eoi 0 (cli s)" dev esp ebp xesp xebp]
      scheduler_next [of eip m "send_eoi 0 (cli s)" dev esp ebp xesp xebp] assms
    unfolding booting_int using less_3_cases [OF assms(2)] by auto
  then show ?thesis by (auto simp: pit_interrupt_handler_def)
qed

text \<open>
  Booting: with no process and an image in the kernel's page that holds a runnable ``shell'',
  the first three timer ticks start a shell each, on terminals 0, 1 and 2; then the three
  terminals have live processes in the slots 0, 1, 2, and the process table and the
  terminals are well formed, so that every further tick is a switch.
\<close>

theorem boot_three_shells:
  assumes "booting eip 0 s"
  shows "\<exists>t1 t2 t3. pit_interrupt_handler dev e0 b0 x0 y0 s = Some (Inr (Started (EntersUser eip t1)))
     \<and> pit_interrupt_handler dev e1 b1 x1 y1 t1 = Some (Inr (Started (EntersUser eip t2)))
     \<and> pit_interrupt_handler dev e2 b2 x2 y2 t2 = Some (Inr (Started (EntersUser eip t3)))
     \<and> sched_pid t3 = [1, 2, 3] \<and> program_count t3 = 3 \<and> sched_slots t3 id \<and> procs_ok t3 \<and> terms_ok t3"
proof -
  obtain t1 where t1: "pit_interrupt_handler dev e0 b0 x0 y0 s = Some (Inr (Started (EntersUser eip t1)))" "booting eip 1 t1"
    using pit_starts [OF assms, of dev e0 b0 x0 y0] by auto
  obtain t2 where t2: "pit_interrupt_handler dev e1 b1 x1 y1 t1 = Some (Inr (Started (EntersUser eip t2)))" "booting eip 2 t2"
    using pit_starts [OF t1(2), of dev e1 b1 x1 y1] by (auto simp: numeral_2_eq_2)
  obtain t3 where t3: "pit_interrupt_handler dev e2 b2 x2 y2 t2 = Some (Inr (Started (EntersUser eip t3)))" "booting eip 3 t3"
    using pit_starts [OF t2(2), of dev e2 b2 x2 y2] by (auto simp: numeral_3_eq_3 numeral_2_eq_2)
  have b: "procs_ok t3" "terms_ok t3" "unat (program_count t3) = 3" "sched_pid t3 = [1, 2, 3]"
    using t3(2) by (simp_all add: booting_def)
  have "program_count t3 = of_nat (unat (program_count t3))" by simp
  then have "program_count t3 = 3" by (simp only: b(3)) simp
  moreover have "sched_slots t3 id"
    using procs_okD(6) [OF b(1)] b(3,4) by (auto simp: sched_slots_def dest!: less_3_cases)
  ultimately show ?thesis using t1 t2 t3 b by blast
qed

text \<open>The image of \<open>process_example\<close> before any process runs.\<close>

definition boot_example :: kernel where
  "boot_example = process_example\<lparr>pcb_at := (\<lambda>_. empty_pcb), program_count := 0, pid_arr := replicate 6 0,
     sched_pid := [0, 0, 0], pcb_current := 0\<rparr>"

lemma process_example_shell: "has_shell 0x08048034 process_example"
proof -
  let ?m = "vview process_example" and ?f = "fsys process_example"
  let ?d0 = "load_dentry ?m (direntry_addr ?f 0)" and ?d1 = "load_dentry ?m (direntry_addr ?f 1)"
  have f: "boot_block_addr ?f = 0x502000"
    by (simp add: process_example_def kernel_example_fields kernel_boot_def)
  have "filename ?d0 = 97 # replicate 31 0"
    by (rule nth_equalityI)
      (auto simp: load_dentry_def direntry_addr_def f process_example_view kernel_page_def elf_image_def nth_Cons' not_less)
  moreover have "filename ?d1 = [0x73, 0x68, 0x65, 0x6C, 0x6C] @ replicate 27 0"
    by (rule nth_equalityI)
      (auto simp: load_dentry_def direntry_addr_def f process_example_view kernel_page_def elf_image_def
        nth_Cons' nth_append not_less)
  then have "takeWhile (\<lambda>b. b \<noteq> 0) (filename ?d1) = shell_name" by (simp add: shell_name_def bytes_of_def)
  moreover have "[0..<64] = 0 # 1 # [2..<64]" by (simp add: upt_conv_Cons numeral_2_eq_2)
  ultimately have "lookup ?m ?f shell_name = Some ?d1"
    by (simp add: lookup_def shell_name_def bytes_of_def del: upt_Suc upt_rec_numeral)
  moreover have "inode_num ?d1 = 0"
    by (simp add: load_dentry_def direntry_addr_def f load32_def process_example_view kernel_page_def elf_image_def)
  moreover have "length shell_name \<le> 32" by (simp add: shell_name_def bytes_of_def)
  ultimately have "runnable ?m ?f shell_name 0 0x08048034"
    using process_example_file(2) by (auto simp: runnable_def)
  then show ?thesis using process_example_file(1,3) by (auto simp: has_shell_def intro: exI [of _ 0])
qed

lemma boot_example_booting: "booting 0x08048034 0 boot_example"
proof -
  have t: "terms_ok boot_example" using process_example_ok(2) by (simp add: boot_example_def)
  have "fds_ok empty_pcb" by (simp add: empty_pcb_def closed_fd_def fds_ok_def nth_Cons' eval_nat_numeral)
  then have "procs_ok boot_example"
    by (auto simp: procs_ok_def boot_example_def live_def nth_Cons' eval_nat_numeral)
  moreover have "has_shell 0x08048034 boot_example"
    using process_example_ok(3) t
    by (intro has_shell_frame [OF process_example_ok(3) _ process_example_shell])
      (simp_all add: boot_example_def)
  moreover have "proc_term boot_example = 0" using process_example_slots(2) by (simp add: boot_example_def)
  ultimately show ?thesis using t by (simp add: booting_def boot_example_def)
qed

theorem boot_three_shells_witness:
  "\<exists>t1 t2 t3. pit_interrupt_handler (\<lambda>_ _. 0) 0 0 0 0 boot_example = Some (Inr (Started (EntersUser 0x08048034 t1)))
     \<and> pit_interrupt_handler (\<lambda>_ _. 0) 0 0 0 0 t1 = Some (Inr (Started (EntersUser 0x08048034 t2)))
     \<and> pit_interrupt_handler (\<lambda>_ _. 0) 0 0 0 0 t2 = Some (Inr (Started (EntersUser 0x08048034 t3)))
     \<and> sched_pid t3 = [1, 2, 3]"
  using boot_three_shells [OF boot_example_booting, of "\<lambda>_ _. 0" 0 0 0 0 0 0 0 0 0 0 0 0] by blast

end
