(* ===== verification/IDT.thy ===== *)
theory IDT
  imports Scheduler
begin

text \<open>
  Interrupts: the descriptor table (\<open>idt_desc_t\<close> and \<open>SET_IDT_ENTRY\<close> of
  \<^verbatim>\<open>mp3/student-distrib/x86_desc.h\<close>, \<open>idt_init\<close> of \<^verbatim>\<open>idt_exceptions.c\<close>), the dispatcher
  \<open>do_irq\<close> with its table of handlers, the exception handlers, and the two entry points of
  \<^verbatim>\<open>link.S\<close>: \<open>common_interrupt\<close> and the system call gate \<open>sysc\<close>.

  The addresses of the entry points are given by the linker: they are the parameter \<open>linkage\<close>.
  A bit field is a word of its width; \<open>idt_val\<close> is the union's view of a descriptor as two
  32-bit words. A handler that never returns leaves the state it spins in (\<open>Spins\<close>).
\<close>

section \<open>Descriptors\<close>

record idt_desc =
  offset_15_00 :: u16
  seg_selector :: u16
  reserved4 :: u8
  reserved3 :: "1 word"
  reserved2 :: "1 word"
  reserved1 :: "1 word"
  gate_size :: "1 word"
  reserved0 :: "1 word"
  gate_dpl :: "2 word"
  present :: "1 word"
  offset_31_16 :: u16

definition idt_val :: "idt_desc \<Rightarrow> u32 \<times> u32" where
  "idt_val d =
     (ucast (offset_15_00 d) OR push_bit 16 (ucast (seg_selector d)),
      ucast (reserved4 d) OR push_bit 8 (ucast (reserved3 d)) OR push_bit 9 (ucast (reserved2 d))
      OR push_bit 10 (ucast (reserved1 d)) OR push_bit 11 (ucast (gate_size d))
      OR push_bit 12 (ucast (reserved0 d)) OR push_bit 13 (ucast (gate_dpl d))
      OR push_bit 15 (ucast (present d)) OR push_bit 16 (ucast (offset_31_16 d)))"

definition SET_IDT_ENTRY :: "u32 \<Rightarrow> idt_desc \<Rightarrow> idt_desc" where
  "SET_IDT_ENTRY handler d =
     d\<lparr>offset_31_16 := ucast (drop_bit 16 (handler AND 0xFFFF0000)), offset_15_00 := ucast (handler AND 0xFFFF)\<rparr>"

record linkage =
  default_link :: u32
  linkage_array :: "u32 list"
  keyboard_link :: u32
  rtc_link :: u32
  sysc_link :: u32
  pit_link :: u32

datatype handler = Null | Exception nat | Keyboard_handler | Rtc_handler | Pit_handler

record system = kernel +
  idt :: "idt_desc list"
  handler_table :: "handler list"

section \<open>Initialisation\<close>

text \<open>The body of the first loop of \<open>idt_init\<close>.\<close>

definition init_gate :: "linkage \<Rightarrow> nat \<Rightarrow> idt_desc \<Rightarrow> idt_desc" where
  "init_gate L i d =
     (let d = d\<lparr>seg_selector := 0x10, reserved4 := 0, reserved3 := 0, reserved2 := 1, reserved1 := 1,
                reserved0 := 0, gate_size := 1, gate_dpl := 0, present := 1\<rparr>;
          d = (if i = 0x80 then d\<lparr>reserved3 := 1, gate_dpl := 3\<rparr> else d)
      in SET_IDT_ENTRY (default_link L) d)"

definition init_idt :: "linkage \<Rightarrow> idt_desc list \<Rightarrow> idt_desc list" where
  "init_idt L t =
     (let t = fold (\<lambda>i t. t[i := init_gate L i (t ! i)]) [0..<256] t;
          t = fold (\<lambda>i t. t[i := SET_IDT_ENTRY (linkage_array L ! i) (t ! i)]) [0..<32] t;
          t = t[0x21 := SET_IDT_ENTRY (keyboard_link L) (t ! 0x21)];
          t = t[0x28 := SET_IDT_ENTRY (rtc_link L) (t ! 0x28)];
          t = t[0x80 := SET_IDT_ENTRY (sysc_link L) (t ! 0x80)]
      in t[0x20 := SET_IDT_ENTRY (pit_link L) (t ! 0x20)])"

definition init_handlers :: "handler list \<Rightarrow> handler list" where
  "init_handlers t =
     (let t = fold (\<lambda>i t. t[i := Exception i]) [0..<20] t;
          t = fold (\<lambda>i t. t[i := Exception 1]) [20..<32] t
      in t[0x21 := Keyboard_handler, 0x28 := Rtc_handler, 0x20 := Pit_handler])"

definition idt_init :: "linkage \<Rightarrow> 'a system_scheme \<Rightarrow> 'a system_scheme" where
  "idt_init L s = s\<lparr>idt := init_idt L (idt s), handler_table := init_handlers (handler_table s)\<rparr>"

section \<open>Exceptions\<close>

datatype 's irq_outcome = Handled 's | Rescheduled "'s sched_outcome" | Spins 's

definition default_handler :: "'a kernel_scheme \<Rightarrow> 'a kernel_scheme" where
  "default_handler s = s"

text \<open>\<open>printf\<close> of a message followed by the endless loop, and the same after \<open>clear\<close>.\<close>

definition print_spin :: "string \<Rightarrow> 'a kernel_scheme \<Rightarrow> 'a kernel_scheme irq_outcome res option" where
  "print_spin msg s =
     map_option (\<lambda>r. and_then r (\<lambda>(_, s). Inr (Spins s)))
       (printf (with_literal (-64) (CHR 0x0A # msg) (vview s)) (-64) [] s)"

definition clear_print_spin :: "string \<Rightarrow> 'a kernel_scheme \<Rightarrow> 'a kernel_scheme irq_outcome res option" where
  "clear_print_spin msg s = (case clear s of Inl e \<Rightarrow> Some (Inl e) | Inr s \<Rightarrow> print_spin msg s)"

definition exception_0 :: "'a kernel_scheme \<Rightarrow> 'a kernel_scheme irq_outcome res option" where
  "exception_0 = clear_print_spin '' DIVIDE ERROR''"

definition exception_1 :: "'a kernel_scheme \<Rightarrow> 'a kernel_scheme irq_outcome res option" where
  "exception_1 = clear_print_spin '' RESERVED''"

definition exception_2 :: "'a kernel_scheme \<Rightarrow> 'a kernel_scheme irq_outcome res option" where
  "exception_2 = clear_print_spin '' NMI Interrupt''"

definition exception_3 :: "'a kernel_scheme \<Rightarrow> 'a kernel_scheme irq_outcome res option" where
  "exception_3 = clear_print_spin '' BREAKPOINT''"

definition exception_4 :: "'a kernel_scheme \<Rightarrow> 'a kernel_scheme irq_outcome res option" where
  "exception_4 = clear_print_spin '' Overflow''"

definition exception_5 :: "'a kernel_scheme \<Rightarrow> 'a kernel_scheme irq_outcome res option" where
  "exception_5 = clear_print_spin '' BOUND Range Exceeded''"

definition exception_6 :: "'a kernel_scheme \<Rightarrow> 'a kernel_scheme irq_outcome res option" where
  "exception_6 = clear_print_spin '' Invalid Opcode (Undefined Opcode)''"

definition exception_7 :: "'a kernel_scheme \<Rightarrow> 'a kernel_scheme irq_outcome res option" where
  "exception_7 = clear_print_spin '' Device Not Available (No Math Coprocessor)''"

definition exception_8 :: "'a kernel_scheme \<Rightarrow> 'a kernel_scheme irq_outcome res option" where
  "exception_8 = clear_print_spin '' Double Fault''"

definition exception_9 :: "'a kernel_scheme \<Rightarrow> 'a kernel_scheme irq_outcome res option" where
  "exception_9 = clear_print_spin '' Coprocessor Segment Overrun (reserved)''"

definition exception_10 :: "'a kernel_scheme \<Rightarrow> 'a kernel_scheme irq_outcome res option" where
  "exception_10 = clear_print_spin '' Invalid TSS''"

definition exception_11 :: "'a kernel_scheme \<Rightarrow> 'a kernel_scheme irq_outcome res option" where
  "exception_11 = clear_print_spin '' Segment Not Present''"

definition exception_12 :: "'a kernel_scheme \<Rightarrow> 'a kernel_scheme irq_outcome res option" where
  "exception_12 = clear_print_spin '' Stack-Segment Fault''"

definition exception_13 :: "'a kernel_scheme \<Rightarrow> 'a kernel_scheme irq_outcome res option" where
  "exception_13 = clear_print_spin '' General Protection''"

definition exception_14 :: "'a kernel_scheme \<Rightarrow> 'a kernel_scheme irq_outcome res option" where
  "exception_14 = print_spin '' Page Fault''"

definition exception_15 :: "'a kernel_scheme \<Rightarrow> 'a kernel_scheme irq_outcome res option" where
  "exception_15 = clear_print_spin '' Intel Reserved''"

definition exception_16 :: "'a kernel_scheme \<Rightarrow> 'a kernel_scheme irq_outcome res option" where
  "exception_16 = clear_print_spin '' x87 FPU Floating-Point Error (Math Fault)''"

definition exception_17 :: "'a kernel_scheme \<Rightarrow> 'a kernel_scheme irq_outcome res option" where
  "exception_17 = clear_print_spin '' Alignment Check''"

definition exception_18 :: "'a kernel_scheme \<Rightarrow> 'a kernel_scheme irq_outcome res option" where
  "exception_18 = clear_print_spin '' Machine Check''"

definition exception_19 :: "'a kernel_scheme \<Rightarrow> 'a kernel_scheme irq_outcome res option" where
  "exception_19 = clear_print_spin '' SIMD Floating-Point Exception''"

definition exceptions :: "('a kernel_scheme \<Rightarrow> 'a kernel_scheme irq_outcome res option) list" where
  "exceptions = [exception_0, exception_1, exception_2, exception_3, exception_4, exception_5, exception_6,
     exception_7, exception_8, exception_9, exception_10, exception_11, exception_12, exception_13, exception_14,
     exception_15, exception_16, exception_17, exception_18, exception_19]"

section \<open>Dispatch\<close>

text \<open>A call through a null pointer jumps to address 0, which is not mapped.\<close>

definition do_irq ::
  "device \<Rightarrow> u32 \<Rightarrow> u32 \<Rightarrow> u32 \<Rightarrow> u32 \<Rightarrow> nat \<Rightarrow> 'a system_scheme \<Rightarrow> 'a system_scheme irq_outcome res option" where
  "do_irq dev esp ebp xesp xebp vector_num s =
     (if vector_num \<ge> length (handler_table s) then Some (Inl OutOfBounds)
      else case handler_table s ! vector_num of
             Null \<Rightarrow> Some (Inl PageFault)
           | Exception n \<Rightarrow> (exceptions ! n) s
           | Keyboard_handler \<Rightarrow> Some (and_then (keyboard_inter_handler dev s) (\<lambda>s. Inr (Handled s)))
           | Rtc_handler \<Rightarrow> Some (Inr (Handled (rtc_interrupt_handler dev s)))
           | Pit_handler \<Rightarrow> map_option (\<lambda>r. and_then r (\<lambda>out. Inr (Rescheduled out)))
                              (pit_interrupt_handler dev esp ebp xesp xebp s))"

definition common_interrupt ::
  "device \<Rightarrow> u32 \<Rightarrow> u32 \<Rightarrow> u32 \<Rightarrow> u32 \<Rightarrow> nat \<Rightarrow> 'a system_scheme \<Rightarrow> 'a system_scheme irq_outcome res option" where
  "common_interrupt dev esp ebp xesp xebp vector_num s =
     map_option (\<lambda>r. and_then r (\<lambda>out. Inr (case out of Handled s \<Rightarrow> Handled (sti s) | _ \<Rightarrow> out)))
       (do_irq dev esp ebp xesp xebp vector_num (cli s))"

text \<open>A handler that returns its value in \<open>eax\<close>.\<close>

definition returns :: "(int \<times> 's) res \<Rightarrow> 's outcome res option" where
  "returns r = Some (and_then r (\<lambda>(v, s). Inr (Returns v s)))"

text \<open>
  The system call gate. \<open>eax\<close> is compared as a signed number with 1 and 10; the jump table has
  eight entries, and a jump through memory behind it is a fault.
\<close>

definition sysc ::
  "device \<Rightarrow> ('a kernel_scheme \<Rightarrow> 'a kernel_scheme) list \<Rightarrow> bool list \<Rightarrow> u32 \<Rightarrow> u32 \<Rightarrow> u32 \<Rightarrow> u32 \<Rightarrow> u32 \<Rightarrow> u32 \<Rightarrow>
     'a kernel_scheme \<Rightarrow> 'a kernel_scheme outcome res option" where
  "sysc dev ints sched esp ebp eax ebx ecx edx s =
     (if sint eax < 1 then Some (Inr (Returns (-1) s))
      else if sint eax > 10 then Some (Inr (Returns (-1) s))
      else if eax = 1 then halt_handler (ucast ebx) s
      else if eax = 2 then execute_handler dev esp ebp (uint ebx) s
      else if eax = 3
      then Option.bind (read_handler dev ints sched (sint ebx) (uint ecx) (sint edx) s) returns
      else if eax = 4 then returns (write_handler dev (sint ebx) (uint ecx) (sint edx) s)
      else if eax = 5 then returns (open_handler dev (uint ebx) s)
      else if eax = 6 then returns (Inr (close_handler (sint ebx) s))
      else if eax = 7 then returns (getargs_handler (uint ebx) (sint ecx) s)
      else if eax = 8 then returns (vidmap_handler (uint ebx) s)
      else Some (Inl OutOfBounds))"

section \<open>What the processor reads from a gate\<close>

text \<open>The fields of a 32-bit gate, as the architecture lays them out in the two words.\<close>

definition gate_offset :: "u32 \<times> u32 \<Rightarrow> u32" where
  "gate_offset v = push_bit 16 (drop_bit 16 (snd v)) OR take_bit 16 (fst v)"

definition gate_selector :: "u32 \<times> u32 \<Rightarrow> u32" where
  "gate_selector v = drop_bit 16 (fst v)"

definition gate_attributes :: "u32 \<times> u32 \<Rightarrow> u32" where
  "gate_attributes v = take_bit 16 (snd v)"

text \<open>The entry point of each vector.\<close>

definition vector_link :: "linkage \<Rightarrow> nat \<Rightarrow> u32" where
  "vector_link L v =
     (if v < 32 then linkage_array L ! v else if v = 0x20 then pit_link L else if v = 0x21 then keyboard_link L
      else if v = 0x28 then rtc_link L else if v = 0x80 then sysc_link L else default_link L)"

lemma mask_high: "drop_bit 16 ((h :: u32) AND 0xFFFF0000) = drop_bit 16 h"
proof -
  have "drop_bit 16 (0xFFFF0000 :: u32) = mask 16" by (simp add: mask_numeral)
  then have "drop_bit 16 (h AND 0xFFFF0000) = drop_bit 16 h AND mask 16" by (simp add: drop_bit_and)
  also have "\<dots> = drop_bit 16 h"
    by (rule bit_word_eqI) (auto simp: bit_simps dest: bit_imp_le_length)
  finally show ?thesis .
qed

lemma mask_low: "(h :: u32) AND 0xFFFF = take_bit 16 h"
  by (simp add: take_bit_eq_mask mask_numeral)

lemma split_word: "push_bit 16 (ucast (ucast (drop_bit 16 h) :: u16)) OR ucast (ucast h :: u16) = (h :: u32)"
  by (rule bit_word_eqI) (auto simp: bit_simps not_le)

lemma low_word: "take_bit 16 (ucast (w :: u16) :: u32) = ucast w" "drop_bit 16 (ucast (w :: u16) :: u32) = 0"
  by (rule bit_word_eqI, auto simp: bit_simps dest: bit_imp_le_length)+

lemma SET_IDT_ENTRY_eq:
  "SET_IDT_ENTRY h d = d\<lparr>offset_31_16 := ucast (drop_bit 16 h), offset_15_00 := ucast h\<rparr>"
proof -
  have "(ucast (take_bit 16 h) :: u16) = ucast h" by (rule bit_word_eqI) (auto simp: bit_simps)
  then show ?thesis by (simp only: SET_IDT_ENTRY_def mask_high mask_low)
qed

lemma idt_val_gate:
  assumes "seg_selector d = 0x10" "reserved4 d = 0" "reserved3 d = r" "reserved2 d = 1" "reserved1 d = 1"
    "gate_size d = 1" "reserved0 d = 0" "gate_dpl d = p" "present d = 1" "(r, p) = (0, 0) \<or> (r, p) = (1, 3)"
  shows "idt_val (SET_IDT_ENTRY h d) =
     (ucast (ucast h :: u16) OR push_bit 16 0x10, (if r = 1 then 0xEF00 else 0x8E00) OR push_bit 16 (ucast (ucast (drop_bit 16 h) :: u16)))"
  using assms by (auto simp: idt_val_def SET_IDT_ENTRY_eq or.assoc [symmetric])

lemma gate_parts:
  fixes h :: u32
  assumes "take_bit 16 c = c"
  shows "gate_offset (ucast (ucast h :: u16) OR push_bit 16 0x10, c OR push_bit 16 (ucast (ucast (drop_bit 16 h) :: u16))) = h"
    and "gate_selector (ucast (ucast h :: u16) OR push_bit 16 0x10, x) = 0x10"
    and "gate_attributes (x, c OR push_bit 16 y) = c"
proof -
  have "drop_bit 16 (take_bit 16 c) = 0" by (rule bit_word_eqI) (auto simp: bit_simps)
  then have c: "drop_bit 16 c = 0" using assms by simp
  have p: "drop_bit 16 (push_bit 16 (ucast (w :: u16)) :: u32) = ucast w" for w
    by (rule bit_word_eqI) (auto simp: bit_simps dest: bit_imp_le_length)
  show "gate_offset (ucast (ucast h :: u16) OR push_bit 16 0x10, c OR push_bit 16 (ucast (ucast (drop_bit 16 h) :: u16))) = h"
    using split_word [of h] unfolding gate_offset_def fst_conv snd_conv drop_bit_or take_bit_or c p low_word by simp
  show "gate_selector (ucast (ucast h :: u16) OR push_bit 16 0x10, x) = 0x10"
    unfolding gate_selector_def fst_conv drop_bit_or low_word by simp
  show "gate_attributes (x, c OR push_bit 16 y) = c"
    unfolding gate_attributes_def snd_conv take_bit_or assms by (simp add: take_bit_push_bit)
qed

lemma init_idt_nth:
  assumes "length t = 256" and "v < 256"
  shows "length (init_idt L t) = 256"
    and "\<exists>d. init_idt L t ! v = SET_IDT_ENTRY (vector_link L v) d \<and> init_gate L v (t ! v) = SET_IDT_ENTRY (default_link L) d"
proof -
  define t1 where "t1 = fold (\<lambda>i t. t[i := init_gate L i (t ! i)]) [0..<256] t"
  define t2 where "t2 = fold (\<lambda>i t. t[i := SET_IDT_ENTRY (linkage_array L ! i) (t ! i)]) [0..<32] t1"
  have t1: "length t1 = 256" "t1 ! j = (if j < 256 then init_gate L j (t ! j) else t ! j)" for j
    using fold_update_nth [of 256 t "init_gate L" 0] assms(1) by (simp_all add: t1_def)
  have t2: "length t2 = 256" "t2 ! j = (if j < 32 then SET_IDT_ENTRY (linkage_array L ! j) (t1 ! j) else t1 ! j)" for j
    using fold_update_nth [of 32 t1 "\<lambda>i. SET_IDT_ENTRY (linkage_array L ! i)" 0] t1(1) by (simp_all add: t2_def)
  have eq: "init_idt L t = t2[0x21 := SET_IDT_ENTRY (keyboard_link L) (t2 ! 0x21), 0x28 := SET_IDT_ENTRY (rtc_link L) (t2 ! 0x28),
      0x80 := SET_IDT_ENTRY (sysc_link L) (t2 ! 0x80), 0x20 := SET_IDT_ENTRY (pit_link L) (t2 ! 0x20)]"
    unfolding init_idt_def t1_def [symmetric] t2_def [symmetric] Let_def by simp
  show "length (init_idt L t) = 256" by (simp add: eq t2)
  obtain d where d: "init_gate L v (t ! v) = SET_IDT_ENTRY (default_link L) d" by (simp add: init_gate_def Let_def)
  have again: "SET_IDT_ENTRY a (SET_IDT_ENTRY b d) = SET_IDT_ENTRY a d" for a b by (simp add: SET_IDT_ENTRY_def)
  have "init_idt L t ! v = SET_IDT_ENTRY (vector_link L v) d"
    using assms(2) d again by (auto simp: eq t1 t2 nth_list_update vector_link_def)
  with d show "\<exists>d. init_idt L t ! v = SET_IDT_ENTRY (vector_link L v) d \<and> init_gate L v (t ! v) = SET_IDT_ENTRY (default_link L) d"
    by blast
qed

lemma init_gate_fields:
  assumes "init_gate L v e = SET_IDT_ENTRY h d"
  shows "seg_selector d = 0x10" "reserved4 d = 0" "reserved3 d = (if v = 0x80 then 1 else 0)" "reserved2 d = 1"
    "reserved1 d = 1" "gate_size d = 1" "reserved0 d = 0" "gate_dpl d = (if v = 0x80 then 3 else 0)" "present d = 1"
proof -
  have eq: "f (init_gate L v e) = f (SET_IDT_ENTRY h d)" for f :: "idt_desc \<Rightarrow> 'b" using assms by simp
  show "seg_selector d = 0x10" "reserved4 d = 0" "reserved3 d = (if v = 0x80 then 1 else 0)" "reserved2 d = 1"
    "reserved1 d = 1" "gate_size d = 1" "reserved0 d = 0" "gate_dpl d = (if v = 0x80 then 3 else 0)" "present d = 1"
    using eq [of seg_selector] eq [of reserved4] eq [of reserved3] eq [of reserved2] eq [of reserved1] eq [of gate_size]
      eq [of reserved0] eq [of gate_dpl] eq [of present]
    by (simp_all add: init_gate_def SET_IDT_ENTRY_def Let_def split: if_splits)
qed

lemma idt_init_gate:
  assumes "length (idt s) = 256" and "v < 256"
  shows "idt_val (idt (idt_init L s) ! v) =
     (ucast (ucast (vector_link L v) :: u16) OR push_bit 16 0x10,
      (if v = 0x80 then 0xEF00 else 0x8E00) OR push_bit 16 (ucast (ucast (drop_bit 16 (vector_link L v)) :: u16)))"
proof -
  obtain d where d: "idt (idt_init L s) ! v = SET_IDT_ENTRY (vector_link L v) d"
    "init_gate L v (idt s ! v) = SET_IDT_ENTRY (default_link L) d"
    using init_idt_nth(2) [OF assms] by (auto simp: idt_init_def)
  show ?thesis
    unfolding d(1) by (subst idt_val_gate [OF init_gate_fields [OF d(2)]]) simp_all
qed

text \<open>
  C38. Type safety of the interrupt table: whatever it held before, after \<open>idt_init\<close> all 256
  descriptors, read the way the processor decodes the two words, are present 32-bit gates
  into the kernel's code segment whose 32-bit offset is the entry point linked for that
  vector. Vector 0x80 is a trap gate (interrupts stay enabled) that user code may call
  (privilege 3); all others are interrupt gates of privilege 0, and the reserved bits are 0.
\<close>

theorem idt_gates_well_formed:
  assumes "length (idt s) = 256" and "v < 256"
  shows "let g = idt_val (idt (idt_init L s) ! v)
     in gate_offset g = vector_link L v \<and> gate_selector g = 0x10
        \<and> gate_attributes g = (if v = 0x80 then 0xEF00 else 0x8E00)"
proof -
  have "take_bit 16 (if v = 0x80 then 0xEF00 else 0x8E00 :: u32) = (if v = 0x80 then 0xEF00 else 0x8E00)" by simp
  from gate_parts [OF this] show ?thesis
    unfolding Let_def idt_init_gate [OF assms] by blast
qed

text \<open>A state before \<open>idt_init\<close>: both tables zeroed.\<close>

definition zero_gate :: idt_desc where
  "zero_gate = \<lparr>offset_15_00 = 0, seg_selector = 0, reserved4 = 0, reserved3 = 0, reserved2 = 0, reserved1 = 0,
     gate_size = 0, reserved0 = 0, gate_dpl = 0, present = 0, offset_31_16 = 0\<rparr>"

definition system_example :: system where
  "system_example = kernel.extend ((scheduler_remap_video 0 process_example)\<lparr>video_mem := video_base 0\<rparr>)
     \<lparr>idt = replicate 256 zero_gate, handler_table = replicate 256 Null\<rparr>"

definition linkage_example :: linkage where
  "linkage_example = \<lparr>default_link = 0x400100, linkage_array = map (\<lambda>i. 0x401000 + 8 * of_nat i) [0..<32],
     keyboard_link = 0x402000, rtc_link = 0x402008, sysc_link = 0x402010, pit_link = 0x402018\<rparr>"

theorem idt_gates_well_formed_witness:
  "gate_offset (idt_val (idt (idt_init linkage_example system_example) ! 0x80)) = 0x402010
   \<and> gate_attributes (idt_val (idt (idt_init linkage_example system_example) ! 0x80)) = 0xEF00"
  using idt_gates_well_formed [of system_example "0x80" linkage_example]
  by (simp add: system_example_def kernel.extend_def vector_link_def linkage_example_def Let_def)

section \<open>Dispatch\<close>

text \<open>The message of an exception vector.\<close>

definition exception_text :: "nat \<Rightarrow> string" where
  "exception_text v =
     (if v < 20
      then ['' DIVIDE ERROR'', '' RESERVED'', '' NMI Interrupt'', '' BREAKPOINT'', '' Overflow'', '' BOUND Range Exceeded'',
        '' Invalid Opcode (Undefined Opcode)'', '' Device Not Available (No Math Coprocessor)'', '' Double Fault'',
        '' Coprocessor Segment Overrun (reserved)'', '' Invalid TSS'', '' Segment Not Present'', '' Stack-Segment Fault'',
        '' General Protection'', '' Page Fault'', '' Intel Reserved'', '' x87 FPU Floating-Point Error (Math Fault)'',
        '' Alignment Check'', '' Machine Check'', '' SIMD Floating-Point Exception''] ! v
      else '' RESERVED'')"

lemma less_20_cases:
  "n < 20 \<Longrightarrow> n \<in> {0, 1, 2, 3, 4, 5, 6, 7, 8, 9, 10, 11, 12, 13, 14, 15, 16, 17, 18, 19 :: nat}"
  unfolding insert_iff empty_iff by arith

lemmas exception_defs = exception_0_def exception_1_def exception_2_def exception_3_def exception_4_def exception_5_def
  exception_6_def exception_7_def exception_8_def exception_9_def exception_10_def exception_11_def exception_12_def
  exception_13_def exception_14_def exception_15_def exception_16_def exception_17_def exception_18_def exception_19_def

lemma exceptions_nth:
  assumes "n < 20"
  shows "exceptions ! n = (if n = 14 then print_spin else clear_print_spin) (exception_text n)"
  using less_20_cases [OF assms]
  by (auto simp: exceptions_def exception_defs exception_text_def)

lemma exception_text_plain:
  "0 \<notin> set (bytes_of (CHR 0x0A # exception_text v))" "0x25 \<notin> set (bytes_of (CHR 0x0A # exception_text v))"
proof -
  have "0 \<notin> set (bytes_of (CHR 0x0A # exception_text v)) \<and> 0x25 \<notin> set (bytes_of (CHR 0x0A # exception_text v))"
  proof (cases "v < 20")
    case True
    from less_20_cases [OF this] show ?thesis by (auto simp: exception_text_def bytes_of_def)
  qed (simp add: exception_text_def bytes_of_def)
  then show "0 \<notin> set (bytes_of (CHR 0x0A # exception_text v))" "0x25 \<notin> set (bytes_of (CHR 0x0A # exception_text v))"
    by simp_all
qed

lemma init_handlers_nth:
  assumes "length t = 256"
  shows "length (init_handlers t) = 256"
    and "v < 32 \<Longrightarrow> init_handlers t ! v = Exception (if v < 20 then v else 1)"
    and "init_handlers t ! 0x20 = Pit_handler" "init_handlers t ! 0x21 = Keyboard_handler"
    "init_handlers t ! 0x28 = Rtc_handler"
proof -
  define t1 where "t1 = fold (\<lambda>i t. t[i := Exception i]) [0..<20] t"
  define t2 where "t2 = fold (\<lambda>i t. t[i := Exception 1]) [20..<32] t1"
  have t1: "length t1 = 256" "t1 ! j = (if j < 20 then Exception j else t ! j)" for j
    using fold_update_nth [of 20 t "\<lambda>i _. Exception i" 0] assms by (simp_all add: t1_def)
  have t2: "length t2 = 256" "t2 ! j = (if 20 \<le> j \<and> j < 32 then Exception 1 else t1 ! j)" for j
    using fold_update_nth [of 32 t1 "\<lambda>_ _. Exception 1" 20] t1(1) by (simp_all add: t2_def)
  have eq: "init_handlers t = t2[0x21 := Keyboard_handler, 0x28 := Rtc_handler, 0x20 := Pit_handler]"
    unfolding init_handlers_def t1_def [symmetric] t2_def [symmetric] Let_def by simp
  show "length (init_handlers t) = 256" by (simp add: eq t2)
  show "init_handlers t ! v = Exception (if v < 20 then v else 1)" if "v < 32" using that by (simp add: eq t1 t2 nth_list_update)
  show "init_handlers t ! 0x20 = Pit_handler" "init_handlers t ! 0x21 = Keyboard_handler" "init_handlers t ! 0x28 = Rtc_handler"
    by (simp_all add: eq t2 nth_list_update)
qed

section \<open>Messages\<close>

text \<open>
  Printing through a mapped window returns, keeps the cursors on the screen, changes nothing
  but cursors, video memory and the ports, and no byte of memory outside the window's page.
\<close>

lemma putc_fold_total:
  fixes s :: "'a terms_scheme"
  assumes "cursor_ok s" and "window s (proc_term s) base"
  shows "\<exists>t. fold_res putc bs s = Inr t \<and> scr_inv (erase s) t \<and> outside_page base (phys s) (phys t)"
  using assms
proof (induction bs arbitrary: s)
  case Nil
  then show ?case by (simp add: scr_inv_def)
next
  case (Cons b bs)
  have p: "proc_term s < 3" "length (term_arr s) = 3" using Cons.prems(1) by (simp_all add: cursor_ok_def)
  obtain u where u: "putc b s = Inr u" "outside_page base (phys s) (phys u)"
    using putc_on_page [OF Cons.prems(1) p(1) Cons.prems(2)] by (auto simp: putc_def)
  have i: "cursor_ok u" "erase u = erase s"
    using scr_inv_step [of "erase s" s u] u(1) Cons.prems(1) by (auto simp: scr_inv_def intro: step_putc)
  have "window u (proc_term u) base"
    using Cons.prems(2) window_erase [OF i(2)] erase_view(3) [OF i(2)] p by simp
  from Cons.IH [OF i(1) this] show ?case using u i(2) by (auto intro: outside_page_trans)
qed

lemma printf_total:
  fixes s :: "'a terms_scheme"
  assumes "cursor_ok s" and "window s (proc_term s) base"
    and str: "\<forall>a xs. str a = Some xs \<longrightarrow> cstr m a xs" "cstr m format fmt" "render str fmt args = Some text"
  shows "\<exists>t. printf m format args s = Some (Inr (int (length fmt), t)) \<and> scr_inv (erase s) t
     \<and> outside_page base (phys s) (phys t) \<and> and_then (fold_res putc text s) update_cursor = Inr t"
proof -
  obtain u where u: "fold_res putc text s = Inr u" "scr_inv (erase s) u" "outside_page base (phys s) (phys u)"
    using putc_fold_total [OF assms(1,2)] by blast
  let ?t = "u\<lparr>io_hist := io_hist u @ cursor_outs u\<rparr>"
  have c: "update_cursor u = Inr ?t" using u(2) by (intro update_cursor_total) (simp add: scr_inv_def)
  show ?thesis
    using u c by (intro exI [of _ ?t]) (simp add: printf_eq [OF str])
qed

lemma printf_literal_total:
  fixes s :: "'a terms_scheme"
  assumes "cursor_ok s" and "window s (proc_term s) base" and "0 \<notin> set (bytes_of msg)" and "0x25 \<notin> set (bytes_of msg)"
  shows "\<exists>t. printf (with_literal a msg m) a [] s = Some (Inr (int (length msg), t)) \<and> scr_inv (erase s) t
     \<and> outside_page base (phys s) (phys t) \<and> and_then (fold_res putc (bytes_of msg) s) update_cursor = Inr t"
proof -
  have "length (bytes_of msg) = length msg" by (simp add: bytes_of_def)
  then show ?thesis
    using printf_total [OF assms(1,2) _ cstr_literal [OF assms(3), of a m], of "\<lambda>_. None" "[]" "bytes_of msg"]
      render_plain [OF assms(4)] by simp
qed

text \<open>The bytes behind \<open>video_mem\<close> are one page of memory.\<close>

definition video_page :: "'a screen_scheme \<Rightarrow> addr \<Rightarrow> bool" where
  "video_page s b \<longleftrightarrow> (\<forall>d. 0 \<le> d \<and> d < 4096 \<longrightarrow> xlate s (video_mem s + d) = Some (b + d))"

lemma clear_total:
  assumes "video_page s b"
  shows "clear s = Inr (s\<lparr>phys := mwrite (phys s) b (concat (replicate 2000 [0x20, 0x7]))\<rparr>)"
proof -
  have "clear s = fold_res clear_cell [0..<2000] s" by (simp add: clear_def del: upt_rec_numeral)
  then show ?thesis using clear_loop_eq [of s b 2000] assms by (simp add: video_page_def del: upt_rec_numeral)
qed

lemma print_spin_total:
  fixes s :: "'a kernel_scheme"
  assumes "cursor_ok s" and "window s (proc_term s) base"
  shows "\<exists>t. print_spin (exception_text v) s = Some (Inr (Spins t)) \<and> scr_inv (erase s) t
     \<and> and_then (fold_res putc (bytes_of (CHR 0x0A # exception_text v)) s) update_cursor = Inr t"
proof -
  obtain t where t: "printf (with_literal (-64) (CHR 0x0A # exception_text v) (vview s)) (-64) [] s =
      Some (Inr (int (length (CHR 0x0A # exception_text v)), t))" "scr_inv (erase s) t"
      "and_then (fold_res putc (bytes_of (CHR 0x0A # exception_text v)) s) update_cursor = Inr t"
    using printf_literal_total [OF assms exception_text_plain] by blast
  then show ?thesis by (simp add: print_spin_def)
qed

text \<open>The screen an exception handler prints on: cleared, except for the page fault handler.\<close>

definition exception_screen :: "nat \<Rightarrow> 'a screen_scheme \<Rightarrow> 'a screen_scheme res" where
  "exception_screen v s = (if v = 14 then Inr s else clear s)"

lemma exception_total:
  fixes s :: "'a kernel_scheme"
  assumes "n < 20" and "cursor_ok s" and "window s (proc_term s) base" and "video_page s b"
  shows "\<exists>u t. (exceptions ! n) s = Some (Inr (Spins t)) \<and> erase t = erase s \<and> exception_screen n s = Inr u
     \<and> and_then (fold_res putc (bytes_of (CHR 0x0A # exception_text n)) u) update_cursor = Inr t"
proof -
  define u where "u = (if n = 14 then s else s\<lparr>phys := mwrite (phys s) b (concat (replicate 2000 [0x20, 0x7]))\<rparr>)"
  have u: "exception_screen n s = Inr u" by (simp add: exception_screen_def u_def clear_total [OF assms(4)])
  have e: "erase u = erase s" "cursor_ok u" "proc_term u = proc_term s"
    using assms(2) by (simp_all add: u_def erase_def cursor_ok_def)
  have "window u (proc_term u) base"
    using window_erase [OF e(1)] assms(2,3) e(3) by (simp add: cursor_ok_def)
  from print_spin_total [OF e(2) this, of n] obtain t where
    t: "print_spin (exception_text n) u = Some (Inr (Spins t))" "scr_inv (erase u) t"
      "and_then (fold_res putc (bytes_of (CHR 0x0A # exception_text n)) u) update_cursor = Inr t" by blast
  moreover have "(exceptions ! n) s = print_spin (exception_text n) u"
    unfolding exceptions_nth [OF assms(1)]
    by (simp add: clear_print_spin_def u_def clear_total [OF assms(4)])
  ultimately show ?thesis using u e(1) by (auto simp: scr_inv_def)
qed

lemma idt_init_frame [simp]:
  fixes s :: "'a system_scheme"
  shows "xlate (idt_init L s) = xlate s" "term_arr (idt_init L s) = term_arr s" "video_mem (idt_init L s) = video_mem s"
    "curr_process (idt_init L s) = curr_process s" "curr_terminal (idt_init L s) = curr_terminal s"
    "screen_x (idt_init L s) = screen_x s" "screen_y (idt_init L s) = screen_y s"
    "handler_table (idt_init L s) = init_handlers (handler_table s)" "phys (idt_init L s) = phys s"
    "cursor_ok (idt_init L s) = cursor_ok s"
  by (simp_all add: idt_init_def fun_eq_iff xlate_def walk_def table_at_def Let_def cursor_ok_def split: option.splits)

lemma screen_cli [simp]:
  "handler_table (cli s) = handler_table s" "term_arr (cli r) = term_arr r" "video_mem (cli r) = video_mem r"
  "cursor_ok (cli r) = cursor_ok r"
  for s :: "'a system_scheme" and r :: "'b screen_scheme"
  by (simp_all add: cli_def cursor_ok_def)

text \<open>
  C39. Exceptions stop the machine and say why. With the tables of \<open>idt_init\<close>, well-formed
  cursors and mapped windows, entering the kernel through any of the 32 exception vectors
  never returns: it spins, with interrupts disabled, in a state in which the message of
  that vector has been printed, character by character, on a cleared screen (for a page
  fault on the screen as it is), the hardware cursor has been moved and nothing else has
  changed. Vectors 20 to 31 report ``RESERVED''.
\<close>

theorem exceptions_stop_machine:
  assumes "length (handler_table s) = 256" and "v < 32" and "cursor_ok s" and "window s (proc_term s) base"
    and "video_page s b"
  shows "\<exists>u t. common_interrupt dev esp ebp xesp xebp v (idt_init L s) = Some (Inr (Spins t))
     \<and> exception_screen v (cli (idt_init L s)) = Inr u
     \<and> and_then (fold_res putc (bytes_of (CHR 0x0A # exception_text v)) u) update_cursor = Inr t
     \<and> erase t = erase (cli (idt_init L s)) \<and> \<not> int_flag t"
proof -
  let ?s = "cli (idt_init L s)" and ?n = "if v < 20 then v else 1"
  have ok: "cursor_ok ?s" "window ?s (proc_term ?s) base" "video_page ?s b"
    using assms(3-5) by (simp_all add: window_def video_page_def)
  have n: "?n < 20" by simp
  from exception_total [OF n ok] obtain u t
    where t: "(exceptions ! ?n) ?s = Some (Inr (Spins t))" "erase t = erase ?s" "exception_screen ?n ?s = Inr u"
      "and_then (fold_res putc (bytes_of (CHR 0x0A # exception_text ?n)) u) update_cursor = Inr t" by blast
  have "do_irq dev esp ebp xesp xebp v ?s = Some (Inr (Spins t))"
    using assms(2) init_handlers_nth(1,2) [OF assms(1)] t(1) by (simp add: do_irq_def)
  moreover have "exception_text ?n = exception_text v" "exception_screen ?n ?s = exception_screen v ?s"
    by (auto simp: exception_text_def exception_screen_def)
  moreover have "int_flag (erase t) = int_flag (erase ?s)" using t(2) by simp
  then have "\<not> int_flag t" by (simp add: erase_def)
  ultimately have "common_interrupt dev esp ebp xesp xebp v (idt_init L s) = Some (Inr (Spins t))"
    "exception_screen v ?s = Inr u" "\<not> int_flag t"
    "and_then (fold_res putc (bytes_of (CHR 0x0A # exception_text v)) u) update_cursor = Inr t"
    using t by (simp_all add: common_interrupt_def)
  then show ?thesis using t(2) by blast
qed


lemma system_example_facts:
  "cursor_ok system_example" "window system_example (proc_term system_example) 0xB8000"
  "video_page system_example 0xB8000" "length (handler_table system_example) = 256"
proof -
  let ?p = "scheduler_remap_video 0 process_example"
  have u: "user_term process_example = 0"
  proof -
    have len: "length (term_arr (paging_initialize kernel_boot)) = 3" by (simp add: paging_initialize_eq kernel_boot_def)
    have "curr_terminal process_example = 0"
      unfolding process_example_def kernel_example_def init_terminal_fields [OF len]
      by (simp add: paging_initialize_eq)
    then show ?thesis by simp
  qed
  have w: "terms_ok ?p" "window ?p 0 0xB8000"
    using window_scheduler_remap [OF process_example_ok(2), of 0] u by simp_all
  have x: "xlate system_example = xlate ?p"
    by (simp add: system_example_def kernel.extend_def fun_eq_iff xlate_def walk_def table_at_def Let_def split: option.splits)
  have f: "term_arr system_example = term_arr ?p" "proc_term system_example = 0" "video_mem system_example = video_base 0"
    using process_example_slots(2) by (simp_all add: system_example_def kernel.extend_def)
  show "length (handler_table system_example) = 256" by (simp add: system_example_def kernel.extend_def)
  have "cursor_ok ?p" using w(1) by (simp add: terms_ok_def)
  then show "cursor_ok system_example" by (simp add: cursor_ok_def system_example_def kernel.extend_def)
  show win: "window system_example (proc_term system_example) 0xB8000" using w(2) by (simp add: window_def x f)
  have "vid_mem_addr (term_arr ?p ! 0) = video_addr ! 0" using w(1) by (simp add: terms_ok_def base_ok_def)
  then show "video_page system_example 0xB8000" using win f by (simp add: window_def video_page_def video_base_def)
qed

theorem exceptions_stop_machine_witness:
  "\<exists>t. common_interrupt (\<lambda>_ _. 0) 0 0 0 0 13 (idt_init linkage_example system_example) = Some (Inr (Spins t))
     \<and> \<not> int_flag t"
  using exceptions_stop_machine [OF system_example_facts(4) _ system_example_facts(1-3), of 13 "\<lambda>_ _. 0" 0 0 0 0 linkage_example]
  by auto

text \<open>The handlers registered for the three devices.\<close>

lemma do_irq_devices:
  assumes "length (handler_table s) = 256"
  shows "do_irq dev esp ebp xesp xebp 0x20 (idt_init L s) =
      map_option (\<lambda>r. and_then r (\<lambda>out. Inr (Rescheduled out))) (pit_interrupt_handler dev esp ebp xesp xebp (idt_init L s))"
    and "do_irq dev esp ebp xesp xebp 0x21 (idt_init L s) =
      Some (and_then (keyboard_inter_handler dev (idt_init L s)) (\<lambda>s. Inr (Handled s)))"
    and "do_irq dev esp ebp xesp xebp 0x28 (idt_init L s) = Some (Inr (Handled (rtc_interrupt_handler dev (idt_init L s))))"
  using init_handlers_nth [OF assms] by (simp_all add: do_irq_def)

text \<open>The jump table behind the system call gate has no entry for 9 and 10, which the check lets through.\<close>

lemma sysc_bounds:
  "sint eax < 1 \<or> 10 < sint eax \<Longrightarrow> sysc dev ints sched esp ebp eax ebx ecx edx s = Some (Inr (Returns (-1) s))"
  "eax = 9 \<or> eax = 10 \<Longrightarrow> sysc dev ints sched esp ebp eax ebx ecx edx s = Some (Inl OutOfBounds)"
  by (auto simp: sysc_def)

end
