(* ===== verification/Boot.thy ===== *)
theory Boot
  imports IDT
begin

text \<open>
  Booting: \<open>entry\<close> of \<^verbatim>\<open>mp3/student-distrib/kernel.c\<close> with the structures of \<^verbatim>\<open>multiboot.h\<close> and
  the segment descriptors of \<^verbatim>\<open>x86_desc.h\<close>.

  The multiboot structures are read from memory at the offsets of their fields. Addresses
  and sizes that the linker and \<^verbatim>\<open>x86_desc.S\<close> provide are the parameter \<open>boot_link\<close>. A message
  is printed through \<open>kprintf\<close>, which puts the format at an address of its own. \<open>entry\<close> either
  returns to the boot code (\<open>Aborted\<close>) or ends in its halt loop (\<open>Running\<close>); \<open>None\<close> is a loop over
  boot data that never ends. The routine runs without interruption.

  The lemmas show that the descriptors hold the base and limit they were given, and that a
  boot with a well-formed module reaches the state from which the timer starts the shells.
\<close>

section \<open>Segment descriptors\<close>

record seg_desc =
  seg_lim_15_00 :: u16
  base_15_00 :: u16
  base_23_16 :: u8
  seg_type :: "4 word"
  seg_sys :: "1 word"
  seg_dpl :: "2 word"
  seg_present :: "1 word"
  seg_lim_19_16 :: "4 word"
  seg_avail :: "1 word"
  seg_reserved :: "1 word"
  seg_opsize :: "1 word"
  seg_granularity :: "1 word"
  base_31_24 :: u8

definition SET_LDT_PARAMS :: "u32 \<Rightarrow> u32 \<Rightarrow> seg_desc \<Rightarrow> seg_desc" where
  "SET_LDT_PARAMS addr lim str =
     str\<lparr>base_31_24 := ucast (drop_bit 24 (addr AND 0xFF000000)),
         base_23_16 := ucast (drop_bit 16 (addr AND 0x00FF0000)),
         base_15_00 := ucast (addr AND 0x0000FFFF),
         seg_lim_19_16 := ucast (drop_bit 16 (lim AND 0x000F0000)),
         seg_lim_15_00 := ucast (lim AND 0x0000FFFF)\<rparr>"

definition SET_TSS_PARAMS :: "u32 \<Rightarrow> u32 \<Rightarrow> seg_desc \<Rightarrow> seg_desc" where
  "SET_TSS_PARAMS addr lim str =
     str\<lparr>base_31_24 := ucast (drop_bit 24 (addr AND 0xFF000000)),
         base_23_16 := ucast (drop_bit 16 (addr AND 0x00FF0000)),
         base_15_00 := ucast (addr AND 0x0000FFFF),
         seg_lim_19_16 := ucast (drop_bit 16 (lim AND 0x000F0000)),
         seg_lim_15_00 := ucast (lim AND 0x0000FFFF)\<rparr>"

record boot_link =
  idt_link :: linkage
  ldt_addr :: u32
  ldt_size :: u32
  tss_addr :: u32
  tss_size :: u32

record boot = system +
  ldt_desc_ptr :: seg_desc
  tss_desc_ptr :: seg_desc
  tss_ldt_selector :: u16
  ldtr :: u16
  task_register :: u16

text \<open>A local \<open>seg_desc_t\<close> is uninitialised, \<open>d\<close>, until its fields are set.\<close>

definition make_ldt_desc :: "boot_link \<Rightarrow> seg_desc \<Rightarrow> seg_desc" where
  "make_ldt_desc K d =
     SET_LDT_PARAMS (ldt_addr K) (ldt_size K)
       (d\<lparr>seg_granularity := 0, seg_opsize := 1, seg_reserved := 0, seg_avail := 0, seg_present := 1,
          seg_dpl := 0, seg_sys := 0, seg_type := 2\<rparr>)"

definition make_tss_desc :: "boot_link \<Rightarrow> seg_desc \<Rightarrow> seg_desc" where
  "make_tss_desc K d =
     SET_TSS_PARAMS (tss_addr K) (tss_size K)
       (d\<lparr>seg_granularity := 0, seg_opsize := 0, seg_reserved := 0, seg_avail := 0,
          seg_lim_19_16 := ucast (104 AND 0x000F0000 :: u32), seg_present := 1, seg_dpl := 0, seg_sys := 0,
          seg_type := 9, seg_lim_15_00 := ucast (104 AND 0x0000FFFF :: u32)\<rparr>)"

definition load_descriptors :: "boot_link \<Rightarrow> seg_desc \<Rightarrow> seg_desc \<Rightarrow> 'a boot_scheme \<Rightarrow> 'a boot_scheme" where
  "load_descriptors K d1 d2 s =
     (let s = s\<lparr>ldt_desc_ptr := make_ldt_desc K d1\<rparr>;
          s = s\<lparr>ldtr := 0x38\<rparr>;
          s = s\<lparr>tss_desc_ptr := make_tss_desc K d2\<rparr>;
          s = s\<lparr>tss_ldt_selector := 0x38, tss_ss0 := 0x18, tss_esp0 := 0x800000\<rparr>
      in s\<lparr>task_register := 0x30\<rparr>)"

section \<open>Reading the multiboot information\<close>

datatype 's boot_outcome = Aborted 's | Running 's

definition seq_ro :: "'a res option \<Rightarrow> ('a \<Rightarrow> 'b res option) \<Rightarrow> 'b res option" where
  "seq_ro r f = Option.bind r (\<lambda>x. case x of Inl e \<Rightarrow> Some (Inl e) | Inr y \<Rightarrow> f y)"

definition word_at :: "'a paging_scheme \<Rightarrow> u32 \<Rightarrow> u32 \<Rightarrow> u32" where
  "word_at s p off = load32 (vview s) (uint (p + off))"

definition CHECK_FLAG :: "u32 \<Rightarrow> nat \<Rightarrow> bool" where
  "CHECK_FLAG fl b \<longleftrightarrow> fl AND push_bit b 1 \<noteq> 0"

definition kprintf :: "string \<Rightarrow> u32 list \<Rightarrow> 'a terms_scheme \<Rightarrow> 'a terms_scheme res option" where
  "kprintf fmt args s =
     map_option (\<lambda>r. and_then r (\<lambda>(_, s). Inr s)) (printf (with_literal (-256) fmt (vview s)) (-256) args s)"

text \<open>A \<open>printf\<close> guarded by a flag of the multiboot information at \<open>mbi\<close>.\<close>

definition when_flag ::
  "u32 \<Rightarrow> nat \<Rightarrow> ('a terms_scheme \<Rightarrow> 'a terms_scheme res option) \<Rightarrow> 'a terms_scheme \<Rightarrow> 'a terms_scheme res option" where
  "when_flag mbi b f s = (if CHECK_FLAG (word_at s mbi 0) b then f s else Some (Inr s))"

text \<open>The 16 first bytes of a module, printed as sign-extended \<open>char\<close>s.\<close>

fun print_bytes :: "u32 \<Rightarrow> nat \<Rightarrow> nat \<Rightarrow> 'a terms_scheme \<Rightarrow> 'a terms_scheme res option" where
  "print_bytes md i 0 s = Some (Inr s)"
| "print_bytes md i (Suc k) s =
     seq_ro (kprintf ''0x%x '' [scast (vview s (uint (word_at s md 0 + of_nat i)))] s) (print_bytes md (Suc i) k)"

definition nl :: string where
  "nl = [CHR 0x0A]"

definition print_module :: "u32 \<Rightarrow> u32 \<Rightarrow> 'a terms_scheme \<Rightarrow> 'a terms_scheme res option" where
  "print_module md mod_count s =
     seq_ro (kprintf (''Module %d loaded at address: 0x%#x'' @ nl) [mod_count, word_at s md 0] s) (\<lambda>s.
     seq_ro (kprintf (''Module %d ends at address: 0x%#x'' @ nl) [mod_count, word_at s md 4] s) (\<lambda>s.
     seq_ro (kprintf (''First few bytes of module:'' @ nl) [] s) (\<lambda>s.
     seq_ro (print_bytes md 0 16 s) (\<lambda>s.
     kprintf nl [] s))))"

partial_function (option) print_modules ::
  "u32 \<Rightarrow> u32 \<Rightarrow> u32 \<Rightarrow> 'a terms_scheme \<Rightarrow> 'a terms_scheme res option" where
  "print_modules mbi md mod_count s =
     (if mod_count < word_at s mbi 20
      then Option.bind (print_module md mod_count s) (\<lambda>x.
             case x of Inl e \<Rightarrow> Some (Inl e)
             | Inr s \<Rightarrow> print_modules mbi (md + 16) (mod_count + 1) s)
      else Some (Inr s))"

text \<open>The block for flag 3: the file system is in the first module.\<close>

definition load_modules :: "u32 \<Rightarrow> 'a kernel_scheme \<Rightarrow> 'a kernel_scheme res option" where
  "load_modules mbi s =
     (let md = word_at s mbi 24;
          s = s\<lparr>fsys := filesystem_init (vview s) (uint (word_at s md 0))\<rparr>
      in print_modules mbi md 0 s)"

partial_function (option) print_mmap ::
  "u32 \<Rightarrow> u32 \<Rightarrow> 'a terms_scheme \<Rightarrow> 'a terms_scheme res option" where
  "print_mmap mbi p s =
     (if p < word_at s mbi 48 + word_at s mbi 44
      then Option.bind
             (kprintf (''    size = 0x%x, base_addr = 0x%#x%#x'' @ nl @ ''    type = 0x%x,  length    = 0x%#x%#x'' @ nl)
                [word_at s p 0, word_at s p 8, word_at s p 4, word_at s p 20, word_at s p 16, word_at s p 12] s) (\<lambda>x.
             case x of Inl e \<Rightarrow> Some (Inl e)
             | Inr s \<Rightarrow> print_mmap mbi (p + word_at s p 0 + 4) s)
      else Some (Inr s))"

text \<open>The messages before and after the modules.\<close>

definition print_info :: "u32 \<Rightarrow> 'a terms_scheme \<Rightarrow> 'a terms_scheme res option" where
  "print_info mbi s =
     seq_ro (kprintf (''flags = 0x%#x'' @ nl) [word_at s mbi 0] s) (\<lambda>s.
     seq_ro (when_flag mbi 0 (\<lambda>s. kprintf (''mem_lower = %uKB, mem_upper = %uKB'' @ nl)
        [word_at s mbi 4, word_at s mbi 8] s) s) (\<lambda>s.
     seq_ro (when_flag mbi 1 (\<lambda>s. kprintf (''boot_device = 0x%#x'' @ nl) [word_at s mbi 12] s) s) (\<lambda>s.
     when_flag mbi 2 (\<lambda>s. kprintf (''cmdline = %s'' @ nl) [word_at s mbi 16] s) s)))"

definition print_tables :: "u32 \<Rightarrow> 'a terms_scheme \<Rightarrow> 'a terms_scheme res option" where
  "print_tables mbi s =
     seq_ro (when_flag mbi 5 (\<lambda>s. kprintf (''elf_sec: num = %u, size = 0x%#x, addr = 0x%#x, shndx = 0x%#x'' @ nl)
        [word_at s mbi 28, word_at s mbi 32, word_at s mbi 36, word_at s mbi 40] s) s) (\<lambda>s.
     when_flag mbi 6 (\<lambda>s.
        seq_ro (kprintf (''mmap_addr = 0x%#x, mmap_length = 0x%x'' @ nl) [word_at s mbi 48, word_at s mbi 44] s) (\<lambda>s.
        print_mmap mbi (word_at s mbi 48) s)) s)"

section \<open>The entry point\<close>

text \<open>Everything after the messages.\<close>

definition start_devices :: "device \<Rightarrow> boot_link \<Rightarrow> seg_desc \<Rightarrow> seg_desc \<Rightarrow> 'a boot_scheme \<Rightarrow> 'a boot_scheme res" where
  "start_devices dev K d1 d2 s =
     and_then (reset (load_descriptors K d1 d2 s)) (\<lambda>s.
     let s = idt_init (idt_link K) s;
         s = i8259_init dev s;
         s = rtc_initialize dev s;
         s = keyboard_init dev s;
         s = paging_initialize s;
         s = init_terminal s
     in Inr (pit_init dev s))"

definition entry ::
  "device \<Rightarrow> boot_link \<Rightarrow> seg_desc \<Rightarrow> seg_desc \<Rightarrow> u32 \<Rightarrow> u32 \<Rightarrow> 'a boot_scheme \<Rightarrow> 'a boot_scheme boot_outcome res option" where
  "entry dev K d1 d2 magic mbi s =
     seq_ro (Some (clear s)) (\<lambda>s.
     if magic \<noteq> 0x2BADB002
     then seq_ro (kprintf (''Invalid magic number: 0x%#x'' @ nl) [magic] s) (\<lambda>s. Some (Inr (Aborted s)))
     else
     seq_ro (print_info mbi s) (\<lambda>s.
     seq_ro (if CHECK_FLAG (word_at s mbi 0) 3 then load_modules mbi s else Some (Inr s)) (\<lambda>s.
     if CHECK_FLAG (word_at s mbi 0) 4 \<and> CHECK_FLAG (word_at s mbi 0) 5
     then seq_ro (kprintf (''Both bits 4 and 5 are set.'' @ nl) [] s) (\<lambda>s. Some (Inr (Aborted s)))
     else
     seq_ro (print_tables mbi s) (\<lambda>s.
     Some (and_then (start_devices dev K d1 d2 s) (\<lambda>s. Inr (Running s)))))))"

section \<open>The descriptors\<close>

text \<open>The union's view of a descriptor, and the fields where the processor reads them.\<close>

definition seg_val :: "seg_desc \<Rightarrow> u32 \<times> u32" where
  "seg_val d =
     (ucast (seg_lim_15_00 d) OR push_bit 16 (ucast (base_15_00 d)),
      ucast (base_23_16 d) OR push_bit 8 (ucast (seg_type d)) OR push_bit 12 (ucast (seg_sys d))
      OR push_bit 13 (ucast (seg_dpl d)) OR push_bit 15 (ucast (seg_present d)) OR push_bit 20 (ucast (seg_avail d))
      OR push_bit 21 (ucast (seg_reserved d)) OR push_bit 22 (ucast (seg_opsize d))
      OR push_bit 23 (ucast (seg_granularity d))
      OR (push_bit 16 (ucast (seg_lim_19_16 d)) OR push_bit 24 (ucast (base_31_24 d))))"

definition seg_base :: "u32 \<times> u32 \<Rightarrow> u32" where
  "seg_base v = drop_bit 16 (fst v) OR push_bit 16 (take_bit 8 (snd v)) OR push_bit 24 (drop_bit 24 (snd v))"

definition seg_limit :: "u32 \<times> u32 \<Rightarrow> u32" where
  "seg_limit v = take_bit 16 (fst v) OR push_bit 16 (take_bit 4 (drop_bit 16 (snd v)))"

definition seg_access :: "u32 \<times> u32 \<Rightarrow> u32" where
  "seg_access v = take_bit 8 (drop_bit 8 (snd v))"

definition seg_flags :: "u32 \<times> u32 \<Rightarrow> u32" where
  "seg_flags v = take_bit 4 (drop_bit 20 (snd v))"

lemma mask_fields:
  fixes h :: u32
  shows "drop_bit 24 (h AND 0xFF000000) = drop_bit 24 h" "drop_bit 16 (h AND 0xFF0000) = take_bit 8 (drop_bit 16 h)"
    "drop_bit 16 (h AND 0xF0000) = take_bit 4 (drop_bit 16 h)"
proof -
  have c: "drop_bit 24 (0xFF000000 :: u32) = mask 8" "drop_bit 16 (0xFF0000 :: u32) = mask 8"
    "drop_bit 16 (0xF0000 :: u32) = mask 4" by (simp_all add: mask_numeral)
  have "drop_bit 24 h AND mask 8 = drop_bit 24 h" by (rule bit_word_eqI) (auto simp: bit_simps dest: bit_imp_le_length)
  then show "drop_bit 24 (h AND 0xFF000000) = drop_bit 24 h" unfolding drop_bit_and c .
  show "drop_bit 16 (h AND 0xFF0000) = take_bit 8 (drop_bit 16 h)" "drop_bit 16 (h AND 0xF0000) = take_bit 4 (drop_bit 16 h)"
    unfolding drop_bit_and c take_bit_eq_mask by (rule refl)+
qed

text \<open>The words of a descriptor whose attribute bits are \<open>c\<close>.\<close>

definition seg_words :: "u32 \<Rightarrow> u32 \<Rightarrow> u32 \<Rightarrow> u32 \<times> u32" where
  "seg_words c a l = (take_bit 16 l OR push_bit 16 (take_bit 16 a),
     take_bit 8 (drop_bit 16 a) OR c OR (push_bit 16 (take_bit 4 (drop_bit 16 l)) OR push_bit 24 (drop_bit 24 a)))"

lemma SET_PARAMS_eq:
  "SET_LDT_PARAMS a l d = d\<lparr>base_31_24 := ucast (drop_bit 24 a), base_23_16 := ucast (drop_bit 16 a), base_15_00 := ucast a,
     seg_lim_19_16 := ucast (drop_bit 16 l), seg_lim_15_00 := ucast l\<rparr>"
  "SET_TSS_PARAMS a l d = SET_LDT_PARAMS a l d"
proof -
  have t: "(ucast (take_bit 16 w) :: u16) = ucast w" "(ucast (take_bit 8 w) :: u8) = ucast w"
    "(ucast (take_bit 4 w) :: 4 word) = ucast w" for w :: u32
    by (rule bit_word_eqI, auto simp: bit_simps)+
  show "SET_LDT_PARAMS a l d = d\<lparr>base_31_24 := ucast (drop_bit 24 a), base_23_16 := ucast (drop_bit 16 a), base_15_00 := ucast a,
     seg_lim_19_16 := ucast (drop_bit 16 l), seg_lim_15_00 := ucast l\<rparr>"
    by (simp only: SET_LDT_PARAMS_def mask_fields mask_low t)
  show "SET_TSS_PARAMS a l d = SET_LDT_PARAMS a l d" by (simp add: SET_LDT_PARAMS_def SET_TSS_PARAMS_def)
qed

lemma seg_val_make:
  "seg_val (make_ldt_desc K d) = seg_words 0x408200 (ldt_addr K) (ldt_size K)"
  "seg_val (make_tss_desc K d) = seg_words 0x8900 (tss_addr K) (tss_size K)"
proof -
  have u: "(ucast (ucast w :: u16) :: u32) = take_bit 16 w" "(ucast (ucast w :: u8) :: u32) = take_bit 8 w"
    "(ucast (ucast w :: 4 word) :: u32) = take_bit 4 w" for w :: u32
    by (rule bit_word_eqI, auto simp: bit_simps)+
  have d: "push_bit 24 (take_bit 8 (drop_bit 24 w)) = push_bit 24 (drop_bit 24 w)" for w :: u32
    by (rule bit_word_eqI) (auto simp: bit_simps dest: bit_imp_le_length)
  show "seg_val (make_ldt_desc K d) = seg_words 0x408200 (ldt_addr K) (ldt_size K)"
    by (simp add: seg_val_def make_ldt_desc_def SET_PARAMS_eq seg_words_def u d or.assoc) (simp add: or.assoc [symmetric])
  show "seg_val (make_tss_desc K d) = seg_words 0x8900 (tss_addr K) (tss_size K)"
    by (simp add: seg_val_def make_tss_desc_def SET_PARAMS_eq seg_words_def u d or.assoc) (simp add: or.assoc [symmetric])
qed

lemma seg_words_parts:
  assumes "take_bit 8 c = 0" "drop_bit 24 c = 0" "take_bit 4 (drop_bit 16 c) = 0"
  shows "seg_base (seg_words c a l) = a" "seg_limit (seg_words c a l) = take_bit 20 l"
    "seg_access (seg_words c a l) = take_bit 8 (drop_bit 8 c)" "seg_flags (seg_words c a l) = take_bit 4 (drop_bit 20 c)"
proof -
  have z: "drop_bit 16 (take_bit 16 w) = 0" "drop_bit 24 (take_bit 8 w) = 0" "take_bit 8 (push_bit 16 w) = 0"
    "take_bit 8 (push_bit 24 w) = 0" "drop_bit 24 (push_bit 16 (take_bit 4 w)) = 0" "drop_bit 8 (take_bit 8 w) = 0"
    "take_bit 8 (drop_bit 8 (push_bit 16 w)) = 0" "take_bit 8 (drop_bit 8 (push_bit 24 w)) = 0"
    "drop_bit 20 (take_bit 8 w) = 0" "take_bit 4 (drop_bit 20 (push_bit 24 w)) = 0" "drop_bit 16 (take_bit 8 w) = 0"
    "drop_bit 20 (push_bit 16 (take_bit 4 w)) = 0" "take_bit 4 (drop_bit 16 (push_bit 24 w)) = 0"
    "take_bit 16 (push_bit 16 w) = 0" for w :: u32
    by (rule bit_word_eqI; auto simp: bit_simps)+
  have k: "drop_bit 16 (push_bit 16 (take_bit 16 w)) = take_bit 16 w" "drop_bit 24 (push_bit 24 (drop_bit 24 w)) = drop_bit 24 w"
    "take_bit 4 (drop_bit 16 (push_bit 16 (take_bit 4 w))) = take_bit 4 w" for w :: u32
    by (rule bit_word_eqI; auto simp: bit_simps dest: bit_imp_le_length)+
  have "take_bit 16 a OR push_bit 16 (take_bit 8 (drop_bit 16 a)) OR push_bit 24 (drop_bit 24 a) = a"
  proof (rule bit_word_eqI)
    fix n assume "n < LENGTH(32)"
    then consider "n < 16" | "16 \<le> n" "n < 24" | "24 \<le> n" "n < 32" by fastforce
    then show "bit (take_bit 16 a OR push_bit 16 (take_bit 8 (drop_bit 16 a)) OR push_bit 24 (drop_bit 24 a)) n = bit a n"
      by cases (auto simp: bit_simps)
  qed
  then show "seg_base (seg_words c a l) = a"
    unfolding seg_base_def seg_words_def fst_conv snd_conv drop_bit_or take_bit_or assms z k by simp
  have "take_bit 16 l OR push_bit 16 (take_bit 4 (drop_bit 16 l)) = take_bit 20 l"
    by (rule bit_word_eqI) (auto simp: bit_simps not_le)
  then show "seg_limit (seg_words c a l) = take_bit 20 l"
    unfolding seg_limit_def seg_words_def fst_conv snd_conv drop_bit_or take_bit_or assms z k by simp
  show "seg_access (seg_words c a l) = take_bit 8 (drop_bit 8 c)" "seg_flags (seg_words c a l) = take_bit 4 (drop_bit 20 c)"
    unfolding seg_access_def seg_flags_def seg_words_def fst_conv snd_conv drop_bit_or take_bit_or assms z k by simp_all
qed

text \<open>
  C40. The descriptors that \<open>entry\<close> installs for the local descriptor table and the task state,
  decoded the way the processor reads their two words, have exactly the base address and
  the low 20 bits of the limit they were given, whatever was in the uninitialised locals;
  they are a present LDT and a present available 32-bit task state of privilege 0, and the
  processor's registers select them. The limit that \<open>entry\<close> first computes from \<open>TSS_SIZE\<close>
  is overwritten.
\<close>

theorem boot_descriptors_decode:
  "let t = load_descriptors K d1 d2 s; l = seg_val (ldt_desc_ptr t); r = seg_val (tss_desc_ptr t)
   in seg_base l = ldt_addr K \<and> seg_limit l = take_bit 20 (ldt_size K) \<and> seg_access l = 0x82 \<and> seg_flags l = 4
    \<and> seg_base r = tss_addr K \<and> seg_limit r = take_bit 20 (tss_size K) \<and> seg_access r = 0x89 \<and> seg_flags r = 0
    \<and> ldtr t = 0x38 \<and> task_register t = 0x30 \<and> tss_ss0 t = 0x18 \<and> tss_esp0 t = 0x800000"
proof -
  have c: "take_bit 8 0x408200 = (0 :: u32)" "drop_bit 24 0x408200 = (0 :: u32)" "take_bit 4 (drop_bit 16 0x408200) = (0 :: u32)"
    "take_bit 8 0x8900 = (0 :: u32)" "drop_bit 24 0x8900 = (0 :: u32)" "take_bit 4 (drop_bit 16 0x8900) = (0 :: u32)" by simp_all
  show ?thesis
    by (simp add: load_descriptors_def Let_def seg_val_make seg_words_parts [OF c(1-3)] seg_words_parts [OF c(4-6)])
qed

section \<open>The messages\<close>

text \<open>How many arguments a format without \<open>%s\<close> takes.\<close>

fun fmt_args :: "u8 list \<Rightarrow> nat option" and fmt_conv :: "u8 list \<Rightarrow> nat option" where
  "fmt_args [] = Some 0"
| "fmt_args (c # cs) = (if c = 0x25 then fmt_conv cs else fmt_args cs)"
| "fmt_conv [] = None"
| "fmt_conv (c # cs) =
     (if c = 0x23 then fmt_conv cs else if c = 0x25 then fmt_args cs else if c = 0x73 then None
      else if takes_arg c then map_option Suc (fmt_args cs) else fmt_args cs)"

lemma render_args:
  "fmt_args fmt = Some n \<Longrightarrow> n \<le> length args \<Longrightarrow> \<exists>text. render str fmt args = Some text"
  "fmt_conv fmt = Some n \<Longrightarrow> n \<le> length args \<Longrightarrow> \<exists>text. render_conv str alternate fmt args = Some text"
proof (induction str fmt args and str alternate fmt args arbitrary: n and n rule: render_render_conv.induct)
  case (4 str alternate c cs args)
  consider "c = 0x23" | "c = 0x25" | "c \<noteq> 0x23" "c \<noteq> 0x25" "c \<noteq> 0x73" "takes_arg c" | "c \<noteq> 0x23" "c \<noteq> 0x25" "\<not> takes_arg c"
    using "4.prems"(1) by (auto split: if_splits)
  then show ?case
  proof cases
    case 3
    then obtain k where k: "fmt_args cs = Some k" "n = Suc k" using "4.prems"(1) by auto
    then obtain v vs where args: "args = v # vs" using "4.prems"(2) by (cases args) auto
    obtain t where t: "conv_text str alternate c v = Some t"
      using 3 by (auto simp: conv_text_def takes_arg_def Let_def)
    then have "\<exists>t. render str cs vs = Some t" using 3 args k "4.prems"(2) by (intro "4.IH"(3) [of v vs t k]) auto
    then show ?thesis using 3 args t by auto
  next
    case 4
    then have "c \<noteq> 0x73" by (auto simp: takes_arg_def)
    then show ?thesis using 4 "4.prems" "4.IH"(4) by simp
  qed (use "4.IH"(1,2) "4.prems" in \<open>auto simp: takes_arg_def\<close>)
qed (auto split: if_splits)

text \<open>
  Before paging and \<open>init_terminal\<close>, every address is physical and the windows of the
  terminals are at address 0: that is where messages are written.
\<close>

definition early :: "'a terms_scheme \<Rightarrow> bool" where
  "early s \<longleftrightarrow> cursor_ok s \<and> \<not> paging_on s \<and> (\<forall>i < 3. vid_mem_addr (term_arr s ! i) = 0)"

definition low_mem :: "addr \<Rightarrow> bool" where
  "low_mem a \<longleftrightarrow> 0 \<le> a \<and> a < 0x1000 \<or> 0xB8000 \<le> a \<and> a < 0xB9000"

definition boot_run :: "'a terms_scheme \<Rightarrow> 'a terms_scheme \<Rightarrow> bool" where
  "boot_run s t \<longleftrightarrow> erase t = erase s \<and> early t \<and> (\<forall>a. \<not> low_mem a \<longrightarrow> phys t a = phys s a)
     \<and> (video_mem t = video_mem s \<or> video_mem t = 0)"

lemma early_xlate: "early s \<Longrightarrow> xlate s a = Some a"
  by (simp add: early_def xlate_def walk_def)

lemma early_vview: "early s \<Longrightarrow> vview s = phys s"
  by (simp add: vview_def early_xlate)

lemma early_window: "early s \<Longrightarrow> window s (proc_term s) 0"
  by (simp add: window_def early_xlate) (simp add: early_def cursor_ok_def)

lemma early_erase:
  assumes "early s" and "scr_inv (erase s) t"
  shows "early t"
proof -
  have e: "erase t = erase s" "cursor_ok t" using assms(2) by (simp_all add: scr_inv_def)
  have "paging_on (erase t) = paging_on (erase s)" using e(1) by simp
  then have "paging_on t = paging_on s" by (simp add: erase_def)
  moreover have "vid_mem_addr (term_arr t ! i) = vid_mem_addr (term_arr s ! i)" if "i < 3" for i
    using erase_term_view(1) [OF e(1), of i] that assms(1) by (simp add: early_def cursor_ok_def)
  ultimately show ?thesis using assms(1) e(2) by (simp add: early_def)
qed

lemma boot_run_refl: "early s \<Longrightarrow> boot_run s s"
  by (simp add: boot_run_def)

lemma boot_run_trans: "boot_run s t \<Longrightarrow> boot_run t u \<Longrightarrow> boot_run s u"
  by (auto simp: boot_run_def)

lemma putc_video_mem:
  assumes "early s" and "putc c s = Inr t"
  shows "early t" and "video_mem t = 0"
proof -
  have c: "cursor_ok s" and p: "proc_term s < 3" using assms(1) by (simp_all add: early_def cursor_ok_def)
  have "scr_inv (erase s) t" using scr_inv_step [of "erase s" s t] c assms(2) by (auto simp: scr_inv_def intro: step_putc)
  then show "early t" by (rule early_erase [OF assms(1)])
  show "video_mem t = 0"
    using putc_on_total [OF c p early_window [OF assms(1)], of c] assms p
    by (auto simp: putc_def putc_result_def save_cursor_def upd_term_def Let_def early_def)
qed

lemma putc_fold_video_mem:
  "early s \<Longrightarrow> fold_res putc bs s = Inr t \<Longrightarrow> video_mem t = video_mem s \<or> video_mem t = 0"
proof (induction bs arbitrary: s)
  case (Cons b bs)
  then obtain u where "putc b s = Inr u" "fold_res putc bs u = Inr t" by (auto simp: and_then_Inr_iff)
  then show ?case using Cons.IH [of u] putc_video_mem [OF Cons.prems(1)] by auto
qed simp

text \<open>A step of the boot that returns and only prints.\<close>

definition boots :: "'a terms_scheme \<Rightarrow> 'a terms_scheme res option \<Rightarrow> bool" where
  "boots s r \<longleftrightarrow> (\<exists>t. r = Some (Inr t) \<and> boot_run s t)"

lemma boots_done: "early s \<Longrightarrow> boots s (Some (Inr s))"
  by (simp add: boots_def boot_run_refl)

lemma boots_seq:
  "boots s r \<Longrightarrow> (\<And>t. boot_run s t \<Longrightarrow> boots t (f t)) \<Longrightarrow> boots s (seq_ro r f)"
  by (fastforce simp: boots_def seq_ro_def intro: boot_run_trans)

lemma kprintf_boots:
  fixes s :: "'a terms_scheme"
  assumes "early s" and "0 \<notin> set (bytes_of fmt)"
    and "\<forall>a xs. str a = Some xs \<longrightarrow> cstr (with_literal (-256) fmt (vview s)) a xs"
    and "render str (bytes_of fmt) args = Some out"
  shows "boots s (kprintf fmt args s)"
proof -
  have "cursor_ok s" using assms(1) by (simp add: early_def)
  from printf_total [OF this early_window [OF assms(1)] assms(3) cstr_literal [OF assms(2)] assms(4)] obtain t
    where "printf (with_literal (-256) fmt (vview s)) (-256) args s = Some (Inr (int (length (bytes_of fmt)), t))"
      "scr_inv (erase s) t" "outside_page 0 (phys s) (phys t)"
      and u: "and_then (fold_res putc out s) update_cursor = Inr t" by blast
  moreover obtain u where u: "fold_res putc out s = Inr u" "update_cursor u = Inr t"
    using u by (auto simp: and_then_Inr_iff)
  have "video_mem t = video_mem (u\<lparr>io_hist := io_hist t\<rparr>)" using update_cursor_eq [OF u(2)] by (rule arg_cong)
  then have "video_mem t = video_mem s \<or> video_mem t = 0" using putc_fold_video_mem [OF assms(1) u(1)] by simp
  ultimately show ?thesis
    using early_erase [OF assms(1)]
    by (auto simp: kprintf_def boots_def boot_run_def scr_inv_def outside_page_def low_mem_def)
qed

lemma kprintf_plain_boots:
  assumes "early s" and "0 \<notin> set (bytes_of fmt)" and "fmt_args (bytes_of fmt) = Some n" and "n \<le> length args"
  shows "boots s (kprintf fmt args s)"
proof -
  obtain out where "render (\<lambda>_. None) (bytes_of fmt) args = Some out" using render_args(1) [OF assms(3,4)] by blast
  then show ?thesis by (intro kprintf_boots [OF assms(1,2), of "\<lambda>_. None"]) simp_all
qed

section \<open>Reading the boot data\<close>

definition safe_word :: "addr \<Rightarrow> bool" where
  "safe_word a \<longleftrightarrow> \<not> low_mem a \<and> \<not> low_mem (a + 1) \<and> \<not> low_mem (a + 2) \<and> \<not> low_mem (a + 3)"

text \<open>The multiboot information is not where messages are written.\<close>

definition mbi_ok :: "u32 \<Rightarrow> bool" where
  "mbi_ok mbi \<longleftrightarrow> (\<forall>off \<in> {0, 16, 20, 24, 44, 48}. safe_word (uint (mbi + off)))"

definition cmdline_ok :: "mem \<Rightarrow> addr \<Rightarrow> bool" where
  "cmdline_ok m a \<longleftrightarrow> (\<exists>xs. cstr m a xs \<and> (\<forall>i \<le> length xs. \<not> low_mem (a + int i)))"

text \<open>The chain of memory map entries from \<open>p\<close> reaches its end \<open>e\<close> within \<open>n\<close> entries.\<close>

fun mmap_ends :: "mem \<Rightarrow> u32 \<Rightarrow> u32 \<Rightarrow> nat \<Rightarrow> bool" where
  "mmap_ends m p e 0 \<longleftrightarrow> \<not> p < e"
| "mmap_ends m p e (Suc n) \<longleftrightarrow> (p < e \<longrightarrow> safe_word (uint p) \<and> mmap_ends m (p + load32 m (uint p) + 4) e n)"

lemma word_at_run:
  assumes "early s" and "boot_run s t" and "safe_word (uint (p + off))"
  shows "word_at t p off = word_at s p off"
proof -
  have "early t" using assms(2) by (simp add: boot_run_def)
  then show ?thesis
    using assms unfolding word_at_def early_vview [OF assms(1)] early_vview [OF \<open>early t\<close>]
    by (intro load32_cong) (auto simp: safe_word_def boot_run_def)
qed

lemma mbi_run:
  assumes "early s" and "boot_run s t" and "mbi_ok mbi" and "off \<in> {0, 16, 20, 24, 44, 48}"
  shows "word_at t mbi off = word_at s mbi off"
  using assms by (intro word_at_run) (auto simp: mbi_ok_def)

lemma boot_run_early: "boot_run s t \<Longrightarrow> early t"
  by (simp add: boot_run_def)

lemma when_flag_boots: "early s \<Longrightarrow> (CHECK_FLAG (word_at s mbi b') b \<Longrightarrow> boots s (f s)) \<Longrightarrow> b' = 0 \<Longrightarrow> boots s (when_flag mbi b f s)"
  by (simp add: when_flag_def boots_done)

lemmas fmt_simps = bytes_of_def nl_def takes_arg_def

lemma cmdline_run:
  assumes "early s" and "boot_run s t" and "cmdline_ok (phys s) a" and "0 \<le> a"
  obtains xs where "cstr (with_literal (-256) (''cmdline = %s'' @ nl) (vview t)) a xs"
proof -
  obtain xs where xs: "cstr (phys s) a xs" "\<forall>i \<le> length xs. \<not> low_mem (a + int i)"
    using assms(3) by (auto simp: cmdline_ok_def)
  have "with_literal (-256) (''cmdline = %s'' @ nl) (vview t) (a + int i) = phys s (a + int i)" if "i \<le> length xs" for i
    using that xs(2) assms(2,4) early_vview [OF boot_run_early [OF assms(2)]]
    by (simp add: with_literal_def mwrite_apply bytes_of_def nl_def boot_run_def)
  then have "cstr (with_literal (-256) (''cmdline = %s'' @ nl) (vview t)) a xs"
    using xs(1) by (simp add: cstr_iff)
  then show thesis ..
qed

lemma print_info_boots:
  fixes s :: "'a terms_scheme"
  assumes "early s" and "mbi_ok mbi"
    and "CHECK_FLAG (word_at s mbi 0) 2 \<longrightarrow> cmdline_ok (phys s) (uint (word_at s mbi 16))"
  shows "boots s (print_info mbi s)"
  unfolding print_info_def
proof (intro boots_seq when_flag_boots)
  show "boots s (kprintf (''flags = 0x%#x'' @ nl) [word_at s mbi 0] s)"
    using assms(1) by (intro kprintf_plain_boots [of _ _ 1]) (simp_all add: fmt_simps)
next
  fix t assume "boot_run s t" then show "early t" by (rule boot_run_early)
next
  fix t assume "boot_run s t"
  then show "boots t (kprintf (''mem_lower = %uKB, mem_upper = %uKB'' @ nl) [word_at t mbi 4, word_at t mbi 8] t)"
    by (intro kprintf_plain_boots [of _ _ 2]) (simp_all add: fmt_simps boot_run_early)
next
  fix t u assume "boot_run t u" then show "early u" by (rule boot_run_early)
next
  fix t u assume "boot_run s t" "boot_run t u"
  then show "boots u (kprintf (''boot_device = 0x%#x'' @ nl) [word_at u mbi 12] u)"
    by (intro kprintf_plain_boots [of _ _ 1]) (simp_all add: fmt_simps boot_run_early)
next
  fix t u v assume "boot_run u v" then show "early v" by (rule boot_run_early)
next
  fix t u v assume r: "boot_run s t" "boot_run t u" "boot_run u v" and fl: "CHECK_FLAG (word_at v mbi 0) 2"
  have sv: "boot_run s v" using r by (blast intro: boot_run_trans)
  have w: "word_at v mbi 0 = word_at s mbi 0" "word_at v mbi 16 = word_at s mbi 16"
    using mbi_run [OF assms(1) sv assms(2)] by simp_all
  obtain xs where xs: "cstr (with_literal (-256) (''cmdline = %s'' @ nl) (vview v)) (uint (word_at s mbi 16)) xs"
    using cmdline_run [OF assms(1) sv, of "uint (word_at s mbi 16)"] assms(3) fl w by auto
  show "boots v (kprintf (''cmdline = %s'' @ nl) [word_at v mbi 16] v)"
    using xs boot_run_early [OF sv] unfolding w
    by (intro kprintf_boots [of _ _ "(\<lambda>_. None)(uint (word_at s mbi 16) := Some xs)"])
      (simp_all add: fmt_simps conv_text_def)
qed simp_all

lemma print_bytes_boots: "early s \<Longrightarrow> boots s (print_bytes md i k s)"
proof (induction k arbitrary: i s)
  case 0
  then show ?case by (simp add: boots_done)
next
  case (Suc k)
  show ?case unfolding print_bytes.simps
  proof (rule boots_seq)
    show "boots s (kprintf ''0x%x '' [scast (vview s (uint (word_at s md 0 + of_nat i)))] s)"
      using Suc.prems by (intro kprintf_plain_boots [of _ _ 1]) (simp_all add: fmt_simps)
    show "boots t (print_bytes md (Suc i) k t)" if "boot_run s t" for t
      by (rule Suc.IH [OF boot_run_early [OF that]])
  qed
qed

lemma print_module_boots: "early s \<Longrightarrow> boots s (print_module md c s)"
  unfolding print_module_def
  by (intro boots_seq print_bytes_boots kprintf_plain_boots [of _ "''Module %d loaded at address: 0x%#x'' @ nl" 2]
      kprintf_plain_boots [of _ "''Module %d ends at address: 0x%#x'' @ nl" 2]
      kprintf_plain_boots [of _ "''First few bytes of module:'' @ nl" 0] kprintf_plain_boots [of _ nl 0])
    (simp_all add: fmt_simps boot_run_early)

lemma boots_loop:
  "boots s r \<Longrightarrow> (\<And>t. boot_run s t \<Longrightarrow> boots t (f t)) \<Longrightarrow>
     boots s (Option.bind r (\<lambda>x. case x of Inl e \<Rightarrow> Some (Inl e) | Inr s \<Rightarrow> f s))"
  using boots_seq [of s r f] by (simp add: seq_ro_def)

lemma print_modules_boots:
  assumes "early s" and "mbi_ok mbi"
  shows "boots s (print_modules mbi md c s)"
  using assms(1)
proof (induction "unat (word_at s mbi 20) - unat c" arbitrary: s md c rule: less_induct)
  case less
  show ?case
  proof (cases "c < word_at s mbi 20")
    case True
    show ?thesis
      unfolding print_modules.simps [of mbi md c s] if_P [OF True]
    proof (rule boots_loop [OF print_module_boots [OF less.prems]])
      fix t assume r: "boot_run s t"
      have "word_at t mbi 20 = word_at s mbi 20" using mbi_run [OF less.prems r assms(2)] by simp
      moreover have "unat c + 1 < 2 ^ 32"
        using True unsigned_less [of "word_at s mbi 20", where 'a = nat] by (simp add: word_less_nat_alt)
      then have "unat (c + 1) = unat c + 1" by (simp add: unat_word_ariths)
      ultimately have "unat (word_at t mbi 20) - unat (c + 1) < unat (word_at s mbi 20) - unat c"
        using True by (simp add: word_less_nat_alt)
      then show "boots t (print_modules mbi (md + 16) (c + 1) t)" by (rule less.hyps [OF _ boot_run_early [OF r]])
    qed
  next
    case False
    then show ?thesis using less.prems by (simp add: print_modules.simps [of mbi md c s] boots_done)
  qed
qed

lemma mmap_ends_run:
  assumes "boot_run s t"
  shows "mmap_ends (phys t) q e n = mmap_ends (phys s) q e n"
proof (induction n arbitrary: q)
  case (Suc n)
  have "load32 (phys t) (uint q) = load32 (phys s) (uint q)" if "safe_word (uint q)"
    using assms that by (intro load32_cong) (auto simp: safe_word_def boot_run_def)
  then show ?case by (simp add: Suc.IH cong: conj_cong)
qed simp

lemma print_mmap_boots:
  assumes "early s" and "mbi_ok mbi" and "mmap_ends (phys s) p (word_at s mbi 48 + word_at s mbi 44) n"
  shows "boots s (print_mmap mbi p s)"
  using assms(1,3)
proof (induction n arbitrary: s p)
  case 0
  then show ?case by (simp add: print_mmap.simps [of mbi p s] boots_done)
next
  case (Suc n)
  let ?e = "word_at s mbi 48 + word_at s mbi 44"
  show ?case
  proof (cases "p < ?e")
    case True
    let ?f = "''    size = 0x%x, base_addr = 0x%#x%#x'' @ nl @ ''    type = 0x%x,  length    = 0x%#x%#x'' @ nl"
    show ?thesis
      unfolding print_mmap.simps [of mbi p s] if_P [OF True]
    proof (rule boots_loop)
      show "boots s (kprintf ?f [word_at s p 0, word_at s p 8, word_at s p 4, word_at s p 20, word_at s p 16, word_at s p 12] s)"
        using Suc.prems(1) by (intro kprintf_plain_boots [of _ _ 6]) (simp_all add: fmt_simps)
      fix t assume r: "boot_run s t"
      have same: "word_at t mbi 48 = word_at s mbi 48" "word_at t mbi 44 = word_at s mbi 44"
        using mbi_run [OF Suc.prems(1) r assms(2)] by simp_all
      have sp: "safe_word (uint p)" and rest: "mmap_ends (phys s) (p + load32 (phys s) (uint p) + 4) ?e n"
        using Suc.prems(2) True by simp_all
      have "word_at t p 0 = load32 (phys s) (uint p)"
        using word_at_run [OF Suc.prems(1) r, of p 0] sp by (simp add: word_at_def early_vview [OF Suc.prems(1)])
      then show "boots t (print_mmap mbi (p + word_at t p 0 + 4) t)"
        using rest same mmap_ends_run [OF r] by (intro Suc.IH [OF boot_run_early [OF r]]) simp
    qed
  next
    case False
    then show ?thesis using Suc.prems(1) by (simp add: print_mmap.simps [of mbi p s] boots_done)
  qed
qed

lemma print_tables_boots:
  fixes s :: "'a terms_scheme"
  assumes "early s" and "mbi_ok mbi"
    and "CHECK_FLAG (word_at s mbi 0) 6 \<longrightarrow>
      (\<exists>n. mmap_ends (phys s) (word_at s mbi 48) (word_at s mbi 48 + word_at s mbi 44) n)"
  shows "boots s (print_tables mbi s)"
  unfolding print_tables_def
proof (intro boots_seq when_flag_boots)
  show "boots s (kprintf (''elf_sec: num = %u, size = 0x%#x, addr = 0x%#x, shndx = 0x%#x'' @ nl)
      [word_at s mbi 28, word_at s mbi 32, word_at s mbi 36, word_at s mbi 40] s)"
    using assms(1) by (intro kprintf_plain_boots [of _ _ 4]) (simp_all add: fmt_simps)
next
  fix t assume "boot_run s t" then show "early t" by (rule boot_run_early)
next
  fix t assume "boot_run s t"
  then show "boots t (kprintf (''mmap_addr = 0x%#x, mmap_length = 0x%x'' @ nl) [word_at t mbi 48, word_at t mbi 44] t)"
    by (intro kprintf_plain_boots [of _ _ 2]) (simp_all add: fmt_simps boot_run_early)
next
  fix t u assume r: "boot_run s t" "boot_run t u" and fl: "CHECK_FLAG (word_at t mbi 0) 6"
  have su: "boot_run s u" using r by (blast intro: boot_run_trans)
  have w: "word_at u mbi 48 = word_at s mbi 48" "word_at u mbi 44 = word_at s mbi 44" "word_at t mbi 0 = word_at s mbi 0"
    using mbi_run [OF assms(1) su assms(2)] mbi_run [OF assms(1) r(1) assms(2)] by simp_all
  obtain n where n: "mmap_ends (phys s) (word_at s mbi 48) (word_at s mbi 48 + word_at s mbi 44) n"
    using assms(3) fl w by auto
  show "boots u (print_mmap mbi (word_at u mbi 48) u)"
    using mmap_ends_run [OF su] n w by (intro print_mmap_boots [OF boot_run_early [OF su] assms(2)]) simp
qed (use assms(1) in simp_all)

section \<open>The devices\<close>

lemma enable_irq_io: "\<exists>h. enable_irq dev n s = s\<lparr>io_hist := h\<rparr>"
proof -
  have "\<exists>h. s = s\<lparr>io_hist := h\<rparr>" by (rule exI [of _ "io_hist s"]) simp
  then show ?thesis unfolding enable_irq_def by (auto simp: inb_def outb_def Let_def)
qed

lemma device_init_io:
  "\<exists>h m v. i8259_init dev p = p\<lparr>master_mask := m, slave_mask := v, io_hist := h\<rparr>"
  "\<exists>h. rtc_initialize dev r = r\<lparr>io_hist := h, int_flag := True, rtc_tick := 0, rtc_status := 0\<rparr>"
  "\<exists>h. keyboard_init dev k = k\<lparr>io_hist := h\<rparr>"
  "\<exists>h. pit_init dev q = q\<lparr>io_hist := h, int_flag := True\<rparr>"
proof -
  show "\<exists>h. keyboard_init dev k = k\<lparr>io_hist := h\<rparr>" unfolding keyboard_init_def by (rule enable_irq_io)
  obtain h where "enable_irq dev 0 (outb (ucast (drop_bit 8 (1193180 div 100 AND 0xFF00 :: u32))) 0x40
      (outb (ucast (1193180 div 100 AND 0xFF :: u32)) 0x40 (outb 0x36 0x43 (cli q)))) =
      (outb (ucast (drop_bit 8 (1193180 div 100 AND 0xFF00 :: u32))) 0x40
      (outb (ucast (1193180 div 100 AND 0xFF :: u32)) 0x40 (outb 0x36 0x43 (cli q))))\<lparr>io_hist := h\<rparr>"
    using enable_irq_io by blast
  then have "pit_init dev q = q\<lparr>io_hist := h, int_flag := True\<rparr>"
    unfolding pit_init_def Let_def by (simp add: outb_def cli_def sti_def)
  then show "\<exists>h. pit_init dev q = q\<lparr>io_hist := h, int_flag := True\<rparr>" by blast
  obtain h where h: "enable_irq dev 8 (outb (fst (inb dev 0x71 (outb 0x8B 0x70 (outb 0x8A 0x70 (cli r)))) OR 0x40) 0x71
       (outb 0x8B 0x70 (snd (inb dev 0x71 (outb 0x8B 0x70 (outb 0x8A 0x70 (cli r))))))) =
     (outb (fst (inb dev 0x71 (outb 0x8B 0x70 (outb 0x8A 0x70 (cli r)))) OR 0x40) 0x71
       (outb 0x8B 0x70 (snd (inb dev 0x71 (outb 0x8B 0x70 (outb 0x8A 0x70 (cli r)))))))\<lparr>io_hist := h\<rparr>"
    using enable_irq_io by blast
  have "rtc_initialize dev r = r\<lparr>io_hist := h, int_flag := True, rtc_tick := 0, rtc_status := 0\<rparr>"
    unfolding rtc_initialize_def Let_def case_prod_beta h
    by (simp add: outb_def cli_def sti_def inb_def)
  then show "\<exists>h. rtc_initialize dev r = r\<lparr>io_hist := h, int_flag := True, rtc_tick := 0, rtc_status := 0\<rparr>" by blast
  show "\<exists>h m v. i8259_init dev p = p\<lparr>master_mask := m, slave_mask := v, io_hist := h\<rparr>"
  proof -
    have "\<exists>q. i8259_init dev p = enable_irq dev 2 q \<and> (\<exists>h. q = p\<lparr>master_mask := 0xFF, slave_mask := 0xFF, io_hist := h\<rparr>)"
      unfolding i8259_init_def Let_def by (rule exI, rule conjI, rule refl) (simp add: outb_def io_wait_def, rule exI, rule refl)
    then obtain q where "i8259_init dev p = enable_irq dev 2 q" "\<exists>h. q = p\<lparr>master_mask := 0xFF, slave_mask := 0xFF, io_hist := h\<rparr>"
      by blast
    moreover obtain h where "enable_irq dev 2 q = q\<lparr>io_hist := h\<rparr>" using enable_irq_io by blast
    ultimately have "i8259_init dev p = p\<lparr>master_mask := 0xFF, slave_mask := 0xFF, io_hist := h\<rparr>" by auto
    then show ?thesis by blast
  qed
qed


section \<open>The boot\<close>

text \<open>A file system image in the kernel's page that holds a runnable shell.\<close>

definition shell_image :: "u32 \<Rightarrow> mem \<Rightarrow> fs \<Rightarrow> bool" where
  "shell_image eip m f \<longleftrightarrow> fs_wf m f \<and> (\<forall>a. in_image m f a \<longrightarrow> a \<in> kernel_page)
     \<and> (\<exists>i. runnable m f shell_name i eip \<and> file_length m f i < 0x3B8000)"

lemma has_shell_image: "has_shell eip s = shell_image eip (vview s) (fsys s)"
  by (auto simp: has_shell_def shell_image_def fs_ok_def)

lemma shell_image_same:
  assumes "shell_image eip m f" and "\<forall>a \<in> kernel_page. m' a = m a"
  shows "shell_image eip m' f"
proof -
  obtain i where wf: "fs_wf m f" "\<forall>a. in_image m f a \<longrightarrow> a \<in> kernel_page"
    and i: "runnable m f shell_name i eip" "file_length m f i < 0x3B8000"
    using assms(1) by (auto simp: shell_image_def)
  have same: "same_image m m' f" using wf(2) assms(2) by (auto simp: same_image_def)
  have ino: "inode_ok m f i" using i(1) by (auto simp: runnable_def)
  then have "0 < inode_count m (boot_block_addr f)"
    unfolding inode_ok_def by (metis word_gt_0 word_not_simps(1))
  from lookup_same [OF same this] have l: "lookup m' f shell_name = lookup m f shell_name" .
  note r = readable_same [OF wf(1) ino same] and o = inode_ok_same [OF wf(1) ino same]
  have "file_length m' f i = file_length m f i"
    using length_readable [of m' f i] length_readable [of m f i] r by simp
  then show ?thesis
    using fs_wf_same [OF same wf(1)] in_image_same [OF same] wf(2) i l r o by (auto simp: shell_image_def runnable_def)
qed

text \<open>Memory as the boot loader and the C start-up leave it.\<close>

definition cold :: "'a kernel_scheme \<Rightarrow> bool" where
  "cold s \<longleftrightarrow> early s \<and> pre_init s \<and> video_mem s = 0xB8000 \<and> curr_process s = 0 \<and> program_count s = 0
     \<and> pid_arr s = replicate 6 0 \<and> sched_pid s = [0, 0, 0] \<and> (\<forall>k < 6. fds_ok (slot_pcb s k))"

text \<open>A multiboot information with a first module, and what the messages read.\<close>

definition multiboot_ok :: "u32 \<Rightarrow> 'a kernel_scheme \<Rightarrow> bool" where
  "multiboot_ok mbi s \<longleftrightarrow> mbi_ok mbi \<and> safe_word (uint (word_at s mbi 24)) \<and> CHECK_FLAG (word_at s mbi 0) 3
     \<and> \<not> (CHECK_FLAG (word_at s mbi 0) 4 \<and> CHECK_FLAG (word_at s mbi 0) 5)
     \<and> (CHECK_FLAG (word_at s mbi 0) 2 \<longrightarrow> cmdline_ok (phys s) (uint (word_at s mbi 16)))
     \<and> (CHECK_FLAG (word_at s mbi 0) 6 \<longrightarrow>
          (\<exists>n. mmap_ends (phys s) (word_at s mbi 48) (word_at s mbi 48 + word_at s mbi 44) n))"

definition module_fs :: "u32 \<Rightarrow> 'a paging_scheme \<Rightarrow> fs" where
  "module_fs mbi s = filesystem_init (phys s) (uint (word_at s (word_at s mbi 24) 0))"

text \<open>What the rest of the boot needs of the state after the messages.\<close>

definition warm :: "'a kernel_scheme \<Rightarrow> bool" where
  "warm s \<longleftrightarrow> early s \<and> pre_init s \<and> (video_mem s = 0xB8000 \<or> video_mem s = 0) \<and> curr_process s = 0
     \<and> program_count s = 0 \<and> pid_arr s = replicate 6 0 \<and> sched_pid s = [0, 0, 0] \<and> (\<forall>k < 6. fds_ok (slot_pcb s k))"

lemma pre_init_erase:
  assumes "erase t = erase s" and "pre_init s" and "cursor_ok t"
  shows "pre_init t"
proof -
  have len: "length (term_arr s) = 3" using assms(2) by (simp add: pre_init_def)
  have k: "page_virtual_mem (erase u) = page_virtual_mem u" "page_table_addr (erase u) = page_table_addr u"
    "page_virtual_mem_addr (erase u) = page_virtual_mem_addr u" for u :: "'a terms_scheme" by (simp_all add: erase_def)
  have "page_virtual_mem t = page_virtual_mem s" "page_table_addr t = page_table_addr s"
    "page_virtual_mem_addr t = page_virtual_mem_addr s"
    using k [of t] k [of s] assms(1) by simp_all
  then show ?thesis
    using assms(2,3) erase_view [OF assms(1)] erase_term_view(2) [OF assms(1)] len
    by (simp add: pre_init_def cursor_ok_def)
qed

lemma warm_erase:
  fixes s t :: "'a kernel_scheme"
  assumes "warm s" and "scr_inv (erase s) t" and "video_mem t = 0xB8000 \<or> video_mem t = 0"
  shows "warm t"
proof -
  have e: "erase t = erase s" "cursor_ok t" using assms(2) by (simp_all add: scr_inv_def)
  show ?thesis
    using assms(1,3) early_erase [OF _ assms(2)] pre_init_erase [OF e(1) _ e(2)] erase_kernel [OF e(1)] erase_view(3) [OF e(1)]
    by (simp add: warm_def)
qed

lemma warm_run: "warm s \<Longrightarrow> boot_run s t \<Longrightarrow> warm t"
  by (rule warm_erase) (auto simp: warm_def boot_run_def early_def scr_inv_def)

lemma warm_fields [simp]:
  "warm (s\<lparr>fsys := f\<rparr>) = warm s" "warm (s\<lparr>io_hist := h\<rparr>) = warm s" "warm (s\<lparr>int_flag := b\<rparr>) = warm s"
  "warm (s\<lparr>master_mask := m\<rparr>) = warm s" "warm (s\<lparr>slave_mask := m\<rparr>) = warm s"
  "warm (s\<lparr>rtc_tick := n\<rparr>) = warm s" "warm (s\<lparr>rtc_status := n2\<rparr>) = warm s"
  by (simp_all add: warm_def early_def pre_init_def cursor_ok_def)

lemma warm_init [simp]: "warm (idt_init L s) = warm s" "warm (load_descriptors K d1 d2 r) = warm r"
  for s :: "'a system_scheme" and r :: "'b boot_scheme"
  by (simp_all add: idt_init_def load_descriptors_def Let_def warm_def early_def pre_init_def cursor_ok_def)

lemma init_phys [simp]:
  "phys (load_descriptors K d1 d2 r) = phys r" "fsys (load_descriptors K d1 d2 r) = fsys r"
  "video_mem (load_descriptors K d1 d2 r) = video_mem r" "fsys (idt_init L s) = fsys s"
  for s :: "'a system_scheme" and r :: "'b boot_scheme"
  by (simp_all add: idt_init_def load_descriptors_def Let_def)

text \<open>Paging, the terminals and the timer, from a warm state.\<close>

lemma warm_booting:
  fixes s :: "'a kernel_scheme"
  assumes "warm s" and "shell_image eip (phys s) (fsys s)"
  shows "booting eip 0 (pit_init dev (init_terminal (paging_initialize s)))"
proof -
  let ?p = "init_terminal (paging_initialize s)"
  obtain h where h: "pit_init dev ?p = ?p\<lparr>io_hist := h, int_flag := True\<rparr>" using device_init_io(4) by blast
  have w: "pre_init s" "curr_process s = 0" "program_count s = 0" "pid_arr s = replicate 6 0" "sched_pid s = [0, 0, 0]"
    "\<forall>k < 6. fds_ok (slot_pcb s k)" using assms(1) by (simp_all add: warm_def)
  have t: "terms_ok ?p" by (rule terms_ok_init [OF w(1)])
  have len: "length (term_arr (paging_initialize s)) = 3" using w(1) by (simp add: paging_initialize_eq pre_init_def)
  have f: "program_count ?p = 0" "pid_arr ?p = replicate 6 0" "sched_pid ?p = [0, 0, 0]" "pcb_at ?p = pcb_at s"
    "curr_process ?p = 0" "phys ?p = phys s" "fsys ?p = fsys s"
    using w unfolding init_terminal_fields [OF len] by (simp_all add: paging_initialize_eq)
  have live: "\<not> live ?p k" for k by (auto simp: live_def f)
  have p: "procs_ok ?p" using w(6) live by (auto simp: procs_ok_def f nth_Cons' eval_nat_numeral)
  have tok: "tables_ok ?p" using t by (simp add: terms_ok_def base_ok_def)
  have "shell_image eip (vview ?p) (fsys ?p)"
    using shell_image_same [OF assms(2)] vview_kernel [OF tok] f(6,7) by simp
  then have "has_shell eip ?p" by (simp add: has_shell_image)
  moreover have "vview (?p\<lparr>io_hist := h, int_flag := True\<rparr>) = vview ?p"
    by (simp add: vview_def cong: option.case_cong)
  ultimately have "has_shell eip (pit_init dev ?p)" unfolding has_shell_image h by simp
  then show ?thesis using t p f h by (simp add: booting_def)
qed

interpretation clear_video: keeps "\<lambda>s. video_mem s = v" clear_cell for v
  by unfold_locales (auto simp: clear_cell_def and_then_Inr_iff elim!: vwrite_Inr)

lemma reset_video_mem:
  assumes "reset s = Inr t"
  shows "video_mem t = video_mem s"
proof -
  obtain u v where u: "load_cursor (user_term s) s = Inr u" and v: "fold_res clear_cell [0..<25 * 80] u = Inr v"
    and t: "t = save_cursor (user_term v) (enable_cursor 0 0 (v\<lparr>screen_x := 0, screen_y := 0\<rparr>))"
    using assms by (auto simp: reset_def and_then_Inr_iff simp del: upt_rec_numeral)
  have "video_mem u = video_mem s" using u by (auto simp: load_cursor_def)
  then have "video_mem v = video_mem s" by (rule clear_video.loop_inv [OF _ v])
  then show ?thesis by (simp add: t save_cursor_def upd_term_def enable_cursor_def)
qed

lemma start_devices_booting:
  fixes s :: "'a boot_scheme"
  assumes "warm s" and "shell_image eip (phys s) (fsys s)"
  shows "\<exists>t. start_devices dev K d1 d2 s = Inr t \<and> booting eip 0 t"
proof -
  let ?l = "load_descriptors K d1 d2 s"
  have wl: "warm ?l" using assms(1) by simp
  then have el: "early ?l" "cursor_ok ?l" by (simp_all add: warm_def early_def)
  have vp: "\<forall>d. 0 \<le> d \<and> d < 4096 \<longrightarrow> xlate ?l (video_mem ?l + d) = Some (video_mem ?l + d)"
    using early_xlate [OF el(1)] by simp
  obtain r where r: "reset ?l = Inr r" "phys r = mwrite (phys ?l) (video_mem ?l) (concat (replicate 2000 [0x20, 0x7]))"
    using reset_total [OF el(2) vp] by blast
  have "scr_inv (erase ?l) ?l" using el(2) by (simp add: scr_inv_def)
  from scr_inv_reset [OF this r(1)] have inv: "scr_inv (erase ?l) r" .
  then have e: "erase r = erase ?l" by (simp add: scr_inv_def)
  have v: "video_mem r = video_mem ?l" by (rule reset_video_mem [OF r(1)])
  have wr: "warm r" using wl warm_erase [OF wl inv] v by (auto simp: warm_def)
  have "length (concat (replicate n [a, b])) = 2 * n" for n :: nat and a b :: u8 by (induction n) auto
  then have "phys r a = phys s a" if "a \<in> kernel_page" for a
    using that r(2) wl by (auto simp: warm_def mwrite_apply kernel_page_def)
  then have "shell_image eip (phys r) (fsys r)"
    using shell_image_same [OF assms(2)] erase_kernel(6) [OF e] by simp
  moreover obtain h m v' where i: "i8259_init dev (idt_init (idt_link K) r) =
      (idt_init (idt_link K) r)\<lparr>master_mask := m, slave_mask := v', io_hist := h\<rparr>" using device_init_io(1) by blast
  let ?i = "(idt_init (idt_link K) r)\<lparr>master_mask := m, slave_mask := v', io_hist := h\<rparr>"
  obtain h2 where j: "rtc_initialize dev ?i = ?i\<lparr>io_hist := h2, int_flag := True, rtc_tick := 0, rtc_status := 0\<rparr>"
    using device_init_io(2) by blast
  obtain h3 where k: "keyboard_init dev (?i\<lparr>io_hist := h2, int_flag := True, rtc_tick := 0, rtc_status := 0\<rparr>) =
      (?i\<lparr>io_hist := h2, int_flag := True, rtc_tick := 0, rtc_status := 0\<rparr>)\<lparr>io_hist := h3\<rparr>"
    using device_init_io(3) by blast
  ultimately show ?thesis
    using wr warm_booting [of "(?i\<lparr>io_hist := h2, int_flag := True, rtc_tick := 0, rtc_status := 0\<rparr>)\<lparr>io_hist := h3\<rparr>" eip dev]
    by (simp add: start_devices_def r(1) Let_def i j k)
qed

lemma cmdline_ok_run:
  assumes "boot_run s t" and "cmdline_ok (phys s) a"
  shows "cmdline_ok (phys t) a"
proof -
  obtain xs where xs: "cstr (phys s) a xs" "\<forall>i \<le> length xs. \<not> low_mem (a + int i)"
    using assms(2) by (auto simp: cmdline_ok_def)
  then have "cstr (phys t) a xs" using assms(1) by (simp add: cstr_iff boot_run_def)
  with xs(2) show ?thesis by (auto simp: cmdline_ok_def)
qed

lemma erase_fsys: "erase (s\<lparr>fsys := f\<rparr>) = (erase s)\<lparr>fsys := f\<rparr>"
  by (simp add: erase_def)

lemma boot_run_fsys: "boot_run s t \<Longrightarrow> boot_run (s\<lparr>fsys := f\<rparr>) (t\<lparr>fsys := f\<rparr>)"
  by (simp add: boot_run_def erase_fsys early_def cursor_ok_def)

lemma clear_boots: "early s \<Longrightarrow> video_mem s = 0xB8000 \<Longrightarrow> boots s (Some (clear s))"
proof -
  assume s: "early s" "video_mem s = 0xB8000"
  have len: "length (concat (replicate n [a, b])) = 2 * n" for n :: nat and a b :: u8 by (induction n) auto
  let ?t = "s\<lparr>phys := mwrite (phys s) 0xB8000 (concat (replicate 2000 [0x20, 0x7]))\<rparr>"
  have "clear s = Inr ?t" using s by (intro clear_total) (simp add: video_page_def early_xlate)
  moreover have "boot_run s ?t"
    using s(1) by (auto simp: boot_run_def erase_def early_def cursor_ok_def low_mem_def mwrite_apply len)
  ultimately show "boots s (Some (clear s))" by (simp add: boots_def)
qed

lemma load_modules_run:
  fixes s t :: "'a kernel_scheme"
  assumes "early s" and "boot_run s t" and "multiboot_ok mbi s" and "shell_image eip (phys s) (module_fs mbi s)"
  shows "\<exists>u. load_modules mbi t = Some (Inr u) \<and> boot_run (s\<lparr>fsys := module_fs mbi s\<rparr>) u"
proof -
  let ?f = "module_fs mbi s"
  have mb: "mbi_ok mbi" "safe_word (uint (word_at s mbi 24))" using assms(3) by (simp_all add: multiboot_ok_def)
  have md: "word_at t mbi 24 = word_at s mbi 24" using mbi_run [OF assms(1,2) mb(1)] by simp
  have st: "word_at t (word_at s mbi 24) 0 = word_at s (word_at s mbi 24) 0"
    using word_at_run [OF assms(1,2), of "word_at s mbi 24" 0] mb(2) by simp
  have img: "\<forall>a. in_image (phys s) ?f a \<longrightarrow> a \<in> kernel_page" using assms(4) by (simp add: shell_image_def)
  have "a \<in> kernel_page \<Longrightarrow> \<not> low_mem a" for a by (auto simp: kernel_page_def low_mem_def)
  then have same: "same_image (phys s) (phys t) ?f" using img assms(2) by (auto simp: same_image_def boot_run_def)
  have b: "boot_block_addr ?f = uint (word_at s (word_at s mbi 24) 0)" by (simp add: module_fs_def filesystem_init_def)
  have f: "filesystem_init (vview t) (uint (word_at s (word_at s mbi 24) 0)) = ?f"
    using counts_same(1) [OF same] early_vview [OF boot_run_early [OF assms(2)]]
    by (simp add: b module_fs_def filesystem_init_def)
  have run: "boot_run (s\<lparr>fsys := ?f\<rparr>) (t\<lparr>fsys := ?f\<rparr>)" by (rule boot_run_fsys [OF assms(2)])
  from print_modules_boots [OF boot_run_early [OF this] mb(1)] have
    "boots (t\<lparr>fsys := ?f\<rparr>) (print_modules mbi (word_at s mbi 24) 0 (t\<lparr>fsys := ?f\<rparr>))" .
  then show ?thesis
    using run by (auto simp: load_modules_def Let_def md st f boots_def intro: boot_run_trans)
qed

lemma entry_booting:
  fixes s :: "'a boot_scheme"
  assumes "cold s" and "multiboot_ok mbi s" and "shell_image eip (phys s) (module_fs mbi s)"
  shows "\<exists>t. entry dev K d1 d2 0x2BADB002 mbi s = Some (Inr (Running t)) \<and> booting eip 0 t"
proof -
  let ?f = "module_fs mbi s"
  let ?s = "s\<lparr>fsys := ?f\<rparr>"
  have es: "early s" "early ?s" and vs: "video_mem s = 0xB8000" and ws: "warm ?s" and mb: "mbi_ok mbi"
    using assms(1,2) by (simp_all add: cold_def warm_def early_def cursor_ok_def pre_init_def multiboot_ok_def)
  have word: "word_at ?s p off = word_at s p off" "phys ?s = phys s" for p off
    by (simp_all add: word_at_def early_vview [OF es(1)] early_vview [OF es(2)])
  obtain s1 where s1: "clear s = Inr s1" "boot_run s s1" using clear_boots [OF es(1) vs] by (auto simp: boots_def)
  have w1: "word_at s1 mbi off = word_at s mbi off" if "off \<in> {0, 16, 20, 24, 44, 48}" for off
    by (rule mbi_run [OF es(1) s1(2) mb that])
  note cmdline_ok_run [OF s1(2)]
  then have "boots s1 (print_info mbi s1)"
    using assms(2) w1 by (intro print_info_boots [OF boot_run_early [OF s1(2)] mb]) (simp add: multiboot_ok_def)
  then obtain s2 where s2: "print_info mbi s1 = Some (Inr s2)" "boot_run s s2"
    using s1(2) by (auto simp: boots_def intro: boot_run_trans)
  obtain s3 where s3: "load_modules mbi s2 = Some (Inr s3)" "boot_run ?s s3"
    using load_modules_run [OF es(1) s2(2) assms(2,3)] by blast
  have w2: "word_at s2 mbi 0 = word_at s mbi 0" using mbi_run [OF es(1) s2(2) mb] by simp
  have w3: "word_at s3 mbi off = word_at s mbi off" if "off \<in> {0, 16, 20, 24, 44, 48}" for off
    using mbi_run [OF es(2) s3(2) mb that] word(1) by simp
  have "boots s3 (print_tables mbi s3)"
    using assms(2) w3 mmap_ends_run [OF s3(2)] word
    by (intro print_tables_boots [OF boot_run_early [OF s3(2)] mb]) (simp add: multiboot_ok_def)
  then obtain s4 where s4: "print_tables mbi s3 = Some (Inr s4)" "boot_run ?s s4"
    using s3(2) by (auto simp: boots_def intro: boot_run_trans)
  have "fsys s4 = ?f" using s4(2) erase_kernel(6) [of s4 ?s] by (simp add: boot_run_def)
  moreover have "\<forall>a \<in> kernel_page. phys s4 a = phys s a"
    using s4(2) by (auto simp: boot_run_def kernel_page_def low_mem_def)
  ultimately have "shell_image eip (phys s4) (fsys s4)" using shell_image_same [OF assms(3)] by simp
  from start_devices_booting [OF warm_run [OF ws s4(2)] this] obtain t
    where "start_devices dev K d1 d2 s4 = Inr t" "booting eip 0 t" by blast
  moreover have "CHECK_FLAG (word_at s2 mbi 0) 3" "\<not> (CHECK_FLAG (word_at s3 mbi 0) 4 \<and> CHECK_FLAG (word_at s3 mbi 0) 5)"
    using assms(2) w2 w3 [of 0] by (simp_all add: multiboot_ok_def)
  ultimately show ?thesis
    unfolding entry_def seq_ro_def by (auto simp: s1(1) s2(1) s3(1) s4(1))
qed

text \<open>
  C1. Booting reaches the shells. From the state that the boot loader and the C start-up leave,
  with a multiboot information that has a first module, with a NUL-terminated command line
  and a finite memory map where the flags announce them, and a module that is a file
  system image in the kernel's page with a runnable ``shell'': \<open>entry\<close> prints, installs the
  descriptors, gates and page tables and reaches its halt loop, with the file system, the
  process table and the terminals well formed; and the next three timer ticks each enter
  user mode at the shell's entry point, on terminals 0, 1 and 2.
\<close>

theorem boot_reaches_shells:
  fixes s :: "'a boot_scheme"
  assumes "cold s" and "multiboot_ok mbi s" and "shell_image eip (phys s) (module_fs mbi s)"
  shows "\<exists>t t1 t2 t3. entry dev K d1 d2 0x2BADB002 mbi s = Some (Inr (Running t)) \<and> has_shell eip t
     \<and> procs_ok t \<and> terms_ok t
     \<and> pit_interrupt_handler dev e0 b0 x0 y0 t = Some (Inr (Started (EntersUser eip t1)))
     \<and> pit_interrupt_handler dev e1 b1 x1 y1 t1 = Some (Inr (Started (EntersUser eip t2)))
     \<and> pit_interrupt_handler dev e2 b2 x2 y2 t2 = Some (Inr (Started (EntersUser eip t3)))
     \<and> sched_pid t3 = [1, 2, 3] \<and> procs_ok t3 \<and> terms_ok t3"
proof -
  obtain t where t: "entry dev K d1 d2 0x2BADB002 mbi s = Some (Inr (Running t))" "booting eip 0 t"
    using entry_booting [OF assms] by blast
  obtain t1 where t1: "pit_interrupt_handler dev e0 b0 x0 y0 t = Some (Inr (Started (EntersUser eip t1)))" "booting eip 1 t1"
    using pit_starts [OF t(2), of dev e0 b0 x0 y0] by auto
  obtain t2 where t2: "pit_interrupt_handler dev e1 b1 x1 y1 t1 = Some (Inr (Started (EntersUser eip t2)))" "booting eip 2 t2"
    using pit_starts [OF t1(2), of dev e1 b1 x1 y1] by (auto simp: numeral_2_eq_2)
  obtain t3 where t3: "pit_interrupt_handler dev e2 b2 x2 y2 t2 = Some (Inr (Started (EntersUser eip t3)))" "booting eip 3 t3"
    using pit_starts [OF t2(2), of dev e2 b2 x2 y2] by (auto simp: numeral_3_eq_3 numeral_2_eq_2)
  have "has_shell eip t" "procs_ok t" "terms_ok t" "procs_ok t3" "terms_ok t3" "sched_pid t3 = [1, 2, 3]"
    using t(2) t3(2) by (simp_all add: booting_def)
  then show ?thesis using t(1) t1(1) t2(1) t3(1) by blast
qed

text \<open>A machine with the multiboot information at 0x9000 and the module at 0x502000.\<close>

definition zero_seg :: seg_desc where
  "zero_seg = \<lparr>seg_lim_15_00 = 0, base_15_00 = 0, base_23_16 = 0, seg_type = 0, seg_sys = 0, seg_dpl = 0, seg_present = 0,
     seg_lim_19_16 = 0, seg_avail = 0, seg_reserved = 0, seg_opsize = 0, seg_granularity = 0, base_31_24 = 0\<rparr>"

definition loader_mem :: mem where
  "loader_mem a = (if a = 0x9000 then 8 else if a = 0x9014 then 1 else if a = 0x9019 then 0x91 else if a = 0x9101 then 0x20
     else if a = 0x9102 then 0x50 else if a < 0x400000 then 0 else elf_image (a - 0x500000))"

definition cold_example :: boot where
  "cold_example = system.extend (kernel.extend (kernel_boot\<lparr>phys := loader_mem, pcb_at := \<lambda>_. empty_pcb, pcb_current := 0,
       program_count := 0, pid_arr := replicate 6 0, sched_pid := [0, 0, 0]\<rparr>)
       \<lparr>idt = replicate 256 zero_gate, handler_table = replicate 256 Null\<rparr>)
     \<lparr>ldt_desc_ptr = zero_seg, tss_desc_ptr = zero_seg, tss_ldt_selector = 0, ldtr = 0, task_register = 0\<rparr>"

definition link_example :: boot_link where
  "link_example = \<lparr>idt_link = linkage_example, ldt_addr = 0x420000, ldt_size = 47, tss_addr = 0x421000, tss_size = 103\<rparr>"

lemmas cold_example_simps = cold_example_def system.extend_def kernel.extend_def kernel_boot_def

lemma cold_example_cold: "cold cold_example" "vview cold_example = loader_mem"
proof -
  have "fds_ok empty_pcb" by (simp add: empty_pcb_def closed_fd_def fds_ok_def nth_Cons' eval_nat_numeral)
  moreover have e: "early cold_example" by (simp add: early_def cursor_ok_def cold_example_simps)
  moreover have "pre_init cold_example" by (simp add: pre_init_def cold_example_simps)
  ultimately show "cold cold_example" by (simp add: cold_def cold_example_simps)
  show "vview cold_example = loader_mem" using early_vview [OF e] by (simp add: cold_example_simps)
qed

lemma cold_example_multiboot:
  "multiboot_ok 0x9000 cold_example" "shell_image 0x08048034 (phys cold_example) (module_fs 0x9000 cold_example)"
proof -
  have w: "word_at cold_example 0x9000 0 = 8" "word_at cold_example 0x9000 24 = 0x9100"
    "word_at cold_example 0x9100 0 = 0x502000"
    by (simp_all add: word_at_def cold_example_cold(2) load32_def loader_mem_def)
  show "multiboot_ok 0x9000 cold_example"
    unfolding multiboot_ok_def w by (simp add: mbi_ok_def safe_word_def low_mem_def CHECK_FLAG_def)
  let ?f = "fsys process_example"
  have b: "boot_block_addr ?f = 0x502000" by (simp add: process_example_def kernel_example_fields kernel_boot_def)
  have ph: "phys cold_example = loader_mem" by (simp add: cold_example_simps)
  have "shell_image 0x08048034 (vview process_example) ?f" using process_example_shell by (simp add: has_shell_image)
  then have si: "shell_image 0x08048034 loader_mem ?f"
    using vview_kernel [OF process_example_ok(3)]
    by (rule_tac shell_image_same) (auto simp: kernel_page_def loader_mem_def process_example_def)
  then have "?f = filesystem_init loader_mem 0x502000" using b by (simp add: shell_image_def fs_wf_def)
  then show "shell_image 0x08048034 (phys cold_example) (module_fs 0x9000 cold_example)"
    using si by (simp add: module_fs_def w ph)
qed

theorem boot_reaches_shells_witness:
  "\<exists>t t1 t2 t3. entry (\<lambda>_ _. 0) link_example zero_seg zero_seg 0x2BADB002 0x9000 cold_example = Some (Inr (Running t))
     \<and> pit_interrupt_handler (\<lambda>_ _. 0) 0 0 0 0 t = Some (Inr (Started (EntersUser 0x08048034 t1)))
     \<and> pit_interrupt_handler (\<lambda>_ _. 0) 0 0 0 0 t1 = Some (Inr (Started (EntersUser 0x08048034 t2)))
     \<and> pit_interrupt_handler (\<lambda>_ _. 0) 0 0 0 0 t2 = Some (Inr (Started (EntersUser 0x08048034 t3)))"
  using boot_reaches_shells [OF cold_example_cold(1) cold_example_multiboot,
      of "\<lambda>_ _. 0" link_example zero_seg zero_seg 0 0 0 0 0 0 0 0 0 0 0 0] by blast

text \<open>
  A boot with the wrong magic number, or with flags 4 and 5 both set, installs nothing: it
  returns with only the messages printed.
\<close>

lemma entry_wrong_magic:
  fixes s :: "'a boot_scheme"
  assumes "early s" and "video_mem s = 0xB8000" and "magic \<noteq> 0x2BADB002"
  shows "\<exists>t. entry dev K d1 d2 magic mbi s = Some (Inr (Aborted t)) \<and> boot_run s t"
proof -
  obtain u where u: "clear s = Inr u" "boot_run s u" using clear_boots [OF assms(1,2)] by (auto simp: boots_def)
  have "boots u (kprintf (''Invalid magic number: 0x%#x'' @ nl) [magic] u)"
    by (intro kprintf_plain_boots [of _ _ 1]) (simp_all add: boot_run_early [OF u(2)] fmt_simps)
  then show ?thesis
    using u assms(3) by (auto simp: boots_def entry_def seq_ro_def intro: boot_run_trans)
qed

end
