(* ===== verification/ModeX.thy ===== *)
theory ModeX
  imports Prelude
begin

text \<open>
  Graphics of the adventure game, \<^verbatim>\<open>mp2/modex.c\<close>: the build buffer in which the visible part of
  the room is drawn as four interleaved planes, the logical view window that moves inside it,
  and the copy to the video memory page that is not on display.

  \<^item> \<open>build\<close> is a memory of \<open>BUILD_BUF_SIZE\<close> bytes between two fences of 256 bytes; an access
    outside of it is a fault. Pointers into it are indices.
  \<^item> Video memory has four planes; \<open>SET_WRITE_MASK\<close> selects the planes that a store reaches.
    Words written to ports are recorded in \<open>ports\<close>.
  \<^item> The routines that produce the image of a line are callbacks: \<open>horiz_line_fn\<close> and
    \<open>vert_line_fn\<close> are arguments of the drawing functions. The locale \<open>picture\<close> says what they
    promise; it is interpreted on the routines of \<^verbatim>\<open>photo.c\<close> in the theory on rooms.
  \<^item> \<open>x >> 2\<close> and \<open>x & 3\<close> of a signed \<open>int\<close> are \<open>div 4\<close> and \<open>mod 4\<close> (rounding down), also for
    negative coordinates.
\<close>

section \<open>State\<close>

abbreviation SCROLL_X_DIM :: int where "SCROLL_X_DIM \<equiv> 320"
abbreviation SCROLL_Y_DIM :: int where "SCROLL_Y_DIM \<equiv> 182"
abbreviation SCROLL_X_WIDTH :: int where "SCROLL_X_WIDTH \<equiv> 80"
abbreviation SCROLL_SIZE :: int where "SCROLL_SIZE \<equiv> 14560"
abbreviation SCREEN_SIZE :: int where "SCREEN_SIZE \<equiv> 58241"
abbreviation BUILD_BUF_SIZE :: int where "BUILD_BUF_SIZE \<equiv> 78241"
abbreviation BUILD_BASE_INIT :: int where "BUILD_BASE_INIT \<equiv> 10000"
abbreviation MEM_FENCE_WIDTH :: int where "MEM_FENCE_WIDTH \<equiv> 256"
abbreviation STATUS_BAR_SIZE :: int where "STATUS_BAR_SIZE \<equiv> 1440"

record modex =
  build :: "int \<Rightarrow> u8"
  img3_off :: int
  img3 :: int
  show_x :: int
  show_y :: int
  target_img :: u16
  write_mask :: u16
  vram :: "nat \<Rightarrow> int \<Rightarrow> u8"
  ports :: "(u16 \<times> u16) list"

definition in_build :: "int \<Rightarrow> bool" where
  "in_build a \<longleftrightarrow> 0 \<le> a \<and> a < BUILD_BUF_SIZE + 2 * MEM_FENCE_WIDTH"

definition build_write :: "int \<Rightarrow> u8 \<Rightarrow> modex \<Rightarrow> modex res" where
  "build_write a v s = check (in_build a) OutOfBounds (s\<lparr>build := (build s)(a := v)\<rparr>)"

definition SET_WRITE_MASK :: "u16 \<Rightarrow> modex \<Rightarrow> modex" where
  "SET_WRITE_MASK mask_hi_bits s =
     (let ax = (mask_hi_bits AND 0xFF00) OR 0x02
      in s\<lparr>write_mask := ax, ports := ports s @ [(0x3C4, ax)]\<rparr>)"

definition OUTW :: "u16 \<Rightarrow> u16 \<Rightarrow> modex \<Rightarrow> modex" where
  "OUTW port val s = s\<lparr>ports := ports s @ [(port, val)]\<rparr>"

text \<open>A store of \<open>f i\<close> at the offsets \<open>a + i\<close>, \<open>i < n\<close>, of the planes that the mask selects.\<close>

definition vram_store :: "int \<Rightarrow> int \<Rightarrow> (int \<Rightarrow> u8) \<Rightarrow> modex \<Rightarrow> modex" where
  "vram_store a n f s = s\<lparr>vram := \<lambda>p x. if bit (write_mask s) (8 + p) \<and> a \<le> x \<and> x < a + n then f (x - a) else vram s p x\<rparr>"

section \<open>The operations\<close>

text \<open>The part of \<open>set_mode_X\<close> that sets up the view and the build buffer.\<close>

definition fence_step :: "int \<Rightarrow> modex \<Rightarrow> modex" where
  "fence_step i s = s\<lparr>build := (build s)(i := 0xF3, BUILD_BUF_SIZE + MEM_FENCE_WIDTH + i := 0xF3)\<rparr>"

definition init_view :: "modex \<Rightarrow> modex" where
  "init_view s =
     (let s = s\<lparr>show_x := 0, show_y := 0, img3_off := BUILD_BASE_INIT, img3 := BUILD_BASE_INIT + MEM_FENCE_WIDTH\<rparr>;
          s = fold (\<lambda>i. fence_step (int i)) [0..<256] s
      in s\<lparr>target_img := word_of_int (STATUS_BAR_SIZE * 4)\<rparr>)"

text \<open>The check of the fences in \<open>clear_mode_X\<close>: which of the two messages it prints.\<close>

definition fence_report :: "modex \<Rightarrow> string list" where
  "fence_report s =
     (if \<exists>i \<in> {0..<256::nat}. build s (int i) \<noteq> 0xF3 then [''lower build fence was broken''] else [])
     @ (if \<exists>i \<in> {0..<256::nat}. build s (BUILD_BUF_SIZE + MEM_FENCE_WIDTH + int i) \<noteq> 0xF3
        then [''upper build fence was broken''] else [])"

definition copy_byte :: "int \<Rightarrow> int \<Rightarrow> nat \<Rightarrow> modex \<Rightarrow> modex res" where
  "copy_byte target start i s =
     (if in_build (start + int i) then build_write (target + int i) (build s (start + int i)) s else Inl OutOfBounds)"

definition set_view_window :: "int \<Rightarrow> int \<Rightarrow> modex \<Rightarrow> modex res" where
  "set_view_window scr_x scr_y s =
     (let old_x = show_x s; old_y = show_y s;
          s = s\<lparr>show_x := scr_x, show_y := scr_y\<rparr>
      in if img3_off s + scr_x div 4 + scr_y * SCROLL_X_WIDTH \<ge> 0
            \<and> img3_off s + 3 * SCROLL_SIZE + (scr_x + SCROLL_X_DIM - 1) div 4
                + (scr_y + SCROLL_Y_DIM - 1) * SCROLL_X_WIDTH < BUILD_BUF_SIZE
         then Inr s
         else if scr_x \<le> old_x - SCROLL_X_DIM \<or> scr_x \<ge> old_x + SCROLL_X_DIM
            \<or> scr_y \<le> old_y - SCROLL_Y_DIM \<or> scr_y \<ge> old_y + SCROLL_Y_DIM
         then let off = BUILD_BASE_INIT - scr_x div 4 - scr_y * SCROLL_X_WIDTH
              in Inr (s\<lparr>img3_off := off, img3 := off + MEM_FENCE_WIDTH\<rparr>)
         else let (start_x, end_x) = (if scr_x > old_x then (scr_x, old_x) else (old_x, scr_x));
                  end_x = end_x + (SCROLL_X_DIM - 1);
                  (start_y, end_y) = (if scr_y > old_y then (scr_y, old_y) else (old_y, scr_y));
                  end_y = end_y + (SCROLL_Y_DIM - 1);
                  start_off = start_x div 4 + start_y * SCROLL_X_WIDTH;
                  start_addr = img3 s + start_off;
                  len = end_x div 4 + end_y * SCROLL_X_WIDTH + 1 - start_off + 3 * SCROLL_SIZE;
                  off = BUILD_BASE_INIT - show_x s div 4 - show_y s * SCROLL_X_WIDTH;
                  s = s\<lparr>img3_off := off, img3 := off + MEM_FENCE_WIDTH\<rparr>;
                  target_addr = img3 s + start_off
              in if start_addr < target_addr
                 then fold_res (copy_byte target_addr start_addr) (rev [0..<nat len]) s
                 else fold_res (copy_byte target_addr start_addr) [0..<nat len] s)"

text \<open>\<open>rep movsb\<close> of 14560, respectively 1440, bytes to video memory.\<close>

definition copy_image :: "int \<Rightarrow> u16 \<Rightarrow> modex \<Rightarrow> modex res" where
  "copy_image img scr_addr s =
     check (in_build img \<and> in_build (img + 14559) \<and> uint scr_addr + 14560 \<le> 131072) OutOfBounds
       (vram_store (uint scr_addr) 14560 (\<lambda>i. build s (img + i)) s)"

definition copy_statusbar :: "(int \<Rightarrow> u8) \<Rightarrow> u16 \<Rightarrow> modex \<Rightarrow> modex" where
  "copy_statusbar img scr_addr s = vram_store (uint scr_addr) 1440 img s"

definition show_plane :: "int \<Rightarrow> int \<Rightarrow> nat \<Rightarrow> modex \<Rightarrow> modex res" where
  "show_plane addr p_off i s =
     copy_image (addr + ((p_off - int i + 4) mod 4) * SCROLL_SIZE + (if p_off < int i then 1 else 0)) (target_img s)
       (SET_WRITE_MASK (push_bit (i + 8) 1) s)"

definition show_screen :: "modex \<Rightarrow> modex res" where
  "show_screen s =
     (let p_off = 3 - show_x s mod 4;
          s = s\<lparr>target_img := target_img s XOR 0x4000\<rparr>;
          addr = img3 s + show_x s div 4 + show_y s * SCROLL_X_WIDTH
      in and_then (fold_res (show_plane addr p_off) [0..<4] s) (\<lambda>s.
         Inr (OUTW 0x3D4 (push_bit 8 (target_img s AND 0xFF) OR 0x0D)
               (OUTW 0x3D4 ((target_img s AND 0xFF00) OR 0x0C) s))))"

definition clear_screens :: "modex \<Rightarrow> modex" where
  "clear_screens s = vram_store 0 65536 (\<lambda>_. 0) (SET_WRITE_MASK 0x0F00 s)"

text \<open>The copies of \<open>show_status_bar\<close>: the bar is at the start of video memory.\<close>

definition show_bar :: "(int \<Rightarrow> u8) \<Rightarrow> modex \<Rightarrow> modex" where
  "show_bar status s =
     fold (\<lambda>i s. copy_statusbar (\<lambda>x. status (int i * STATUS_BAR_SIZE + x)) 0 (SET_WRITE_MASK (push_bit (i + 8) 1) s)) [0..<4] s"

fun vert_loop :: "u8 list \<Rightarrow> int \<Rightarrow> modex \<Rightarrow> modex res" where
  "vert_loop [] a s = Inr s"
| "vert_loop (v # buf) a s = and_then (build_write a v s) (vert_loop buf (a + SCROLL_X_WIDTH))"

definition draw_vert_line :: "(int \<Rightarrow> int \<Rightarrow> u8 list res) \<Rightarrow> int \<Rightarrow> modex \<Rightarrow> (int \<times> modex) res" where
  "draw_vert_line vert_line_fn x s =
     (if x < 0 \<or> x \<ge> SCROLL_X_DIM then Inr (-1, s)
      else let x = x + show_x s
           in and_then (vert_line_fn x (show_y s)) (\<lambda>buf.
              let addr = img3 s + x div 4 + show_y s * SCROLL_X_WIDTH;
                  p_off = 3 - x mod 4
              in and_then (vert_loop (take 182 buf) (addr + p_off * SCROLL_SIZE) s) (\<lambda>s. Inr (0, s))))"

fun horiz_loop :: "u8 list \<Rightarrow> int \<Rightarrow> int \<Rightarrow> modex \<Rightarrow> modex res" where
  "horiz_loop [] p_off addr s = Inr s"
| "horiz_loop (v # buf) p_off addr s =
     and_then (build_write (addr + p_off * SCROLL_SIZE) v s)
       (if p_off - 1 < 0 then horiz_loop buf 3 (addr + 1) else horiz_loop buf (p_off - 1) addr)"

definition draw_horiz_line :: "(int \<Rightarrow> int \<Rightarrow> u8 list res) \<Rightarrow> int \<Rightarrow> modex \<Rightarrow> (int \<times> modex) res" where
  "draw_horiz_line horiz_line_fn y s =
     (if y < 0 \<or> y \<ge> SCROLL_Y_DIM then Inr (-1, s)
      else let y = y + show_y s
           in and_then (horiz_line_fn (show_x s) y) (\<lambda>buf.
              let addr = img3 s + show_x s div 4 + y * SCROLL_X_WIDTH;
                  p_off = 3 - show_x s mod 4
              in and_then (horiz_loop (take 320 buf) p_off addr s) (\<lambda>s. Inr (0, s))))"

section \<open>Pixels of the build buffer\<close>

text \<open>Where the logical pixel \<open>(x, y)\<close> is, and the pixels that the view window holds.\<close>

definition loc :: "modex \<Rightarrow> int \<Rightarrow> int \<Rightarrow> int" where
  "loc s x y = img3 s + (3 - x mod 4) * SCROLL_SIZE + x div 4 + y * SCROLL_X_WIDTH"

definition pixel :: "modex \<Rightarrow> int \<Rightarrow> int \<Rightarrow> u8" where
  "pixel s x y = build s (loc s x y)"

definition in_view :: "int \<Rightarrow> int \<Rightarrow> int \<Rightarrow> int \<Rightarrow> bool" where
  "in_view vx vy x y \<longleftrightarrow> vx \<le> x \<and> x < vx + SCROLL_X_DIM \<and> vy \<le> y \<and> y < vy + SCROLL_Y_DIM"

definition view_ok :: "modex \<Rightarrow> bool" where
  "view_ok s \<longleftrightarrow> img3 s = img3_off s + MEM_FENCE_WIDTH
     \<and> 0 \<le> img3_off s + show_x s div 4 + show_y s * SCROLL_X_WIDTH
     \<and> img3_off s + 3 * SCROLL_SIZE + (show_x s + SCROLL_X_DIM - 1) div 4
         + (show_y s + SCROLL_Y_DIM - 1) * SCROLL_X_WIDTH < BUILD_BUF_SIZE"

text \<open>An index of the buffer proper, not of a fence.\<close>

definition inner :: "int \<Rightarrow> bool" where
  "inner a \<longleftrightarrow> MEM_FENCE_WIDTH \<le> a \<and> a < MEM_FENCE_WIDTH + BUILD_BUF_SIZE"

lemma inner_in_build: "inner a \<Longrightarrow> in_build a"
  by (simp add: inner_def in_build_def)

lemma mod4_cases: "(x :: int) mod 4 = 0 \<or> x mod 4 = 1 \<or> x mod 4 = 2 \<or> x mod 4 = 3"
  by presburger

lemma inner_range:
  fixes off q q0 q1 y y0 p :: int
  assumes "0 \<le> off + q0 + y0 * 80" and "off + 3 * 14560 + q1 + (y0 + 182 - 1) * 80 < 78241"
    and "y0 \<le> y \<and> y < y0 + 182" and "q0 \<le> q" and "q \<le> q1" and "0 \<le> p" and "p \<le> 3"
  shows "256 \<le> off + 256 + p * 14560 + q + y * 80 \<and> off + 256 + p * 14560 + q + y * 80 < 256 + 78241"
proof -
  define d where "d = y - y0"
  have "y = y0 + d" "0 \<le> d" "d \<le> 181" using assms(3) by (simp_all add: d_def)
  then show ?thesis using assms by (simp add: algebra_simps)
qed

lemma loc_inner:
  assumes "view_ok s" and "in_view (show_x s) (show_y s) x y"
  shows "inner (loc s x y)"
proof -
  have d: "show_x s div 4 \<le> x div 4" "x div 4 \<le> (show_x s + 320 - 1) div 4"
    using assms(2) by (auto simp: in_view_def intro!: zdiv_mono1)
  have m: "0 \<le> 3 - x mod 4" "3 - x mod 4 \<le> 3" using mod4_cases [of x] by auto
  show ?thesis
    unfolding inner_def loc_def
    using inner_range [OF _ _ _ d m] assms by (auto simp: view_ok_def in_view_def)
qed

text \<open>Pixels of different planes are too far apart to meet.\<close>

lemma plane_gap: "(q :: int) \<le> 79 \<Longrightarrow> 1 \<le> r \<Longrightarrow> y \<le> 181 \<Longrightarrow> 14560 * r = q + 80 * y \<Longrightarrow> False"
  by linarith

lemma row_gap: "80 * d \<le> 79 \<Longrightarrow> - 79 \<le> 80 * d \<Longrightarrow> d = 0" for d :: int
  by simp

text \<open>Two pixels of the window never share a byte, although the planes are packed.\<close>

lemma loc_inj:
  assumes "in_view vx vy x y" and "in_view vx vy x' y'" and "loc s x y = loc s x' y'"
  shows "x = x'" and "y = y'"
proof -
  define q r q' r' where "q = x div 4" and "r = x mod 4" and "q' = x' div 4" and "r' = x' mod 4"
  have x: "x = 4 * q + r" "x' = 4 * q' + r'" and r: "0 \<le> r" "r < 4" "0 \<le> r'" "r' < 4"
    by (simp_all add: q_def r_def q'_def r'_def)
  have e: "(3 - r) * 14560 + q + y * 80 = (3 - r') * 14560 + q' + y' * 80"
    using assms(3) by (simp add: loc_def q_def r_def q'_def r'_def)
  have b: "4 * q + r - (4 * q' + r') < 320" "4 * q' + r' - (4 * q + r) < 320" "y - y' < 182" "y' - y < 182"
    using assms(1,2) x by (simp_all add: in_view_def)
  have "r = r'"
  proof (rule ccontr)
    assume "r \<noteq> r'"
    then consider "r + 1 \<le> r'" | "r' + 1 \<le> r" by linarith
    then show False
    proof cases
      case 1
      then have "q' - q \<le> 79" using b(2) by linarith
      moreover have "14560 * (r' - r) = (q' - q) + 80 * (y' - y)" using e by algebra
      ultimately show False using plane_gap [of "q' - q" "r' - r" "y' - y"] 1 b(4) by simp
    next
      case 2
      then have "q - q' \<le> 79" using b(1) by linarith
      moreover have "14560 * (r - r') = (q - q') + 80 * (y - y')" using e by algebra
      ultimately show False using plane_gap [of "q - q'" "r - r'" "y - y'"] 2 b(3) by simp
    qed
  qed
  moreover from this have "q + y * 80 = q' + y' * 80" using e by simp
  then have qy: "q - q' = 80 * (y' - y)" by algebra
  have "q - q' \<le> 79" "q' - q \<le> 79" using b(1,2) \<open>r = r'\<close> by linarith+
  then have "80 * (y' - y) \<le> 79" "- 79 \<le> 80 * (y' - y)" using qy by simp_all
  then have "y' - y = 0" by (rule row_gap)
  ultimately show "x = x'" "y = y'" using qy x by simp_all
qed


section \<open>Moving the window\<close>

text \<open>
  The copy loops are a simultaneous move of \<open>n\<close> bytes, because each direction is used only
  when it does not overwrite a byte before it is read.
\<close>

definition moved :: "int \<Rightarrow> int \<Rightarrow> int \<Rightarrow> (int \<Rightarrow> u8) \<Rightarrow> int \<Rightarrow> u8" where
  "moved target start n b a = (if target \<le> a \<and> a < target + n then b (start + (a - target)) else b a)"

definition span_ok :: "int \<Rightarrow> nat \<Rightarrow> bool" where
  "span_ok a n \<longleftrightarrow> (\<forall>i < n. in_build (a + int i))"

lemma copy_down:
  assumes "target \<le> start" and "span_ok start n" and "span_ok target n"
  shows "fold_res (copy_byte target start) [0..<n] s = Inr (s\<lparr>build := moved target start (int n) (build s)\<rparr>)"
  using assms(2,3)
proof (induction n)
  case 0
  have "moved target start 0 (build s) = build s" by (auto simp: moved_def fun_eq_iff)
  then show ?case by simp
next
  case (Suc n)
  let ?b = "moved target start (int n) (build s)"
  have k: "in_build (start + int n)" "in_build (target + int n)" using Suc.prems by (auto simp: span_ok_def)
  have "?b (start + int n) = build s (start + int n)" using assms(1) by (simp add: moved_def)
  then have "?b(target + int n := ?b (start + int n)) = moved target start (int (Suc n)) (build s)"
    by (auto simp: moved_def fun_eq_iff)
  moreover have "span_ok start n" "span_ok target n" using Suc.prems by (auto simp: span_ok_def)
  ultimately show ?case
    using Suc.IH k by (simp add: fold_res_append copy_byte_def build_write_def)
qed

lemma copy_up:
  assumes "start < target" and "span_ok start n" and "span_ok target n"
  shows "fold_res (copy_byte target start) (rev [0..<n]) s = Inr (s\<lparr>build := moved target start (int n) (build s)\<rparr>)"
  using assms(2,3)
proof (induction n arbitrary: s)
  case 0
  have "moved target start 0 (build s) = build s" by (auto simp: moved_def fun_eq_iff)
  then show ?case by simp
next
  case (Suc n)
  have k: "in_build (start + int n)" "in_build (target + int n)" using Suc.prems by (auto simp: span_ok_def)
  let ?s = "s\<lparr>build := (build s)(target + int n := build s (start + int n))\<rparr>"
  have "moved target start (int n) (build ?s) = moved target start (int (Suc n)) (build s)"
    using assms(1) by (auto simp: moved_def fun_eq_iff)
  moreover have "span_ok start n" "span_ok target n" using Suc.prems by (auto simp: span_ok_def)
  ultimately show ?case
    using Suc.IH [of ?s] k by (simp add: copy_byte_def build_write_def del: fun_upd_apply)
qed

text \<open>The result of \<open>set_view_window\<close>: the window is in the buffer, what both windows show is kept.\<close>

definition view_moved :: "int \<Rightarrow> int \<Rightarrow> modex \<Rightarrow> modex \<Rightarrow> bool" where
  "view_moved x y s t \<longleftrightarrow> view_ok t \<and> show_x t = x \<and> show_y t = y \<and> target_img t = target_img s \<and> vram t = vram s
     \<and> (\<forall>px py. in_view (show_x s) (show_y s) px py \<and> in_view x y px py \<longrightarrow> pixel t px py = pixel s px py)
     \<and> (\<forall>a. \<not> inner a \<longrightarrow> build t a = build s a)"

lemma view_fresh:
  fixes x y :: int
  assumes "off = 10000 - x div 4 - y * 80"
  shows "0 \<le> off + x div 4 + y * 80" and "off + 3 * 14560 + (x + 320 - 1) div 4 + (y + 182 - 1) * 80 < 78241"
proof -
  have "(x + 319) div 4 \<le> x div 4 + 80" by presburger
  then show "0 \<le> off + x div 4 + y * 80" "off + 3 * 14560 + (x + 320 - 1) div 4 + (y + 182 - 1) * 80 < 78241"
    using assms by simp_all
qed

text \<open>The offset of a pixel relative to the base pointer, and the range that is copied.\<close>

definition pix_off :: "int \<Rightarrow> int \<Rightarrow> int" where
  "pix_off x y = (3 - x mod 4) * SCROLL_SIZE + x div 4 + y * SCROLL_X_WIDTH"

lemma loc_pix_off: "loc s x y = img3 s + pix_off x y"
  by (simp add: loc_def pix_off_def)

lemma pix_off_range:
  assumes "x0 \<le> x" and "x \<le> x1" and "y0 \<le> y" and "y \<le> y1"
  shows "x0 div 4 + y0 * 80 \<le> pix_off x y" and "pix_off x y \<le> x1 div 4 + y1 * 80 + 3 * 14560"
proof -
  have d: "x0 div 4 \<le> x div 4" "x div 4 \<le> x1 div 4" using assms by (auto intro: zdiv_mono1)
  have m: "0 \<le> 3 - x mod 4" "3 - x mod 4 \<le> 3" using mod4_cases [of x] by auto
  have y: "y0 * 80 \<le> y * 80" "y * 80 \<le> y1 * 80" using assms by simp_all
  have p: "0 \<le> (3 - x mod 4) * 14560" "(3 - x mod 4) * 14560 \<le> 3 * 14560" using m by simp_all
  show "x0 div 4 + y0 * 80 \<le> pix_off x y" unfolding pix_off_def using d(1) y(1) p(1) by linarith
  show "pix_off x y \<le> x1 div 4 + y1 * 80 + 3 * 14560" unfolding pix_off_def using d(2) y(2) p(2) by simp
qed

lemma span_inner:
  fixes off so e :: int
  assumes "0 \<le> off + so" and "off + e < 78241" and "i < nat (e + 1 - so)"
  shows "inner (off + 256 + so + int i)"
proof -
  have "int i < e + 1 - so" using assms(3) by simp
  then show ?thesis using assms(1,2) by (simp add: inner_def)
qed

lemma set_view_window_copy:
  assumes ok: "view_ok s" and off: "off = BUILD_BASE_INIT - x div 4 - y * SCROLL_X_WIDTH"
    and sx: "sx = max x (show_x s)" "ex = min x (show_x s) + 319" and sy: "sy = max y (show_y s)" "ey = min y (show_y s) + 181"
    and so: "so = sx div 4 + sy * SCROLL_X_WIDTH" and e: "e = ex div 4 + ey * SCROLL_X_WIDTH + 3 * SCROLL_SIZE"
    and t: "t = s\<lparr>show_x := x, show_y := y, img3_off := off, img3 := off + MEM_FENCE_WIDTH,
      build := moved (off + MEM_FENCE_WIDTH + so) (img3 s + so) (int (nat (e + 1 - so))) (build s)\<rparr>"
  shows "view_moved x y s t" and "span_ok (img3 s + so) (nat (e + 1 - so))" and "span_ok (off + MEM_FENCE_WIDTH + so) (nat (e + 1 - so))"
proof -
  have i3: "img3 s = img3_off s + 256" using ok by (simp add: view_ok_def)
  have mono: "show_x s div 4 \<le> sx div 4" "x div 4 \<le> sx div 4" "ex div 4 \<le> (show_x s + 320 - 1) div 4" "ex div 4 \<le> (x + 320 - 1) div 4"
    using sx by (auto intro!: zdiv_mono1)
  have ym: "show_y s * 80 \<le> sy * 80" "y * 80 \<le> sy * 80" "ey * 80 \<le> (show_y s + 182 - 1) * 80" "ey * 80 \<le> (y + 182 - 1) * 80"
    using sy by simp_all
  note fresh = view_fresh [OF off]
  have old: "0 \<le> img3_off s + so" "img3_off s + e < 78241" using ok mono ym so e by (simp_all add: view_ok_def)
  have new: "0 \<le> off + so" "off + e < 78241" using fresh mono ym so e by simp_all
  show so1: "span_ok (img3 s + so) (nat (e + 1 - so))"
    using span_inner [OF old] by (auto simp: span_ok_def i3 inner_in_build add.assoc)
  show so2: "span_ok (off + 256 + so) (nat (e + 1 - so))"
    using span_inner [OF new] by (auto simp: span_ok_def inner_in_build)
  have "view_ok t" using fresh by (simp add: t view_ok_def)
  moreover have "pixel t px py = pixel s px py"
    if "in_view (show_x s) (show_y s) px py" "in_view x y px py" for px py
  proof -
    have "sx \<le> px" "px \<le> ex" "sy \<le> py" "py \<le> ey" using that sx sy by (auto simp: in_view_def)
    from pix_off_range [OF this] have o: "so \<le> pix_off px py" "pix_off px py \<le> e" using so e by simp_all
    then show ?thesis by (simp add: pixel_def loc_pix_off t moved_def add.commute)
  qed
  moreover have "build t a = build s a" if "\<not> inner a" for a
  proof -
    have "\<not> (off + 256 + so \<le> a \<and> a < off + 256 + so + int (nat (e + 1 - so)))"
    proof
      assume a: "off + 256 + so \<le> a \<and> a < off + 256 + so + int (nat (e + 1 - so))"
      then have "nat (a - (off + 256 + so)) < nat (e + 1 - so)" by linarith
      from span_inner [OF new this] a that show False by simp
    qed
    then show ?thesis by (auto simp: t moved_def simp del: int_nat_eq)
  qed
  ultimately show "view_moved x y s t" by (simp add: view_moved_def t)
qed

lemma set_view_window_moves:
  assumes ok: "view_ok s"
  shows "\<exists>t. set_view_window x y s = Inr t \<and> view_moved x y s t"
proof -
  let ?off = "BUILD_BASE_INIT - x div 4 - y * SCROLL_X_WIDTH"
  consider (fits) "img3_off s + x div 4 + y * SCROLL_X_WIDTH \<ge> 0
       \<and> img3_off s + 3 * SCROLL_SIZE + (x + SCROLL_X_DIM - 1) div 4 + (y + SCROLL_Y_DIM - 1) * SCROLL_X_WIDTH < BUILD_BUF_SIZE"
    | (apart) "\<not> (img3_off s + x div 4 + y * SCROLL_X_WIDTH \<ge> 0
       \<and> img3_off s + 3 * SCROLL_SIZE + (x + SCROLL_X_DIM - 1) div 4 + (y + SCROLL_Y_DIM - 1) * SCROLL_X_WIDTH < BUILD_BUF_SIZE)"
       "x \<le> show_x s - SCROLL_X_DIM \<or> x \<ge> show_x s + SCROLL_X_DIM \<or> y \<le> show_y s - SCROLL_Y_DIM \<or> y \<ge> show_y s + SCROLL_Y_DIM"
    | (overlap) "\<not> (img3_off s + x div 4 + y * SCROLL_X_WIDTH \<ge> 0
       \<and> img3_off s + 3 * SCROLL_SIZE + (x + SCROLL_X_DIM - 1) div 4 + (y + SCROLL_Y_DIM - 1) * SCROLL_X_WIDTH < BUILD_BUF_SIZE)"
       "\<not> (x \<le> show_x s - SCROLL_X_DIM \<or> x \<ge> show_x s + SCROLL_X_DIM \<or> y \<le> show_y s - SCROLL_Y_DIM \<or> y \<ge> show_y s + SCROLL_Y_DIM)"
    by blast
  then show ?thesis
  proof cases
    case fits
    let ?t = "s\<lparr>show_x := x, show_y := y\<rparr>"
    have "set_view_window x y s = Inr ?t" using fits by (simp add: set_view_window_def Let_def)
    moreover have "view_moved x y s ?t"
      using fits ok by (simp add: view_moved_def view_ok_def pixel_def loc_def)
    ultimately show ?thesis by blast
  next
    case apart
    let ?t = "s\<lparr>show_x := x, show_y := y, img3_off := ?off, img3 := ?off + MEM_FENCE_WIDTH\<rparr>"
    have "set_view_window x y s = Inr ?t"
      unfolding set_view_window_def Let_def using apart by auto
    moreover have "\<not> (in_view (show_x s) (show_y s) px py \<and> in_view x y px py)" for px py
      using apart(2) by (auto simp: in_view_def)
    then have "view_moved x y s ?t"
      using view_fresh [of ?off x y] by (auto simp: view_moved_def view_ok_def)
    ultimately show ?thesis by blast
  next
    case overlap
    define sx where "sx = max x (show_x s)" define ex where "ex = min x (show_x s) + 319"
    define sy where "sy = max y (show_y s)" define ey where "ey = min y (show_y s) + 181"
    define so where "so = sx div 4 + sy * SCROLL_X_WIDTH"
    define e where "e = ex div 4 + ey * SCROLL_X_WIDTH + 3 * SCROLL_SIZE"
    let ?s = "s\<lparr>show_x := x, show_y := y, img3_off := ?off, img3 := ?off + MEM_FENCE_WIDTH\<rparr>"
    let ?n = "nat (e + 1 - so)" and ?start = "img3 s + so" and ?target = "?off + MEM_FENCE_WIDTH + so"
    note c = set_view_window_copy [OF ok refl sx_def ex_def sy_def ey_def so_def e_def refl]
    have "set_view_window x y s =
        (if ?start < ?target then fold_res (copy_byte ?target ?start) (rev [0..<?n]) ?s else fold_res (copy_byte ?target ?start) [0..<?n] ?s)"
    proof -
      let ?u = "s\<lparr>show_x := x, show_y := y\<rparr>"
      have u: "img3_off ?u = img3_off s" "img3 ?u = img3 s" "show_x ?u = x" "show_y ?u = y"
        "img3 (?u\<lparr>img3_off := ?off, img3 := ?off + MEM_FENCE_WIDTH\<rparr>) = ?off + MEM_FENCE_WIDTH" by simp_all
      have p: "(if x > show_x s then (x, show_x s) else (show_x s, x)) = (sx, ex - 319)"
        "(if y > show_y s then (y, show_y s) else (show_y s, y)) = (sy, ey - 181)"
        "ex - 319 + (SCROLL_X_DIM - 1) = ex" "ey - 181 + (SCROLL_Y_DIM - 1) = ey"
        "ex div 4 + ey * SCROLL_X_WIDTH + 1 - so + 3 * SCROLL_SIZE = e + 1 - so"
        by (auto simp: sx_def ex_def sy_def ey_def e_def)
      show ?thesis
        unfolding set_view_window_def Let_def u if_not_P [OF overlap(1)] if_not_P [OF overlap(2)] p prod.case
          so_def [symmetric] p by (rule refl)
    qed
    also have "\<dots> = Inr (?s\<lparr>build := moved ?target ?start (int ?n) (build ?s)\<rparr>)"
      using copy_up [of ?start ?target ?n ?s] copy_down [of ?target ?start ?n ?s] c(2,3) by simp
    finally show ?thesis using c(1) by auto
  qed
qed


section \<open>Drawing lines\<close>

text \<open>Both loops store the buffer at the locations of a row or column of pixels.\<close>

definition stores :: "int list \<Rightarrow> u8 list \<Rightarrow> modex \<Rightarrow> modex res" where
  "stores as buf = fold_res (\<lambda>(a, v). build_write a v) (zip as buf)"

lemma loc_build [simp]: "loc (s\<lparr>build := b\<rparr>) x y = loc s x y"
  by (simp add: loc_def)

lemma vert_loop_stores:
  "vert_loop buf (loc s0 x y) s = stores (map (\<lambda>i. loc s0 x (y + int i)) [0..<length buf]) buf s"
proof (induction buf arbitrary: y s)
  case (Cons v buf)
  have "loc s0 x y + 80 = loc s0 x (y + 1)" by (simp add: loc_def)
  moreover have "map (\<lambda>i. loc s0 x (y + int i)) [0..<length (v # buf)] =
      loc s0 x y # map (\<lambda>i. loc s0 x (y + 1 + int i)) [0..<length buf]"
    by (simp add: map_upt_Suc ac_simps del: upt_Suc)
  ultimately show ?case using Cons.IH [of "y + 1"] by (simp add: stores_def and_then_def split: sum.splits)
qed (simp add: stores_def)

lemma mod4_step:
  fixes x :: int
  shows "3 - x mod 4 - 1 < 0 \<longleftrightarrow> x mod 4 = 3"
    and "x mod 4 = 3 \<Longrightarrow> (x + 1) mod 4 = 0 \<and> (x + 1) div 4 = x div 4 + 1"
    and "x mod 4 \<noteq> 3 \<Longrightarrow> (x + 1) mod 4 = x mod 4 + 1 \<and> (x + 1) div 4 = x div 4"
  by presburger+

lemma horiz_loop_stores:
  "horiz_loop buf (3 - x mod 4) (img3 s0 + x div 4 + y * 80) s =
     stores (map (\<lambda>i. loc s0 (x + int i) y) [0..<length buf]) buf s"
proof (induction buf arbitrary: x s)
  case (Cons v buf)
  have l: "img3 s0 + x div 4 + y * 80 + (3 - x mod 4) * 14560 = loc s0 x y" by (simp add: loc_def)
  have n: "(if 3 - x mod 4 - 1 < 0 then horiz_loop buf 3 (img3 s0 + x div 4 + y * 80 + 1)
      else horiz_loop buf (3 - x mod 4 - 1) (img3 s0 + x div 4 + y * 80)) =
      horiz_loop buf (3 - (x + 1) mod 4) (img3 s0 + (x + 1) div 4 + y * 80)"
    using mod4_step [of x] by (cases "x mod 4 = 3") (auto simp: algebra_simps)
  have "map (\<lambda>i. loc s0 (x + int i) y) [0..<length (v # buf)] =
      loc s0 x y # map (\<lambda>i. loc s0 (x + 1 + int i) y) [0..<length buf]"
    by (simp add: map_upt_Suc ac_simps del: upt_Suc)
  then show ?case
    unfolding horiz_loop.simps l n using Cons.IH [of "x + 1"]
    by (simp add: stores_def and_then_def split: sum.splits)
qed (simp add: stores_def)

lemma stores_eq:
  assumes "length as = length buf" and "distinct as" and "\<forall>a \<in> set as. in_build a"
  shows "\<exists>b. stores as buf s = Inr (s\<lparr>build := b\<rparr>) \<and> (\<forall>i < length as. b (as ! i) = buf ! i)
     \<and> (\<forall>a. a \<notin> set as \<longrightarrow> b a = build s a)"
  using assms
proof (induction as buf arbitrary: s rule: list_induct2)
  case Nil
  show ?case by (rule exI [of _ "build s"]) (simp add: stores_def)
next
  case (Cons a as v buf)
  then obtain b where b: "stores as buf (s\<lparr>build := (build s)(a := v)\<rparr>) = Inr (s\<lparr>build := b\<rparr>)"
    "\<forall>i < length as. b (as ! i) = buf ! i" "\<forall>x. x \<notin> set as \<longrightarrow> b x = ((build s)(a := v)) x"
    using Cons.IH [of "s\<lparr>build := (build s)(a := v)\<rparr>"] by auto
  have "b a = v" using b(3) Cons.prems(1) by simp
  then show ?case
    using b Cons.prems(2) by (intro exI [of _ b]) (auto simp: stores_def build_write_def nth_Cons' )
qed

text \<open>The effect of drawing pixels \<open>p i\<close>, all in the window and different.\<close>

lemma stores_pixels:
  assumes ok: "view_ok s" and n: "length buf = n"
    and inv: "\<And>i. i < n \<Longrightarrow> in_view (show_x s) (show_y s) (px i) (py i)"
    and inj: "\<And>i j. i < n \<Longrightarrow> j < n \<Longrightarrow> px i = px j \<Longrightarrow> py i = py j \<Longrightarrow> i = j"
  shows "\<exists>t. stores (map (\<lambda>i. loc s (px i) (py i)) [0..<n]) buf s = Inr t \<and> view_ok t
     \<and> show_x t = show_x s \<and> show_y t = show_y s \<and> vram t = vram s \<and> target_img t = target_img s
     \<and> (\<forall>i < n. pixel t (px i) (py i) = buf ! i)
     \<and> (\<forall>x y. in_view (show_x s) (show_y s) x y \<and> (\<forall>i < n. (x, y) \<noteq> (px i, py i)) \<longrightarrow> pixel t x y = pixel s x y)
     \<and> (\<forall>a. \<not> inner a \<longrightarrow> build t a = build s a)"
proof -
  let ?as = "map (\<lambda>i. loc s (px i) (py i)) [0..<n]"
  have d: "distinct ?as" using loc_inj inv inj by (auto simp: distinct_map inj_on_def) blast
  have i: "\<forall>a \<in> set ?as. inner a" using loc_inner [OF ok] inv by auto
  obtain b where b: "stores ?as buf s = Inr (s\<lparr>build := b\<rparr>)" "\<forall>i < n. b (loc s (px i) (py i)) = buf ! i"
    "\<forall>a. a \<notin> set ?as \<longrightarrow> b a = build s a"
    using stores_eq [of ?as buf s] d i n inner_in_build by auto
  let ?t = "s\<lparr>build := b\<rparr>"
  have "loc s x y \<notin> set ?as" if "in_view (show_x s) (show_y s) x y" "\<forall>i < n. (x, y) \<noteq> (px i, py i)" for x y
    using that inv loc_inj [OF that(1)] by fastforce
  moreover have "a \<notin> set ?as" if "\<not> inner a" for a using i that by blast
  ultimately show ?thesis
    using b ok by (intro exI [of _ ?t]) (auto simp: pixel_def view_ok_def)
qed

text \<open>
  What a drawing operation does: inside the window exactly the pixels of \<open>R\<close> change, to those of \<open>f\<close>,
  nothing outside the buffer proper is touched.
\<close>

definition drawn :: "modex \<Rightarrow> modex \<Rightarrow> (int \<Rightarrow> int \<Rightarrow> bool) \<Rightarrow> (int \<Rightarrow> int \<Rightarrow> u8) \<Rightarrow> bool" where
  "drawn s t R f \<longleftrightarrow> view_ok t \<and> show_x t = show_x s \<and> show_y t = show_y s \<and> vram t = vram s \<and> target_img t = target_img s
     \<and> (\<forall>x y. in_view (show_x s) (show_y s) x y \<longrightarrow> pixel t x y = (if R x y then f x y else pixel s x y))
     \<and> (\<forall>a. \<not> inner a \<longrightarrow> build t a = build s a)"

lemma drawn_refl: "view_ok s \<Longrightarrow> drawn s s (\<lambda>x y. False) f"
  by (simp add: drawn_def)

lemma drawn_trans: "drawn s t R f \<Longrightarrow> drawn t u R' f \<Longrightarrow> drawn s u (\<lambda>x y. R x y \<or> R' x y) f"
  by (simp add: drawn_def)

lemma drawn_cong:
  "drawn s t R f \<Longrightarrow> (\<And>x y. in_view (show_x s) (show_y s) x y \<Longrightarrow> R x y = R' x y \<and> (R x y \<longrightarrow> f x y = g x y)) \<Longrightarrow> drawn s t R' g"
  unfolding drawn_def by simp

lemma draw_horiz_line_draws:
  assumes ok: "view_ok s" and y: "0 \<le> y" "y < 182" and fn: "fn (show_x s) (y + show_y s) = Inr buf" and n: "length buf = 320"
  shows "\<exists>t. draw_horiz_line fn y s = Inr (0, t)
     \<and> drawn s t (\<lambda>px py. py = show_y s + y) (\<lambda>px py. buf ! nat (px - show_x s))"
proof -
  let ?px = "\<lambda>i. show_x s + int i" and ?py = "\<lambda>i :: nat. y + show_y s"
  have v: "in_view (show_x s) (show_y s) (?px i) (?py i)" if "i < 320" for i using y that by (simp add: in_view_def)
  obtain t where t: "stores (map (\<lambda>i. loc s (?px i) (?py i)) [0..<320]) buf s = Inr t" "view_ok t"
      "show_x t = show_x s" "show_y t = show_y s" "vram t = vram s" "target_img t = target_img s"
      "\<forall>i < 320. pixel t (?px i) (?py i) = buf ! i"
      "\<forall>px py. in_view (show_x s) (show_y s) px py \<and> (\<forall>i < 320. (px, py) \<noteq> (?px i, ?py i)) \<longrightarrow> pixel t px py = pixel s px py"
      "\<forall>a. \<not> inner a \<longrightarrow> build t a = build s a"
    using stores_pixels [OF ok n, of ?px ?py] v by auto
  have "draw_horiz_line fn y s = Inr (0, t)"
    using y fn n horiz_loop_stores [of buf "show_x s" s "y + show_y s" s] t(1) by (simp add: draw_horiz_line_def Let_def)
  moreover have "pixel t px py = (if py = show_y s + y then buf ! nat (px - show_x s) else pixel s px py)"
    if w: "in_view (show_x s) (show_y s) px py" for px py
  proof (cases "py = show_y s + y")
    case True
    have "nat (px - show_x s) < 320" "show_x s + int (nat (px - show_x s)) = px" using w by (auto simp: in_view_def)
    then show ?thesis using t(7) True by (metis add.commute)
  next
    case False
    then show ?thesis using t(8) w by auto
  qed
  ultimately show ?thesis using t by (auto simp: drawn_def)
qed

lemma draw_vert_line_draws:
  assumes ok: "view_ok s" and x: "0 \<le> x" "x < 320" and fn: "fn (x + show_x s) (show_y s) = Inr buf" and n: "length buf = 182"
  shows "\<exists>t. draw_vert_line fn x s = Inr (0, t)
     \<and> drawn s t (\<lambda>px py. px = show_x s + x) (\<lambda>px py. buf ! nat (py - show_y s))"
proof -
  let ?py = "\<lambda>i. show_y s + int i" and ?px = "\<lambda>i :: nat. x + show_x s"
  have v: "in_view (show_x s) (show_y s) (?px i) (?py i)" if "i < 182" for i using x that by (simp add: in_view_def)
  obtain t where t: "stores (map (\<lambda>i. loc s (?px i) (?py i)) [0..<182]) buf s = Inr t" "view_ok t"
      "show_x t = show_x s" "show_y t = show_y s" "vram t = vram s" "target_img t = target_img s"
      "\<forall>i < 182. pixel t (?px i) (?py i) = buf ! i"
      "\<forall>px py. in_view (show_x s) (show_y s) px py \<and> (\<forall>i < 182. (px, py) \<noteq> (?px i, ?py i)) \<longrightarrow> pixel t px py = pixel s px py"
      "\<forall>a. \<not> inner a \<longrightarrow> build t a = build s a"
    using stores_pixels [OF ok n, of ?px ?py] v by auto
  have "img3 s + (x + show_x s) div 4 + show_y s * 80 + (3 - (x + show_x s) mod 4) * 14560 = loc s (x + show_x s) (show_y s)"
    by (simp add: loc_def)
  then have "draw_vert_line fn x s = Inr (0, t)"
    using x fn n vert_loop_stores [of buf s "x + show_x s" "show_y s" s] t(1) by (simp add: draw_vert_line_def Let_def)
  moreover have "pixel t px py = (if px = show_x s + x then buf ! nat (py - show_y s) else pixel s px py)"
    if w: "in_view (show_x s) (show_y s) px py" for px py
  proof (cases "px = show_x s + x")
    case True
    have "nat (py - show_y s) < 182" "show_y s + int (nat (py - show_y s)) = py" using w by (auto simp: in_view_def)
    then show ?thesis using t(7) True by (metis add.commute)
  next
    case False
    then show ?thesis using t(8) w by auto
  qed
  ultimately show ?thesis using t by (auto simp: drawn_def)
qed

section \<open>The picture contract\<close>

text \<open>Loops of the game over lines of the window; the return values of the line functions are ignored.\<close>

definition draw_rows :: "(int \<Rightarrow> int \<Rightarrow> u8 list res) \<Rightarrow> int list \<Rightarrow> modex \<Rightarrow> modex res" where
  "draw_rows fn = fold_res (\<lambda>y s. and_then (draw_horiz_line fn y s) (\<lambda>p. Inr (snd p)))"

definition draw_cols :: "(int \<Rightarrow> int \<Rightarrow> u8 list res) \<Rightarrow> int list \<Rightarrow> modex \<Rightarrow> modex res" where
  "draw_cols fn = fold_res (\<lambda>x s. and_then (draw_vert_line fn x s) (\<lambda>p. Inr (snd p)))"

text \<open>The window shows the picture \<open>f\<close>.\<close>

definition shows_pic :: "(int \<Rightarrow> int \<Rightarrow> u8) \<Rightarrow> modex \<Rightarrow> bool" where
  "shows_pic f s \<longleftrightarrow> view_ok s \<and> (\<forall>x y. in_view (show_x s) (show_y s) x y \<longrightarrow> pixel s x y = f x y)"

lemma shows_drawn:
  assumes "drawn s t R f" and "\<And>x y. in_view (show_x s) (show_y s) x y \<Longrightarrow> R x y \<or> pixel s x y = f x y"
  shows "shows_pic f t"
  using assms by (auto simp: drawn_def shows_pic_def)

text \<open>
  What the callbacks promise: on the rows and columns of the picture of \<open>r\<close>, the line functions
  return the pixels of that picture. The lemmas give what every client draws with them.
\<close>

locale picture =
  fixes pic_ok :: "'r \<Rightarrow> bool" and pic :: "'r \<Rightarrow> int \<Rightarrow> int \<Rightarrow> u8"
    and is_row :: "'r \<Rightarrow> int \<Rightarrow> bool" and is_col :: "'r \<Rightarrow> int \<Rightarrow> bool"
    and horiz :: "'r \<Rightarrow> int \<Rightarrow> int \<Rightarrow> u8 list res" and vert :: "'r \<Rightarrow> int \<Rightarrow> int \<Rightarrow> u8 list res"
  assumes horiz_pic: "pic_ok r \<Longrightarrow> is_row r y \<Longrightarrow> horiz r x y = Inr (map (\<lambda>i. pic r (x + int i) y) [0..<320])"
    and vert_pic: "pic_ok r \<Longrightarrow> is_col r x \<Longrightarrow> vert r x y = Inr (map (\<lambda>i. pic r x (y + int i)) [0..<182])"
begin

lemma row_pic:
  assumes "pic_ok r" and "view_ok s" and "0 \<le> y" and "y < 182" and "is_row r (y + show_y s)"
  shows "\<exists>t. draw_horiz_line (horiz r) y s = Inr (0, t) \<and> drawn s t (\<lambda>px py. py = show_y s + y) (pic r)"
  using draw_horiz_line_draws [OF assms(2-4), of "horiz r", OF horiz_pic [OF assms(1,5)]]
  by (auto simp: in_view_def add.commute elim!: drawn_cong)

lemma col_pic:
  assumes "pic_ok r" and "view_ok s" and "0 \<le> x" and "x < 320" and "is_col r (x + show_x s)"
  shows "\<exists>t. draw_vert_line (vert r) x s = Inr (0, t) \<and> drawn s t (\<lambda>px py. px = show_x s + x) (pic r)"
  using draw_vert_line_draws [OF assms(2-4), of "vert r", OF vert_pic [OF assms(1,5)]]
  by (auto simp: in_view_def add.commute elim!: drawn_cong)

lemma rows_pic:
  assumes "pic_ok r" and "view_ok s" and "\<forall>y \<in> set ys. 0 \<le> y \<and> y < 182 \<and> is_row r (y + show_y s)"
  shows "\<exists>t. draw_rows (horiz r) ys s = Inr t \<and> drawn s t (\<lambda>px py. py - show_y s \<in> set ys) (pic r)"
  using assms(2,3)
proof (induction ys arbitrary: s)
  case Nil
  then show ?case using drawn_refl by (auto simp: draw_rows_def)
next
  case (Cons y ys)
  obtain t where t: "draw_horiz_line (horiz r) y s = Inr (0, t)" "drawn s t (\<lambda>px py. py = show_y s + y) (pic r)"
    using row_pic [OF assms(1) Cons.prems(1)] Cons.prems(2) by auto
  then have k: "show_y t = show_y s" "view_ok t" by (simp_all add: drawn_def)
  then obtain u where u: "draw_rows (horiz r) ys t = Inr u" "drawn t u (\<lambda>px py. py - show_y t \<in> set ys) (pic r)"
    using Cons.IH [of t] Cons.prems(2) by auto
  have "drawn s u (\<lambda>px py. py - show_y s \<in> set (y # ys)) (pic r)"
    using drawn_trans [OF t(2) u(2)] by (rule drawn_cong) (auto simp: k)
  then show ?case using t(1) u(1) by (auto simp: draw_rows_def)
qed

lemma cols_pic:
  assumes "pic_ok r" and "view_ok s" and "\<forall>x \<in> set xs. 0 \<le> x \<and> x < 320 \<and> is_col r (x + show_x s)"
  shows "\<exists>t. draw_cols (vert r) xs s = Inr t \<and> drawn s t (\<lambda>px py. px - show_x s \<in> set xs) (pic r)"
  using assms(2,3)
proof (induction xs arbitrary: s)
  case Nil
  then show ?case using drawn_refl by (auto simp: draw_cols_def)
next
  case (Cons x xs)
  obtain t where t: "draw_vert_line (vert r) x s = Inr (0, t)" "drawn s t (\<lambda>px py. px = show_x s + x) (pic r)"
    using col_pic [OF assms(1) Cons.prems(1)] Cons.prems(2) by auto
  then have k: "show_x t = show_x s" "view_ok t" by (simp_all add: drawn_def)
  then obtain u where u: "draw_cols (vert r) xs t = Inr u" "drawn t u (\<lambda>px py. px - show_x t \<in> set xs) (pic r)"
    using Cons.IH [of t] Cons.prems(2) by auto
  have "drawn s u (\<lambda>px py. px - show_x s \<in> set (x # xs)) (pic r)"
    using drawn_trans [OF t(2) u(2)] by (rule drawn_cong) (auto simp: k)
  then show ?case using t(1) u(1) by (auto simp: draw_cols_def)
qed

text \<open>Drawing all rows shows the whole picture, whatever the buffer held.\<close>

lemma redraw_pic:
  assumes "pic_ok r" and "view_ok s" and "\<forall>y. show_y s \<le> y \<and> y < show_y s + 182 \<longrightarrow> is_row r y"
  shows "\<exists>t. draw_rows (horiz r) [0..181] s = Inr t \<and> shows_pic (pic r) t \<and> drawn s t (\<lambda>x y. True) (pic r)"
proof -
  have "\<forall>y \<in> set [0..181]. 0 \<le> y \<and> y < 182 \<and> is_row r (y + show_y s)" using assms(3) by auto
  from rows_pic [OF assms(1,2) this] obtain t where t: "draw_rows (horiz r) [0..181] s = Inr t"
    "drawn s t (\<lambda>px py. py - show_y s \<in> set [0..181]) (pic r)" by blast
  have "drawn s t (\<lambda>x y. True) (pic r)" using t(2) by (rule drawn_cong) (auto simp: in_view_def)
  then show ?thesis using t(1) shows_drawn by blast
qed

text \<open>After a scroll, drawing the newly exposed rows or columns shows the whole picture again.\<close>

lemma scroll_rows:
  assumes "pic_ok r" and "shows_pic (pic r) s" and "x = show_x s"
    and "\<forall>i \<in> set ys. 0 \<le> i \<and> i < 182 \<and> is_row r (i + y)"
    and "\<forall>py. y \<le> py \<and> py < y + 182 \<and> \<not> (show_y s \<le> py \<and> py < show_y s + 182) \<longrightarrow> py - y \<in> set ys"
  shows "\<exists>t. and_then (set_view_window x y s) (draw_rows (horiz r) ys) = Inr t \<and> shows_pic (pic r) t
     \<and> show_x t = x \<and> show_y t = y \<and> vram t = vram s \<and> target_img t = target_img s \<and> (\<forall>a. \<not> inner a \<longrightarrow> build t a = build s a)"
proof -
  obtain u where u: "set_view_window x y s = Inr u" "view_moved x y s u"
    using set_view_window_moves assms(2) unfolding shows_pic_def by blast
  then have k: "show_x u = x" "show_y u = y" "view_ok u" by (simp_all add: view_moved_def)
  obtain t where t: "draw_rows (horiz r) ys u = Inr t" "drawn u t (\<lambda>px py. py - show_y u \<in> set ys) (pic r)"
    using rows_pic [OF assms(1) k(3), of ys] assms(4) k(2) by auto
  have "shows_pic (pic r) t"
  proof (rule shows_drawn [OF t(2)])
    fix px py assume v: "in_view (show_x u) (show_y u) px py"
    show "py - show_y u \<in> set ys \<or> pixel u px py = pic r px py"
    proof (cases "show_y s \<le> py \<and> py < show_y s + 182")
      case True
      then have "in_view (show_x s) (show_y s) px py" using v assms(3) k by (simp add: in_view_def)
      then show ?thesis using u(2) v assms(2) k by (simp add: view_moved_def shows_pic_def)
    qed (use v assms(5) k in \<open>auto simp: in_view_def\<close>)
  qed
  then show ?thesis using u t k by (auto simp: drawn_def view_moved_def)
qed

lemma scroll_cols:
  assumes "pic_ok r" and "shows_pic (pic r) s" and "y = show_y s"
    and "\<forall>i \<in> set xs. 0 \<le> i \<and> i < 320 \<and> is_col r (i + x)"
    and "\<forall>px. x \<le> px \<and> px < x + 320 \<and> \<not> (show_x s \<le> px \<and> px < show_x s + 320) \<longrightarrow> px - x \<in> set xs"
  shows "\<exists>t. and_then (set_view_window x y s) (draw_cols (vert r) xs) = Inr t \<and> shows_pic (pic r) t
     \<and> show_x t = x \<and> show_y t = y \<and> vram t = vram s \<and> target_img t = target_img s \<and> (\<forall>a. \<not> inner a \<longrightarrow> build t a = build s a)"
proof -
  obtain u where u: "set_view_window x y s = Inr u" "view_moved x y s u"
    using set_view_window_moves assms(2) unfolding shows_pic_def by blast
  then have k: "show_x u = x" "show_y u = y" "view_ok u" by (simp_all add: view_moved_def)
  obtain t where t: "draw_cols (vert r) xs u = Inr t" "drawn u t (\<lambda>px py. px - show_x u \<in> set xs) (pic r)"
    using cols_pic [OF assms(1) k(3), of xs] assms(4) k(1) by auto
  have "shows_pic (pic r) t"
  proof (rule shows_drawn [OF t(2)])
    fix px py assume v: "in_view (show_x u) (show_y u) px py"
    show "px - show_x u \<in> set xs \<or> pixel u px py = pic r px py"
    proof (cases "show_x s \<le> px \<and> px < show_x s + 320")
      case True
      then have "in_view (show_x s) (show_y s) px py" using v assms(3) k by (simp add: in_view_def)
      then show ?thesis using u(2) v assms(2) k by (simp add: view_moved_def shows_pic_def)
    qed (use v assms(5) k in \<open>auto simp: in_view_def\<close>)
  qed
  then show ?thesis using u t k by (auto simp: drawn_def view_moved_def)
qed

end

section \<open>Showing the window\<close>

lemma init_view_fields:
  "show_x (init_view s) = 0" "show_y (init_view s) = 0" "img3_off (init_view s) = 10000" "img3 (init_view s) = 10256"
  "target_img (init_view s) = 5760" "vram (init_view s) = vram s"
proof -
  have k: "show_x (fold (\<lambda>i. fence_step (int i)) is s) = show_x s \<and> show_y (fold (\<lambda>i. fence_step (int i)) is s) = show_y s
     \<and> img3_off (fold (\<lambda>i. fence_step (int i)) is s) = img3_off s \<and> img3 (fold (\<lambda>i. fence_step (int i)) is s) = img3 s
     \<and> vram (fold (\<lambda>i. fence_step (int i)) is s) = vram s" for "is" s
    by (induction "is" arbitrary: s) (simp_all add: fence_step_def)
  show "show_x (init_view s) = 0" "show_y (init_view s) = 0" "img3_off (init_view s) = 10000" "img3 (init_view s) = 10256"
    "target_img (init_view s) = 5760" "vram (init_view s) = vram s"
    by (simp_all add: init_view_def Let_def k del: upt_rec_numeral)
qed

lemma fence_fold:
  "build (fold (\<lambda>i. fence_step (int i)) [0..<n] s) a =
     (if 0 \<le> a \<and> a < int n \<or> BUILD_BUF_SIZE + MEM_FENCE_WIDTH \<le> a \<and> a < BUILD_BUF_SIZE + MEM_FENCE_WIDTH + int n then 0xF3 else build s a)"
  by (induction n) (auto simp: fence_step_def)

lemma init_view_fences: "fence_report (init_view s) = []"
  unfolding fence_report_def by (auto simp: init_view_def Let_def fence_fold simp del: upt_rec_numeral)

lemma init_view_ok: "view_ok (init_view s)"
  by (simp add: view_ok_def init_view_fields)

lemma fence_report_cong:
  assumes "\<forall>a. \<not> inner a \<longrightarrow> build t a = build s a"
  shows "fence_report t = fence_report s"
proof -
  have "build t (int i) = build s (int i)" "build t (BUILD_BUF_SIZE + MEM_FENCE_WIDTH + int i) = build s (BUILD_BUF_SIZE + MEM_FENCE_WIDTH + int i)"
    if "i \<in> {0..<256}" for i using assms that by (auto simp: inner_def)
  then show ?thesis by (simp add: fence_report_def)
qed

text \<open>The mask register selects plane \<open>i\<close>.\<close>

lemma write_mask_bit: "i < 4 \<Longrightarrow> bit (write_mask (SET_WRITE_MASK (push_bit (i + 8) 1) s)) (8 + p) \<longleftrightarrow> p = i"
proof -
  assume i: "i < 4"
  have "i = 0 \<or> i = 1 \<or> i = 2 \<or> i = 3" using i by linarith
  then have "bit (0xFF00 :: u16) (8 + i)" by auto
  moreover have "\<not> bit (2 :: u16) (8 + p)" by (simp add: bit_2_iff)
  ultimately show ?thesis using i by (auto simp: SET_WRITE_MASK_def Let_def bit_simps bit_exp_iff)
qed

lemma source_plane:
  fixes x i :: int
  assumes "0 \<le> i" and "i < 4"
  shows "((3 - x mod 4 - i + 4) mod 4) * 14560 + (if 3 - x mod 4 < i then 1 else 0) + x div 4 + q =
     (3 - (x + (4 * q + i)) mod 4) * 14560 + (x + (4 * q + i)) div 4"
proof -
  define a r where "a = x div 4" and "r = x mod 4"
  have x: "x = 4 * a + r" and r: "r = 0 \<or> r = 1 \<or> r = 2 \<or> r = 3" using mod4_cases [of x] by (simp_all add: a_def r_def)
  have i: "i = 0 \<or> i = 1 \<or> i = 2 \<or> i = 3" using assms by linarith
  have e: "x + (4 * q + i) = 4 * (a + q) + (r + i)" using x by simp
  have d: "(4 * (a + q) + k) div 4 = a + q + k div 4" "(4 * (a + q) + k) mod 4 = k mod 4" for k by presburger+
  show ?thesis
    unfolding e d a_def [symmetric] r_def [symmetric] using r i by (elim disjE) simp_all
qed

text \<open>What one pass of the loop of \<open>show_screen\<close> does to video memory.\<close>

definition shown_plane :: "int \<Rightarrow> int \<Rightarrow> int \<Rightarrow> nat \<Rightarrow> modex \<Rightarrow> modex \<Rightarrow> bool" where
  "shown_plane addr p_off tgt i s t \<longleftrightarrow> build t = build s \<and> img3 t = img3 s \<and> img3_off t = img3_off s
     \<and> show_x t = show_x s \<and> show_y t = show_y s \<and> target_img t = target_img s
     \<and> vram t = (\<lambda>p a. if p = i \<and> tgt \<le> a \<and> a < tgt + 14560
          then build s (addr + ((p_off - int i + 4) mod 4) * 14560 + (if p_off < int i then 1 else 0) + (a - tgt)) else vram s p a)"

lemma plane_sum:
  fixes a b c d d' i j jd jm y :: int
  assumes "a + b + d + jm = c + d'" and "j = 80 * jd + jm"
  shows "i + d + y * 80 + a + b + j = i + c + d' + (y + jd) * 80"
  using assms by (simp add: algebra_simps)

lemma view_source:
  assumes ok: "view_ok s" and i: "i < 4" and j: "0 \<le> j" "j < 14560"
  shows "img3 s + show_x s div 4 + show_y s * 80 + ((3 - show_x s mod 4 - int i + 4) mod 4) * 14560
      + (if 3 - show_x s mod 4 < int i then 1 else 0) + j = loc s (show_x s + (4 * (j mod 80) + int i)) (show_y s + j div 80)"
    and "in_view (show_x s) (show_y s) (show_x s + (4 * (j mod 80) + int i)) (show_y s + j div 80)"
proof -
  have e: "((3 - show_x s mod 4 - int i + 4) mod 4) * 14560 + (if 3 - show_x s mod 4 < int i then 1 else 0) + show_x s div 4 + j mod 80
     = (3 - (show_x s + (4 * (j mod 80) + int i)) mod 4) * 14560 + (show_x s + (4 * (j mod 80) + int i)) div 4"
    using i by (intro source_plane) simp_all
  have "j = 80 * (j div 80) + j mod 80" by simp
  then show "img3 s + show_x s div 4 + show_y s * 80 + ((3 - show_x s mod 4 - int i + 4) mod 4) * 14560
      + (if 3 - show_x s mod 4 < int i then 1 else 0) + j = loc s (show_x s + (4 * (j mod 80) + int i)) (show_y s + j div 80)"
    unfolding loc_def using plane_sum [OF e] by blast
  have "0 \<le> j mod 80" "j mod 80 < 80" "0 \<le> j div 80" "j div 80 < 182" using j by auto
  then show "in_view (show_x s) (show_y s) (show_x s + (4 * (j mod 80) + int i)) (show_y s + j div 80)"
    using i by (simp add: in_view_def)
qed

lemma view_source_in_build:
  "view_ok s \<Longrightarrow> i < 4 \<Longrightarrow> 0 \<le> j \<Longrightarrow> j < 14560 \<Longrightarrow>
     in_build (img3 s + show_x s div 4 + show_y s * 80 + ((3 - show_x s mod 4 - int i + 4) mod 4) * 14560
      + (if 3 - show_x s mod 4 < int i then 1 else 0) + j)"
  using view_source [of s i j] loc_inner inner_in_build by simp

lemma show_plane_eq:
  assumes "view_ok s" and "i < 4" and "addr = img3 s + show_x s div 4 + show_y s * 80" and "p = 3 - show_x s mod 4"
  shows "\<exists>t. show_plane addr p i s = Inr t \<and> shown_plane addr p (uint (target_img s)) i s t"
proof -
  let ?img = "addr + ((p - int i + 4) mod 4) * 14560 + (if p < int i then 1 else 0)"
  let ?s = "SET_WRITE_MASK (push_bit (i + 8) 1) s"
  have "in_build ?img" "in_build (?img + 14559)"
    using view_source_in_build [OF assms(1,2), of 0] view_source_in_build [OF assms(1,2), of 14559] assms(3,4) by simp_all
  moreover have "uint (target_img s) < 65536" using uint_lt2p [of "target_img s"] by simp
  ultimately have "show_plane addr p i s = Inr (vram_store (uint (target_img s)) 14560 (\<lambda>j. build s (?img + j)) ?s)"
    by (simp add: show_plane_def copy_image_def SET_WRITE_MASK_def Let_def)
  moreover have "shown_plane addr p (uint (target_img s)) i s (vram_store (uint (target_img s)) 14560 (\<lambda>j. build s (?img + j)) ?s)"
    using write_mask_bit [OF assms(2), of s] unfolding shown_plane_def vram_store_def
    by (simp add: SET_WRITE_MASK_def Let_def fun_eq_iff)
  ultimately show ?thesis by blast
qed

lemma show_planes:
  assumes ok: "view_ok s" and "n \<le> 4" and a: "addr = img3 s + show_x s div 4 + show_y s * 80" "p = 3 - show_x s mod 4"
  shows "\<exists>t. fold_res (show_plane addr p) [0..<n] s = Inr t \<and> build t = build s \<and> img3 t = img3 s \<and> img3_off t = img3_off s
     \<and> show_x t = show_x s \<and> show_y t = show_y s \<and> target_img t = target_img s
     \<and> vram t = (\<lambda>q b. let j = b - uint (target_img s) in if q < n \<and> 0 \<le> j \<and> j < 14560
          then pixel s (show_x s + (4 * (j mod 80) + int q)) (show_y s + j div 80) else vram s q b)"
  using assms(2)
proof (induction n)
  case 0
  show ?case by (rule exI [of _ s]) simp
next
  case (Suc n)
  then obtain t where t: "fold_res (show_plane addr p) [0..<n] s = Inr t" "build t = build s" "img3 t = img3 s" "img3_off t = img3_off s"
     "show_x t = show_x s" "show_y t = show_y s" "target_img t = target_img s"
     "vram t = (\<lambda>q b. let j = b - uint (target_img s) in if q < n \<and> 0 \<le> j \<and> j < 14560
          then pixel s (show_x s + (4 * (j mod 80) + int q)) (show_y s + j div 80) else vram s q b)" by auto
  have ok': "view_ok t" using ok t by (simp add: view_ok_def)
  from show_plane_eq [OF ok', of n addr p] Suc.prems a t
  obtain u where u: "show_plane addr p n t = Inr u" "shown_plane addr p (uint (target_img s)) n t u" by auto
  have "vram u q b = (let j = b - uint (target_img s) in if q < Suc n \<and> 0 \<le> j \<and> j < 14560
          then pixel s (show_x s + (4 * (j mod 80) + int q)) (show_y s + j div 80) else vram s q b)" for q b
  proof (cases "q = n \<and> uint (target_img s) \<le> b \<and> b < uint (target_img s) + 14560")
    case True
    then have j: "0 \<le> b - uint (target_img s)" "b - uint (target_img s) < 14560" by simp_all
    have "vram u q b = build s (loc s (show_x s + (4 * ((b - uint (target_img s)) mod 80) + int n)) (show_y s + (b - uint (target_img s)) div 80))"
      unfolding view_source(1) [OF ok _ j, of n, symmetric]
      using True u(2) Suc.prems t(2) a view_source(1) [OF ok _ j, of n] by (simp add: shown_plane_def)
    then show ?thesis using True by (simp add: pixel_def Let_def)
  next
    case False
    then show ?thesis using u(2) t(8) by (auto simp: shown_plane_def Let_def less_Suc_eq)
  qed
  then have "vram u = (\<lambda>q b. let j = b - uint (target_img s) in if q < Suc n \<and> 0 \<le> j \<and> j < 14560
          then pixel s (show_x s + (4 * (j mod 80) + int q)) (show_y s + j div 80) else vram s q b)" by blast
  then show ?case using t u by (auto simp: fold_res_append shown_plane_def)
qed

text \<open>
  The start address of the display in the CRT controller: indexed registers 0x0C (high byte) and
  0x0D (low byte), written through port 0x3D4.
\<close>

definition crtc_write :: "u16 \<times> u16 \<Rightarrow> u16 \<Rightarrow> u16" where
  "crtc_write pv r =
     (if fst pv = 0x3D4 then
        (if snd pv AND 0xFF = 0x0C then (r AND 0xFF) OR (snd pv AND 0xFF00)
         else if snd pv AND 0xFF = 0x0D then (r AND 0xFF00) OR drop_bit 8 (snd pv) else r)
      else r)"

definition crtc_start :: "(u16 \<times> u16) list \<Rightarrow> u16" where
  "crtc_start ps = fold crtc_write ps 0"

lemma u16_byte_bits:
  "bit (0xFF :: u16) n \<longleftrightarrow> n < 8" "bit (0xFF00 :: u16) n \<longleftrightarrow> 8 \<le> n \<and> n < 16"
  "bit (0x0C :: u16) n \<longleftrightarrow> n = 2 \<or> n = 3" "bit (0x0D :: u16) n \<longleftrightarrow> n = 0 \<or> n = 2 \<or> n = 3"
proof -
  have e: "(0xFF :: u16) = mask 8" "(0xFF00 :: u16) = push_bit 8 (mask 8)"
    "(0x0C :: u16) = push_bit 2 (mask 2)" "(0x0D :: u16) = push_bit 2 (mask 2) OR 1"
    by (simp_all add: mask_eq_exp_minus_1 push_bit_eq_mult)
  show "bit (0xFF :: u16) n \<longleftrightarrow> n < 8" unfolding e(1) by (auto simp: bit_mask_iff)
  show "bit (0xFF00 :: u16) n \<longleftrightarrow> 8 \<le> n \<and> n < 16" unfolding e(2) bit_push_bit_iff bit_mask_iff by auto
  show "bit (0x0C :: u16) n \<longleftrightarrow> n = 2 \<or> n = 3" unfolding e(3) bit_push_bit_iff bit_mask_iff by auto
  show "bit (0x0D :: u16) n \<longleftrightarrow> n = 0 \<or> n = 2 \<or> n = 3" unfolding e(4) bit_or_iff bit_push_bit_iff bit_mask_iff bit_1_iff by auto
qed

lemma crtc_start_set:
  "crtc_start (ps @ [(0x3D4, (t AND 0xFF00) OR 0x0C), (0x3D4, push_bit 8 (t AND 0xFF) OR 0x0D)]) = t"
proof -
  have "((t AND 0xFF00) OR 0x0C) AND 0xFF = 0x0C" "(push_bit 8 (t AND 0xFF) OR 0x0D) AND 0xFF = 0x0D"
    "((t AND 0xFF00) OR 0x0C) AND 0xFF00 = t AND 0xFF00"
    "(((r AND 0xFF) OR (t AND 0xFF00)) AND 0xFF00) OR drop_bit 8 (push_bit 8 (t AND 0xFF) OR 0x0D) = t" for r
    by (rule bit_word_eqI, unfold bit_and_iff bit_or_iff bit_push_bit_iff bit_drop_bit_eq comp_def u16_byte_bits, auto)+
  then show ?thesis by (simp add: crtc_start_def crtc_write_def)
qed

lemma show_screen_eq:
  assumes ok: "view_ok s"
  shows "\<exists>t. show_screen s = Inr t \<and> build t = build s \<and> view_ok t \<and> img3 t = img3 s \<and> show_x t = show_x s \<and> show_y t = show_y s
     \<and> target_img t = target_img s XOR 0x4000 \<and> crtc_start (ports t) = target_img t
     \<and> vram t = (\<lambda>q b. let j = b - uint (target_img t) in if q < 4 \<and> 0 \<le> j \<and> j < 14560
          then pixel s (show_x s + (4 * (j mod 80) + int q)) (show_y s + j div 80) else vram s q b)"
proof -
  let ?s = "s\<lparr>target_img := target_img s XOR 0x4000\<rparr>"
  have ok': "view_ok ?s" using ok by (simp add: view_ok_def)
  obtain u where u: "fold_res (show_plane (img3 s + show_x s div 4 + show_y s * 80) (3 - show_x s mod 4)) [0..<4] ?s = Inr u"
    "build u = build s" "img3 u = img3 s" "img3_off u = img3_off s" "show_x u = show_x s" "show_y u = show_y s"
    "target_img u = target_img s XOR 0x4000"
    "vram u = (\<lambda>q b. let j = b - uint (target_img s XOR 0x4000) in if q < 4 \<and> 0 \<le> j \<and> j < 14560
          then pixel ?s (show_x ?s + (4 * (j mod 80) + int q)) (show_y ?s + j div 80) else vram ?s q b)"
    using show_planes [OF ok', of 4, OF _ refl refl] by (auto simp: Let_def simp del: upt_rec_numeral)
  have p: "pixel ?s x y = pixel s x y" for x y by (simp add: pixel_def loc_def)
  let ?t = "OUTW 0x3D4 (push_bit 8 (target_img u AND 0xFF) OR 0x0D) (OUTW 0x3D4 ((target_img u AND 0xFF00) OR 0x0C) u)"
  have "show_screen s = Inr ?t" using u(1) by (simp add: show_screen_def Let_def del: upt_rec_numeral)
  moreover have "crtc_start (ports ?t) = target_img u" using crtc_start_set [of "ports u" "target_img u"] by (simp add: OUTW_def)
  moreover have "view_ok ?t" using ok u(3-6) by (simp add: view_ok_def OUTW_def)
  ultimately show ?thesis using u by (intro exI [of _ ?t]) (simp add: OUTW_def p Let_def fun_eq_iff)
qed

section \<open>Properties\<close>

definition modex_example :: modex where
  "modex_example = \<lparr>build = (\<lambda>a. word_of_int a), img3_off = 0, img3 = 0, show_x = 0, show_y = 0, target_img = 0,
     write_mask = 0, vram = (\<lambda>p a. 0), ports = []\<rparr>"

text \<open>
  C6. Moving the view window never leaves the build buffer and keeps what both windows show: from a
  window that lies in the buffer, \<open>set_view_window\<close> returns for every new position, the new
  window lies in the buffer, every pixel of the picture that is in both windows is still at its
  place, the fences are as they were and video memory is untouched.
\<close>

theorem set_view_window_keeps_picture:
  assumes "view_ok s"
  shows "\<exists>t. set_view_window x y s = Inr t \<and> view_ok t \<and> show_x t = x \<and> show_y t = y
     \<and> (\<forall>px py. in_view (show_x s) (show_y s) px py \<and> in_view x y px py \<longrightarrow> pixel t px py = pixel s px py)
     \<and> fence_report t = fence_report s \<and> vram t = vram s \<and> target_img t = target_img s"
  using set_view_window_moves [OF assms, of x y] fence_report_cong by (auto simp: view_moved_def)

theorem set_view_window_keeps_picture_witness:
  "\<exists>t. set_view_window 700 (-3) (init_view modex_example) = Inr t \<and> view_ok t \<and> show_x t = 700 \<and> show_y t = -3
     \<and> fence_report t = []"
  using set_view_window_keeps_picture [OF init_view_ok, of 700 "-3" modex_example] by (auto simp: init_view_fences)

text \<open>
  C7. \<open>show_screen\<close> displays the view window: it draws the page that is not on display, so that the
  pixel in column \<open>x\<close> and row \<open>y\<close> of the screen is the pixel \<open>(show_x + x, show_y + y)\<close> of the
  picture, whatever the alignment of \<open>show_x\<close> is, then points the CRT controller at that page. The
  page on display until then, the status bar and all other video memory are not touched.
\<close>

theorem show_screen_displays:
  assumes "view_ok s" and "target_img s = 5760 \<or> target_img s = 22144"
  shows "\<exists>t. show_screen s = Inr t \<and> target_img t = (if target_img s = 5760 then 22144 else 5760)
     \<and> crtc_start (ports t) = target_img t \<and> view_ok t
     \<and> (\<forall>x y. 0 \<le> x \<and> x < 320 \<and> 0 \<le> y \<and> y < 182 \<longrightarrow>
          vram t (nat (x mod 4)) (uint (target_img t) + y * 80 + x div 4) = pixel s (show_x s + x) (show_y s + y))
     \<and> (\<forall>p a. (0 \<le> a \<and> a < 1440 \<or> uint (target_img s) \<le> a \<and> a < uint (target_img s) + 14560) \<longrightarrow> vram t p a = vram s p a)
     \<and> (\<forall>x y. pixel t x y = pixel s x y)"
proof -
  obtain t where t: "show_screen s = Inr t" "build t = build s" "view_ok t" "img3 t = img3 s" "target_img t = target_img s XOR 0x4000"
    "crtc_start (ports t) = target_img t"
    "vram t = (\<lambda>q b. let j = b - uint (target_img t) in if q < 4 \<and> 0 \<le> j \<and> j < 14560
          then pixel s (show_x s + (4 * (j mod 80) + int q)) (show_y s + j div 80) else vram s q b)"
    using show_screen_eq [OF assms(1)] by blast
  have tgt: "target_img t = (if target_img s = 5760 then 22144 else 5760)" using t(5) assms(2) by auto
  have at: "vram t (nat m) (uint (target_img t) + y * 80 + q) = pixel s (show_x s + (4 * q + m)) (show_y s + y)"
    if "0 \<le> q" "q < 80" "0 \<le> m" "m < 4" "0 \<le> y" "y < 182" for q m y
  proof -
    have "(y * 80 + q) div 80 = y" "(y * 80 + q) mod 80 = q"
      using that int_div_pos_eq [of "y * 80 + q" 80 y q] int_mod_pos_eq [of "y * 80 + q" 80 y q] by simp_all
    moreover have "nat m < 4" using that by linarith
    ultimately show ?thesis using that t(7) by (simp add: Let_def)
  qed
  have "vram t (nat (x mod 4)) (uint (target_img t) + y * 80 + x div 4) = pixel s (show_x s + x) (show_y s + y)"
    if "0 \<le> x \<and> x < 320 \<and> 0 \<le> y \<and> y < 182" for x y
  proof -
    have "0 \<le> x div 4" "x div 4 < 80" "0 \<le> x mod 4" "x mod 4 < 4" "4 * (x div 4) + x mod 4 = x" using that by auto
    with at [of "x div 4" "x mod 4" y] that show ?thesis by simp
  qed
  moreover have "pixel t x y = pixel s x y" for x y using t(2,4) by (simp add: pixel_def loc_def)
  moreover have "vram t p a = vram s p a"
    if "0 \<le> a \<and> a < 1440 \<or> uint (target_img s) \<le> a \<and> a < uint (target_img s) + 14560" for p a
    using that t(7) tgt assms(2) by (auto simp: Let_def)
  ultimately show ?thesis using t(1,3,6) tgt by blast
qed

theorem show_screen_displays_witness:
  "\<exists>t. show_screen (init_view modex_example) = Inr t \<and> crtc_start (ports t) = 22144
     \<and> vram t 1 (22144 + 2 * 80 + 1) = pixel (init_view modex_example) 5 2"
proof -
  obtain t where t: "show_screen (init_view modex_example) = Inr t" "target_img t = 22144" "crtc_start (ports t) = target_img t"
    "\<forall>x y. 0 \<le> x \<and> x < 320 \<and> 0 \<le> y \<and> y < 182 \<longrightarrow>
       vram t (nat (x mod 4)) (uint (target_img t) + y * 80 + x div 4) = pixel (init_view modex_example) (0 + x) (0 + y)"
    using show_screen_displays [OF init_view_ok, of modex_example] by (auto simp: init_view_fields)
  from t(4) [rule_format, of 5 2] show ?thesis using t(1-3) by simp
qed

end
